(* ===== verification/JSPrelude.thy ===== *)
theory JSPrelude
  imports Complex_Main "HOL-Library.AList" "HOL-Library.Code_Target_Nat"
begin

text \<open>
  What the components share of the language and its standard library.

  A TypeScript string is a sequence of UTF-16 code units, and that is what its \<open>length\<close>,
  \<open>slice\<close>, \<open>indexOf\<close> and equality count. It is a list of natural numbers here; \<open>lit\<close> turns
  an ASCII literal of the source into one. The string operations the sources call (\<open>trim\<close>,
  \<open>startsWith\<close>, \<open>indexOf\<close>, \<open>split\<close>, \<open>join\<close>, \dots) follow their ECMAScript definitions on
  code units, white space outside ASCII included.

  A value of type \<open>unknown\<close> (a decoded JSON document) is a \<open>json\<close>, a number a \<open>jsnum\<close>: every
  finite double is a rational, the three non-finite values are constructors of their own.
  Comparison is exact on rationals; arithmetic, which rounds, is in \<open>JSArith\<close>. Objects, \<open>Map\<close>s and
  \<open>Record\<close>s are association lists in insertion order, and \<open>Set\<close>s are distinct lists.

  The locales at the end are the interfaces several components share: a normaliser, a
  generation counter that makes late callbacks no-ops, and a dictionary with last-write-wins.
\<close>

section \<open>Strings as code units\<close>

type_synonym code_unit = nat
type_synonym jstring = "code_unit list"

named_theorems js_eval \<open>equations that evaluate a closed string operation\<close>

definition lit :: "string \<Rightarrow> jstring" where
  "lit s = map of_char s"

lemma lit_Nil [simp]: "lit [] = []"
  by (simp add: lit_def)

lemma lit_Cons [js_eval]: "lit (c # s) = of_char c # lit s"
  by (simp add: lit_def)

lemma length_lit [simp]: "length (lit s) = length s"
  by (simp add: lit_def)

lemma lit_eq_Nil [simp]: "lit s = [] \<longleftrightarrow> s = []"
  by (simp add: lit_def)

text \<open>The code units of \<open>WhiteSpace\<close> and \<open>LineTerminator\<close>: what \<open>trim\<close> strips and what \<open>\s\<close>
  matches in a regular expression.\<close>

definition is_ws :: "code_unit \<Rightarrow> bool" where
  "is_ws c \<longleftrightarrow> (9 \<le> c \<and> c \<le> 13) \<or> c = 32 \<or> c = 160 \<or> c = 5760 \<or> (8192 \<le> c \<and> c \<le> 8202)
     \<or> c = 8232 \<or> c = 8233 \<or> c = 8239 \<or> c = 8287 \<or> c = 12288 \<or> c = 65279"

text \<open>What \<open>.\<close> does not match and where \<open>^\<close> and \<open>$\<close> match with the flag \<open>m\<close>.\<close>

definition line_terminator :: "code_unit \<Rightarrow> bool" where
  "line_terminator c \<longleftrightarrow> c \<in> {10, 13, 8232, 8233}"

definition js_trimStart :: "jstring \<Rightarrow> jstring" where
  "js_trimStart s = dropWhile is_ws s"

definition js_trimEnd :: "jstring \<Rightarrow> jstring" where
  "js_trimEnd s = rev (dropWhile is_ws (rev s))"

definition js_trim :: "jstring \<Rightarrow> jstring" where
  "js_trim s = js_trimEnd (js_trimStart s)"

fun js_startsWith :: "jstring \<Rightarrow> jstring \<Rightarrow> bool" where
  "js_startsWith s [] = True"
| "js_startsWith [] (p # ps) = False"
| "js_startsWith (c # s) (p # ps) = (c = p \<and> js_startsWith s ps)"

definition js_endsWith :: "jstring \<Rightarrow> jstring \<Rightarrow> bool" where
  "js_endsWith s p \<longleftrightarrow> js_startsWith (rev s) (rev p)"

text \<open>\<open>s.indexOf(p)\<close> with \<open>None\<close> for \<open>-1\<close>, and \<open>s.indexOf(p, i)\<close> for a non-empty \<open>p\<close>.\<close>

fun js_indexOf :: "jstring \<Rightarrow> jstring \<Rightarrow> nat option" where
  "js_indexOf [] p = (if p = [] then Some 0 else None)"
| "js_indexOf (c # s) p =
     (if js_startsWith (c # s) p then Some 0 else map_option Suc (js_indexOf s p))"

definition js_indexOf_from :: "jstring \<Rightarrow> jstring \<Rightarrow> nat \<Rightarrow> nat option" where
  "js_indexOf_from s p i = map_option (\<lambda>k. i + k) (js_indexOf (drop i s) p)"

definition js_includes :: "jstring \<Rightarrow> jstring \<Rightarrow> bool" where
  "js_includes s p \<longleftrightarrow> js_indexOf s p \<noteq> None"

text \<open>\<open>s.slice(a, b)\<close> for bounds that are not negative.\<close>

definition js_slice :: "'a list \<Rightarrow> nat \<Rightarrow> nat \<Rightarrow> 'a list" where
  "js_slice s a b = take (b - a) (drop a s)"

text \<open>\<open>s.split(c)\<close> for a one-unit separator and \<open>parts.join(sep)\<close>.\<close>

fun js_split :: "code_unit \<Rightarrow> jstring \<Rightarrow> jstring list" where
  "js_split c [] = [[]]"
| "js_split c (x # xs) =
     (if x = c then [] # js_split c xs
      else (case js_split c xs of [] \<Rightarrow> [[x]] | w # ws \<Rightarrow> (x # w) # ws))"

fun js_join :: "jstring \<Rightarrow> jstring list \<Rightarrow> jstring" where
  "js_join sep [] = []"
| "js_join sep [w] = w"
| "js_join sep (w # v # ws) = w @ sep @ js_join sep (v # ws)"

text \<open>\<open>[...new Set(xs)]\<close>: the first occurrence of each element, in order.\<close>

fun js_uniq :: "'a list \<Rightarrow> 'a list" where
  "js_uniq [] = []"
| "js_uniq (x # xs) = x # filter (\<lambda>y. y \<noteq> x) (js_uniq xs)"

text \<open>\<open>`${n}`\<close> for a natural number, \<open>Number.parseInt(s, 10)\<close> for a string of digits, and the
  regular expression \<open>/^\d+$/\<close>.\<close>

fun js_decimal :: "nat \<Rightarrow> jstring" where
  "js_decimal n = (if n < 10 then [48 + n] else js_decimal (n div 10) @ [48 + n mod 10])"

declare js_decimal.simps [simp del]

definition is_digit :: "code_unit \<Rightarrow> bool" where
  "is_digit c \<longleftrightarrow> 48 \<le> c \<and> c \<le> 57"

definition js_parseInt :: "jstring \<Rightarrow> nat" where
  "js_parseInt s = foldl (\<lambda>a c. 10 * a + (c - 48)) 0 s"

subsection \<open>White space\<close>

lemma js_trimStart_idem [simp]: "js_trimStart (js_trimStart s) = js_trimStart s"
  by (simp add: js_trimStart_def dropWhile_idem)

lemma js_trimEnd_idem [simp]: "js_trimEnd (js_trimEnd s) = js_trimEnd s"
  by (simp add: js_trimEnd_def dropWhile_idem)

lemma js_trimStart_fix: "s = [] \<or> \<not> is_ws (hd s) \<Longrightarrow> js_trimStart s = s"
  by (cases s) (auto simp: js_trimStart_def)

lemma js_trimStart_hd: "js_trimStart s = [] \<or> \<not> is_ws (hd (js_trimStart s))"
  unfolding js_trimStart_def by (metis hd_dropWhile)

lemma js_trimEnd_prefix: "\<exists>t. s = js_trimEnd s @ t \<and> (\<forall>c \<in> set t. is_ws c)"
proof (intro exI conjI)
  have "rev s = takeWhile is_ws (rev s) @ dropWhile is_ws (rev s)" by simp
  then have "rev (rev s) = rev (dropWhile is_ws (rev s)) @ rev (takeWhile is_ws (rev s))"
    by (metis rev_append)
  then show "s = js_trimEnd s @ rev (takeWhile is_ws (rev s))" by (simp add: js_trimEnd_def)
  show "\<forall>c \<in> set (rev (takeWhile is_ws (rev s))). is_ws c"
    by (auto dest: set_takeWhileD)
qed

lemma js_trimEnd_hd: "js_trimEnd s \<noteq> [] \<Longrightarrow> hd (js_trimEnd s) = hd s"
  using js_trimEnd_prefix [of s] by (metis hd_append2)

lemma js_trimStart_trimEnd: "js_trimStart (js_trimEnd (js_trimStart s)) = js_trimEnd (js_trimStart s)"
proof (rule js_trimStart_fix)
  show "js_trimEnd (js_trimStart s) = [] \<or> \<not> is_ws (hd (js_trimEnd (js_trimStart s)))"
  proof (cases "js_trimEnd (js_trimStart s) = []")
    case True
    then show ?thesis ..
  next
    case False
    then have "js_trimStart s \<noteq> []" by (auto simp: js_trimEnd_def)
    with False show ?thesis using js_trimStart_hd [of s] by (simp add: js_trimEnd_hd)
  qed
qed

lemma js_trim_idem [simp]: "js_trim (js_trim s) = js_trim s"
  by (simp add: js_trim_def js_trimStart_trimEnd)

lemma js_trim_Nil [simp]: "js_trim [] = []"
  by (simp add: js_trim_def js_trimStart_def js_trimEnd_def)

lemma set_js_trim: "set (js_trim s) \<subseteq> set s"
  by (auto simp: js_trim_def js_trimStart_def js_trimEnd_def dest!: set_dropWhileD)

lemma length_js_trim: "length (js_trim s) \<le> length s"
proof -
  have "length (js_trimEnd t) \<le> length t" for t
    by (simp add: js_trimEnd_def length_dropWhile_le order.trans [OF length_dropWhile_le])
  moreover have "length (js_trimStart s) \<le> length s"
    by (simp add: js_trimStart_def length_dropWhile_le)
  ultimately show ?thesis by (metis js_trim_def order.trans)
qed

lemma js_trim_fix:
  assumes "s = [] \<or> \<not> is_ws (hd s) \<and> \<not> is_ws (last s)"
  shows "js_trim s = s"
proof -
  have "js_trimStart s = s" using assms by (intro js_trimStart_fix) auto
  moreover have "js_trimEnd s = s"
  proof -
    have "rev s = [] \<or> \<not> is_ws (hd (rev s))" using assms by (auto simp: hd_rev)
    then have "dropWhile is_ws (rev s) = rev s" by (cases "rev s") auto
    then show ?thesis by (simp add: js_trimEnd_def)
  qed
  ultimately show ?thesis by (simp add: js_trim_def)
qed

lemma js_trim_no_ws: "\<forall>c \<in> set s. \<not> is_ws c \<Longrightarrow> js_trim s = s"
  by (rule js_trim_fix) (cases s; auto)

lemma js_trim_eq_Nil_iff: "js_trim s = [] \<longleftrightarrow> (\<forall>c \<in> set s. is_ws c)"
proof
  assume "js_trim s = []"
  then have "js_trimStart s = []"
    using js_trimEnd_prefix [of "js_trimStart s"] js_trimStart_hd [of s]
    by (metis append_Nil hd_in_set js_trim_def)
  then show "\<forall>c \<in> set s. is_ws c" by (simp add: js_trimStart_def)
next
  assume "\<forall>c \<in> set s. is_ws c"
  then have "js_trimStart s = []" by (simp add: js_trimStart_def)
  then show "js_trim s = []" by (simp add: js_trim_def js_trimEnd_def)
qed

subsection \<open>Prefixes and positions\<close>

lemma js_startsWith_iff: "js_startsWith s p \<longleftrightarrow> (\<exists>t. s = p @ t)"
  by (induction s p rule: js_startsWith.induct) auto

lemma js_startsWith_append [simp]: "js_startsWith (p @ t) p"
  by (auto simp: js_startsWith_iff)

lemma js_startsWith_drop: "js_startsWith s p \<Longrightarrow> s = p @ drop (length p) s"
  by (auto simp: js_startsWith_iff)

lemma js_startsWith_length: "js_startsWith s p \<Longrightarrow> length p \<le> length s"
  by (auto simp: js_startsWith_iff)

lemma js_endsWith_iff: "js_endsWith s p \<longleftrightarrow> (\<exists>t. s = t @ p)"
  unfolding js_endsWith_def js_startsWith_iff
  by (metis rev_append rev_rev_ident)

lemma js_indexOf_Some_startsWith:
  "js_indexOf s p = Some k \<Longrightarrow> k \<le> length s \<and> js_startsWith (drop k s) p"
  by (induction s arbitrary: k) (auto split: if_splits)

lemma js_indexOf_first:
  "js_indexOf s p = Some k \<Longrightarrow> j < k \<Longrightarrow> \<not> js_startsWith (drop j s) p"
proof (induction s arbitrary: k j)
  case Nil
  then show ?case by (auto split: if_splits)
next
  case (Cons c s)
  show ?case
  proof (cases j)
    case 0
    with Cons.prems show ?thesis by (auto split: if_splits)
  next
    case (Suc i)
    with Cons.prems obtain m where "js_indexOf s p = Some m" "i < m"
      by (auto split: if_splits)
    with Suc Cons.IH show ?thesis by simp
  qed
qed

lemma js_indexOf_Some_decomp:
  assumes "js_indexOf s p = Some k"
  shows "s = take k s @ p @ drop (k + length p) s"
proof -
  have "drop k s = p @ drop (length p) (drop k s)"
    using js_indexOf_Some_startsWith [OF assms] js_startsWith_drop by blast
  then show ?thesis
    by (metis add.commute append_take_drop_id drop_drop)
qed

lemma js_indexOf_bound:
  assumes "js_indexOf s p = Some k"
  shows "k + length p \<le> length s"
proof -
  have "length p \<le> length (drop k s)"
    using js_indexOf_Some_startsWith [OF assms] js_startsWith_length by blast
  then show ?thesis using js_indexOf_Some_startsWith [OF assms] by auto
qed

lemma js_indexOf_None_iff: "js_indexOf s p = None \<longleftrightarrow> (\<forall>a b. s \<noteq> a @ p @ b)"
proof (induction s)
  case Nil
  then show ?case by auto
next
  case (Cons c s)
  show ?case
  proof
    assume L: "js_indexOf (c # s) p = None"
    then have no: "\<not> js_startsWith (c # s) p" and IH: "\<forall>a b. s \<noteq> a @ p @ b"
      using Cons.IH by (auto split: if_splits)
    show "\<forall>a b. c # s \<noteq> a @ p @ b"
    proof (intro allI)
      fix a b
      show "c # s \<noteq> a @ p @ b"
        using no IH by (cases a) (auto simp: js_startsWith_iff)
    qed
  next
    assume R: "\<forall>a b. c # s \<noteq> a @ p @ b"
    then have "\<not> js_startsWith (c # s) p"
      by (metis append_Nil js_startsWith_iff)
    moreover have "\<forall>a b. s \<noteq> a @ p @ b"
      using R by (metis append_Cons)
    ultimately show "js_indexOf (c # s) p = None" using Cons.IH by auto
  qed
qed

lemma js_includes_iff: "js_includes s p \<longleftrightarrow> (\<exists>a b. s = a @ p @ b)"
  using js_indexOf_None_iff [of s p] by (auto simp: js_includes_def)

subsection \<open>Splitting, joining, distinct elements\<close>

lemma js_split_not_Nil [simp]: "js_split c s \<noteq> []"
  by (induction s) (auto split: list.splits)

lemma js_join_split: "js_join [c] (js_split c s) = s"
proof (induction s)
  case Nil
  then show ?case by simp
next
  case (Cons x s)
  obtain w ws where "js_split c s = w # ws"
    by (meson js_split_not_Nil neq_Nil_conv)
  with Cons show ?case by (cases ws) auto
qed

lemma js_split_no_sep: "w \<in> set (js_split c s) \<Longrightarrow> c \<notin> set w"
proof (induction s arbitrary: w)
  case Nil
  then show ?case by simp
next
  case (Cons x s)
  obtain v vs where "js_split c s = v # vs"
    by (meson js_split_not_Nil neq_Nil_conv)
  with Cons show ?case by (auto split: if_splits)
qed

lemma js_split_word: "c \<notin> set w \<Longrightarrow> js_split c w = [w]"
  by (induction w) auto

lemma js_split_append_sep: "c \<notin> set w \<Longrightarrow> js_split c (w @ c # s) = w # js_split c s"
  by (induction w) auto

lemma js_split_join:
  "ws \<noteq> [] \<Longrightarrow> \<forall>w \<in> set ws. c \<notin> set w \<Longrightarrow> js_split c (js_join [c] ws) = ws"
  by (induction "[c]" ws rule: js_join.induct) (auto simp: js_split_word js_split_append_sep)

lemma set_js_uniq [simp]: "set (js_uniq xs) = set xs"
  by (induction xs) auto

lemma distinct_js_uniq [simp]: "distinct (js_uniq xs)"
  by (induction xs) auto

lemma js_uniq_fix: "distinct xs \<Longrightarrow> js_uniq xs = xs"
  by (induction xs) (auto intro: filter_True)

lemma js_uniq_idem [simp]: "js_uniq (js_uniq xs) = js_uniq xs"
  by (simp add: js_uniq_fix)

lemma length_js_uniq: "length (js_uniq xs) \<le> length xs"
  by (induction xs) (auto intro: order.trans [OF length_filter_le])

subsection \<open>Decimal numerals\<close>

lemma js_decimal_not_Nil [simp]: "js_decimal n \<noteq> []"
  by (subst js_decimal.simps) simp

lemma js_decimal_digits: "c \<in> set (js_decimal n) \<Longrightarrow> is_digit c"
proof (induction n rule: js_decimal.induct)
  case (1 n)
  show ?case
  proof (cases "n < 10")
    case True
    with "1.prems" show ?thesis by (subst (asm) js_decimal.simps) (simp add: is_digit_def)
  next
    case False
    with "1" show ?thesis
      by (subst (asm) js_decimal.simps) (auto simp: is_digit_def)
  qed
qed

lemma js_parseInt_snoc: "js_parseInt (s @ [c]) = 10 * js_parseInt s + (c - 48)"
  by (simp add: js_parseInt_def)

lemma js_parseInt_decimal [simp]: "js_parseInt (js_decimal n) = n"
proof (induction n rule: js_decimal.induct)
  case (1 n)
  show ?case
  proof (cases "n < 10")
    case True
    then show ?thesis by (subst js_decimal.simps) (simp add: js_parseInt_def)
  next
    case False
    with "1.IH" show ?thesis by (subst js_decimal.simps) (simp add: js_parseInt_snoc)
  qed
qed

lemma is_digit_not_ws: "is_digit c \<Longrightarrow> \<not> is_ws c"
  by (auto simp: is_digit_def is_ws_def)

section \<open>Decoded JSON\<close>

datatype jsnum = Fin rat | PosInf | NegInf | NaN

datatype json =
    JNull
  | JBool bool
  | JNum jsnum
  | JStr jstring
  | JArr "json list"
  | JObj "(jstring \<times> json) list"

text \<open>\<open>value[key]\<close> on an \<open>unknown\<close> value; \<open>None\<close> is \<open>undefined\<close>. The keys read by the sources
  are no properties of an array.\<close>

fun js_get :: "json \<Rightarrow> jstring \<Rightarrow> json option" where
  "js_get (JObj m) k = map_of m k"
| "js_get _ k = None"

text \<open>\<open>typeof value === '...'\<close> on a possibly undefined value.\<close>

fun as_str :: "json option \<Rightarrow> jstring option" where
  "as_str (Some (JStr s)) = Some s"
| "as_str _ = None"

fun as_num :: "json option \<Rightarrow> jsnum option" where
  "as_num (Some (JNum n)) = Some n"
| "as_num _ = None"

fun as_bool :: "json option \<Rightarrow> bool option" where
  "as_bool (Some (JBool b)) = Some b"
| "as_bool _ = None"

text \<open>\<open>value?.key\<close> on a possibly undefined value.\<close>

definition js_opt_get :: "json option \<Rightarrow> jstring \<Rightarrow> json option" where
  "js_opt_get v k = Option.bind v (\<lambda>j. js_get j k)"

fun num_gt0 :: "jsnum \<Rightarrow> bool" where
  "num_gt0 (Fin q) = (0 < q)"
| "num_gt0 PosInf = True"
| "num_gt0 NegInf = False"
| "num_gt0 NaN = False"

fun num_isFinite :: "jsnum \<Rightarrow> bool" where
  "num_isFinite (Fin q) = True"
| "num_isFinite _ = False"

fun num_isInteger :: "jsnum \<Rightarrow> bool" where
  "num_isInteger (Fin q) = (of_int \<lfloor>q\<rfloor> = q)"
| "num_isInteger _ = False"

text \<open>\<open>x > n\<close> and \<open>x <= n\<close> against an integer: both are false for NaN.\<close>

fun num_gt :: "jsnum \<Rightarrow> int \<Rightarrow> bool" where
  "num_gt (Fin q) n = (of_int n < q)"
| "num_gt PosInf n = True"
| "num_gt NegInf n = False"
| "num_gt NaN n = False"

fun num_le :: "jsnum \<Rightarrow> int \<Rightarrow> bool" where
  "num_le (Fin q) n = (q \<le> of_int n)"
| "num_le PosInf n = False"
| "num_le NegInf n = True"
| "num_le NaN n = False"

text \<open>\<open>Boolean(x)\<close> of a number: zero and NaN are falsy.\<close>

fun num_truthy :: "jsnum \<Rightarrow> bool" where
  "num_truthy (Fin q) = (q \<noteq> 0)"
| "num_truthy NaN = False"
| "num_truthy _ = True"

fun json_truthy :: "json \<Rightarrow> bool" where
  "json_truthy JNull = False"
| "json_truthy (JBool b) = b"
| "json_truthy (JNum n) = num_truthy n"
| "json_truthy (JStr t) = (t \<noteq> [])"
| "json_truthy _ = True"

text \<open>\<open>Boolean(value)\<close> on a possibly undefined value, and \<open>a || b\<close> with a defined second operand.\<close>

definition js_truthy :: "json option \<Rightarrow> bool" where
  "js_truthy v = (case v of None \<Rightarrow> False | Some j \<Rightarrow> json_truthy j)"

text \<open>What a lookup or \<open>in\<close> on an object literal finds besides its own keys.\<close>

definition objectPrototypeMembers :: "jstring list" where
  "objectPrototypeMembers = map lit
     [''constructor'', ''toString'', ''toLocaleString'', ''valueOf'', ''hasOwnProperty'', ''isPrototypeOf'',
      ''propertyIsEnumerable'', ''__proto__'', ''__defineGetter__'', ''__defineSetter__'',
      ''__lookupGetter__'', ''__lookupSetter__'']"

lemma num_gt_le: "x \<noteq> NaN \<Longrightarrow> num_gt x n \<longleftrightarrow> \<not> num_le x n"
  by (cases x) auto

section \<open>Shared interfaces\<close>

text \<open>A normaliser: applying it again changes nothing, so its fixed points are its results.\<close>

locale normaliser =
  fixes norm :: "'a \<Rightarrow> 'a"
  assumes norm_idem: "norm (norm x) = norm x"
begin

lemma range_iff_fixed: "y \<in> range norm \<longleftrightarrow> norm y = y"
  using norm_idem by (metis rangeE rangeI)

lemma iterate_norm: "0 < n \<Longrightarrow> (norm ^^ n) x = norm x"
proof (induction n)
  case 0
  then show ?case by simp
next
  case (Suc n)
  then show ?case by (cases n) (simp_all add: norm_idem)
qed

end

text \<open>A normaliser that keeps the verdict of a checker: a document may be normalised before
  or after it is checked.\<close>

locale checked_normaliser = normaliser +
  fixes check :: "'a \<Rightarrow> 'b"
  assumes check_norm: "check (norm x) = check x"
begin

lemma same_norm_same_check: "norm x = norm y \<Longrightarrow> check x = check y"
  using check_norm by metis

end

text \<open>A generation counter. Callbacks carry the generation they were created in, and a callback
  of another generation does nothing. Commands may start a new generation.\<close>

locale generation_guard =
  fixes gen :: "'s \<Rightarrow> nat"
    and callback :: "nat \<Rightarrow> 'e \<Rightarrow> 's \<Rightarrow> 's"
    and command :: "'c \<Rightarrow> 's \<Rightarrow> 's"
  assumes stale: "g \<noteq> gen s \<Longrightarrow> callback g e s = s"
    and callback_gen: "gen s \<le> gen (callback g e s)"
    and command_gen: "gen s \<le> gen (command c s)"
begin

text \<open>A history interleaves callbacks and commands.\<close>

fun history :: "(nat \<times> 'e + 'c) list \<Rightarrow> 's \<Rightarrow> 's" where
  "history [] s = s"
| "history (Inl (g, e) # h) s = history h (callback g e s)"
| "history (Inr c # h) s = history h (command c s)"

lemma gen_history_mono: "gen s \<le> gen (history h s)"
proof (induction h s rule: history.induct)
  case (2 g e h s)
  then show ?case using callback_gen [of s g e] by simp
next
  case (3 c h s)
  then show ?case using command_gen [of s c] by simp
qed simp

lemma superseded_for_good:
  assumes "g < gen s"
  shows "callback g e (history h s) = history h s"
  using gen_history_mono [of s h] assms by (intro stale) simp

text \<open>Late callbacks can be struck from the future without changing it.\<close>

lemma erase_superseded:
  "k \<le> gen s \<Longrightarrow> history h s = history (filter (\<lambda>x. case x of Inl (g, e) \<Rightarrow> k \<le> g | Inr c \<Rightarrow> True) h) s"
proof (induction h s rule: history.induct)
  case (2 g e h s)
  show ?case
  proof (cases "k \<le> g")
    case True
    then show ?thesis using 2 callback_gen [of s g e] by simp
  next
    case False
    then have "callback g e s = s" using 2 by (intro stale) simp
    with 2 False show ?thesis by simp
  qed
next
  case (3 c h s)
  then show ?case using command_gen [of s c] by simp
qed simp

lemma stale_history:
  "\<forall>x \<in> set h. \<exists>g e. x = Inl (g, e) \<and> g \<noteq> gen s \<Longrightarrow> history h s = s"
  by (induction h s rule: history.induct) (auto simp: stale)

end

text \<open>A dictionary: reading after writing and after removing. \<open>Map\<close>s, \<open>Record\<close>s and header objects
  are used through these laws only.\<close>

locale dictionary =
  fixes lookup :: "'s \<Rightarrow> 'k \<Rightarrow> 'v option"
    and put :: "'k \<Rightarrow> 'v \<Rightarrow> 's \<Rightarrow> 's"
    and remove :: "'k \<Rightarrow> 's \<Rightarrow> 's"
  assumes lookup_put: "lookup (put k v s) k' = (if k' = k then Some v else lookup s k')"
    and lookup_remove: "lookup (remove k s) k' = (if k' = k then None else lookup s k')"
begin

lemma lookup_puts:
  "lookup (fold (\<lambda>(k, v). put k v) kvs s) k =
     (case map_of (rev kvs) k of None \<Rightarrow> lookup s k | Some v \<Rightarrow> Some v)"
  by (induction kvs arbitrary: s) (auto simp: lookup_put map_add_def split: option.splits)

lemma lookup_removes: "lookup (fold remove ks s) k = (if k \<in> set ks then None else lookup s k)"
  by (induction ks arbitrary: s) (auto simp: lookup_remove)

lemma put_absent_keeps: "lookup s k' = Some v' \<Longrightarrow> lookup s k = None \<Longrightarrow> lookup (put k v s) k' = Some v'"
  by (auto simp: lookup_put)

lemma put_remove: "lookup s k = None \<Longrightarrow> lookup (remove k (put k v s)) k' = lookup s k'"
  by (auto simp: lookup_put lookup_remove)

end

interpretation assoc: dictionary map_of AList.update AList.delete
  by unfold_locales (auto simp: update_conv' AList.delete_conv')

end
