(* ===== verification/StatusCodeRules.thy ===== *)
theory StatusCodeRules
  imports JSPrelude "HOL-Library.Product_Lexorder"
begin

text \<open>
  \<^verbatim>\<open>web/src/lib/http-status-code-rules.ts\<close>: the rules that select HTTP status codes for automatic
  retry and channel disabling, written as \<open>401,429,500-599\<close>. The text is split at commas, each
  token is a code or a range, and the ranges are sorted and merged into a canonical list whose
  printed form is stored. The lemmas show that the merged list covers exactly the codes of the
  tokens, that it is the canonical list (sorted, disjoint, with gaps), and that parsing the printed
  form gives the same rules back.
\<close>

record status_code_range =
  sc_start :: nat
  sc_end :: nat

record parsed_rules =
  pr_ok :: bool
  pr_ranges :: "status_code_range list"
  pr_tokens :: "jstring list"
  pr_normalized :: jstring
  pr_invalidTokens :: "jstring list"

definition isNumber :: "jstring \<Rightarrow> bool" where
  "isNumber s \<longleftrightarrow> s \<noteq> [] \<and> (\<forall>c \<in> set s. is_digit c)"

definition isValidCode :: "nat \<Rightarrow> bool" where
  "isValidCode code \<longleftrightarrow> 100 \<le> code \<and> code \<le> 599"

text \<open>\<open>const [a, b] = cleaned.split('-')\<close> reads the first two parts and drops the others.\<close>

definition parseToken :: "jstring \<Rightarrow> status_code_range option" where
  "parseToken token =
     (let cleaned = filter (\<lambda>c. \<not> is_ws c) (js_trim token)
      in if cleaned = [] then None
         else if js_includes cleaned (lit ''-'') then
           (case js_split 45 cleaned of
              a # b # _ \<Rightarrow>
                if \<not> isNumber a \<or> \<not> isNumber b then None
                else
                  let start = js_parseInt a; stop = js_parseInt b
                  in if \<not> isValidCode start \<or> \<not> isValidCode stop \<or> start > stop then None
                     else Some \<lparr>sc_start = start, sc_end = stop\<rparr>
            | _ \<Rightarrow> None)
         else if \<not> isNumber cleaned then None
         else
           let code = js_parseInt cleaned
           in if \<not> isValidCode code then None
              else Some \<lparr>sc_start = code, sc_end = code\<rparr>)"

text \<open>The body of the \<open>reduce\<close>: append the range, or extend the last one in place.\<close>

definition mergeStep :: "status_code_range list \<Rightarrow> status_code_range \<Rightarrow> status_code_range list" where
  "mergeStep merged current =
     (if merged = [] \<or> sc_start current > sc_end (last merged) + 1 then merged @ [current]
      else butlast merged @ [(last merged)\<lparr>sc_end := max (sc_end (last merged)) (sc_end current)\<rparr>])"

definition mergeRanges :: "status_code_range list \<Rightarrow> status_code_range list" where
  "mergeRanges rs = foldl mergeStep [] (sort_key (\<lambda>r. (sc_start r, sc_end r)) rs)"

definition rangeToken :: "status_code_range \<Rightarrow> jstring" where
  "rangeToken r =
     (if sc_start r = sc_end r then js_decimal (sc_start r)
      else js_decimal (sc_start r) @ lit ''-'' @ js_decimal (sc_end r))"

text \<open>The segments of a rule text: full-width commas (U+FF0C) count as commas, blank segments are
  dropped.\<close>

definition ruleSegments :: "jstring \<Rightarrow> jstring list" where
  "ruleSegments raw =
     filter (\<lambda>s. s \<noteq> []) (map js_trim (js_split 44 (map (\<lambda>c. if c = 65292 then 44 else c) raw)))"

text \<open>\<open>(input ?? '').toString().trim()\<close>: \<open>input\<close> is \<open>None\<close> for null and undefined, and otherwise
  what its \<open>toString()\<close> gives.\<close>

definition ruleText :: "jstring option \<Rightarrow> jstring" where
  "ruleText input = js_trim (case input of None \<Rightarrow> [] | Some s \<Rightarrow> s)"

definition parseHttpStatusCodeRules :: "jstring option \<Rightarrow> parsed_rules" where
  "parseHttpStatusCodeRules input =
     (let raw = ruleText input
      in if raw = []
         then \<lparr>pr_ok = True, pr_ranges = [], pr_tokens = [], pr_normalized = [], pr_invalidTokens = []\<rparr>
         else
           let segments = ruleSegments raw;
               invalid = filter (\<lambda>s. parseToken s = None) segments;
               parsed = List.map_filter parseToken segments
           in if invalid \<noteq> []
              then \<lparr>pr_ok = False, pr_ranges = [], pr_tokens = [], pr_normalized = raw, pr_invalidTokens = invalid\<rparr>
              else
                let merged = mergeRanges parsed; toks = map rangeToken merged
                in \<lparr>pr_ok = True, pr_ranges = merged, pr_tokens = toks,
                    pr_normalized = js_join (lit '','') toks, pr_invalidTokens = []\<rparr>)"

section \<open>Merging\<close>

definition covers :: "status_code_range list \<Rightarrow> nat \<Rightarrow> bool" where
  "covers rs n \<longleftrightarrow> (\<exists>r \<in> set rs. sc_start r \<le> n \<and> n \<le> sc_end r)"

definition wf_range :: "status_code_range \<Rightarrow> bool" where
  "wf_range r \<longleftrightarrow> isValidCode (sc_start r) \<and> isValidCode (sc_end r) \<and> sc_start r \<le> sc_end r"

text \<open>Canonical: every range is well-formed and starts at least two after the end of the one before,
  so no two ranges overlap or touch.\<close>

definition canonical :: "status_code_range list \<Rightarrow> bool" where
  "canonical rs \<longleftrightarrow> (\<forall>r \<in> set rs. wf_range r) \<and> sorted_wrt (\<lambda>r q. sc_end r + 1 < sc_start q) rs"

lemma covers_append: "covers (xs @ ys) n \<longleftrightarrow> covers xs n \<or> covers ys n"
  by (auto simp: covers_def)

lemma covers_snoc: "covers (xs @ [r]) n \<longleftrightarrow> covers xs n \<or> sc_start r \<le> n \<and> n \<le> sc_end r"
  by (simp add: covers_append) (simp add: covers_def)

lemma canonical_snoc:
  "canonical (xs @ [r]) \<longleftrightarrow>
     canonical xs \<and> wf_range r \<and> (\<forall>q \<in> set xs. sc_end q + 1 < sc_start r)"
  by (auto simp: canonical_def sorted_wrt_append)

text \<open>One step keeps the list canonical and covers one range more, provided the range starts no
  earlier than the last one of the list.\<close>

lemma mergeStep_correct:
  assumes can: "canonical ms" and wf: "wf_range r"
    and ord: "ms \<noteq> [] \<Longrightarrow> sc_start (last ms) \<le> sc_start r"
  shows "canonical (mergeStep ms r)"
    and "covers (mergeStep ms r) n \<longleftrightarrow> covers ms n \<or> sc_start r \<le> n \<and> n \<le> sc_end r"
    and "sc_start (last (mergeStep ms r)) \<le> sc_start r"
proof -
  have "canonical (mergeStep ms r)
      \<and> (covers (mergeStep ms r) n \<longleftrightarrow> covers ms n \<or> sc_start r \<le> n \<and> n \<le> sc_end r)
      \<and> sc_start (last (mergeStep ms r)) \<le> sc_start r"
  proof (cases ms rule: rev_cases)
    case Nil
    with wf show ?thesis by (simp add: mergeStep_def canonical_def covers_def)
  next
    case (snoc xs l)
    from can snoc have xs: "canonical xs" and l: "wf_range l"
      and gap: "\<forall>q \<in> set xs. sc_end q + 1 < sc_start l"
      by (simp_all add: canonical_snoc)
    from ord snoc have le: "sc_start l \<le> sc_start r" by simp
    show ?thesis
    proof (cases "sc_start r > sc_end l + 1")
      case True
      from l have "sc_start l \<le> sc_end l" by (simp add: wf_range_def)
      with gap True snoc have "\<forall>q \<in> set ms. sc_end q + 1 < sc_start r" by fastforce
      with can wf have "canonical (ms @ [r])" by (simp add: canonical_snoc)
      moreover have "mergeStep ms r = ms @ [r]" using True snoc by (simp add: mergeStep_def)
      ultimately show ?thesis by (simp add: covers_snoc)
    next
      case False
      let ?e = "l\<lparr>sc_end := max (sc_end l) (sc_end r)\<rparr>"
      from l wf have "wf_range ?e" by (auto simp: wf_range_def isValidCode_def)
      with xs gap have "canonical (xs @ [?e])" by (simp add: canonical_snoc)
      moreover have "covers (xs @ [?e]) n \<longleftrightarrow> covers ms n \<or> sc_start r \<le> n \<and> n \<le> sc_end r"
        using False le snoc by (auto simp: covers_snoc)
      ultimately show ?thesis using False le snoc by (simp add: mergeStep_def)
    qed
  qed
  then show "canonical (mergeStep ms r)"
    and "covers (mergeStep ms r) n \<longleftrightarrow> covers ms n \<or> sc_start r \<le> n \<and> n \<le> sc_end r"
    and "sc_start (last (mergeStep ms r)) \<le> sc_start r"
    by simp_all
qed

lemma mergeStep_not_Nil [simp]: "mergeStep ms r \<noteq> []"
  by (simp add: mergeStep_def)

lemma foldl_mergeStep_correct:
  assumes "canonical ms" and "\<forall>r \<in> set rs. wf_range r" and "sorted (map sc_start rs)"
    and "\<forall>r \<in> set rs. ms \<noteq> [] \<longrightarrow> sc_start (last ms) \<le> sc_start r"
  shows "canonical (foldl mergeStep ms rs) \<and>
    (covers (foldl mergeStep ms rs) n \<longleftrightarrow> covers ms n \<or> covers rs n)"
  using assms
proof (induction rs arbitrary: ms)
  case Nil
  then show ?case by (simp add: covers_def)
next
  case (Cons r rs)
  note step = mergeStep_correct [of ms r]
  have can: "canonical (mergeStep ms r)"
    and cov: "covers (mergeStep ms r) n \<longleftrightarrow> covers ms n \<or> sc_start r \<le> n \<and> n \<le> sc_end r"
    and lst: "sc_start (last (mergeStep ms r)) \<le> sc_start r"
    using step Cons.prems by auto
  have "canonical (foldl mergeStep (mergeStep ms r) rs) \<and>
    (covers (foldl mergeStep (mergeStep ms r) rs) n \<longleftrightarrow> covers (mergeStep ms r) n \<or> covers rs n)"
    using Cons.prems can lst by (intro Cons.IH) (auto intro: order.trans)
  with cov show ?case by (auto simp: covers_def)
qed

lemma sorted_map_start_sort_key:
  "sorted (map sc_start (sort_key (\<lambda>r. (sc_start r, sc_end r)) rs))"
proof -
  have "sorted (map (\<lambda>r. (sc_start r, sc_end r)) (sort_key (\<lambda>r. (sc_start r, sc_end r)) rs))"
    by (rule sorted_sort_key)
  then show ?thesis
    unfolding sorted_map by (rule sorted_wrt_mono_rel [rotated]) (auto simp: less_eq_prod_def)
qed

lemma mergeRanges_correct:
  assumes "\<forall>r \<in> set rs. wf_range r"
  shows "canonical (mergeRanges rs)" and "covers (mergeRanges rs) n \<longleftrightarrow> covers rs n"
proof -
  let ?s = "sort_key (\<lambda>r. (sc_start r, sc_end r)) rs"
  have "canonical (foldl mergeStep [] ?s) \<and>
      (covers (foldl mergeStep [] ?s) n \<longleftrightarrow> covers [] n \<or> covers ?s n)"
    using assms by (intro foldl_mergeStep_correct)
      (simp_all add: canonical_def sorted_map_start_sort_key)
  then show "canonical (mergeRanges rs)" and "covers (mergeRanges rs) n \<longleftrightarrow> covers rs n"
    by (simp_all add: mergeRanges_def covers_def)
qed

section \<open>Tokens\<close>

lemma parseToken_wf: "parseToken t = Some r \<Longrightarrow> wf_range r"
  by (auto simp: parseToken_def wf_range_def Let_def split: if_splits list.splits)

lemma isNumber_decimal: "isNumber (js_decimal n)"
  by (auto simp: isNumber_def dest: js_decimal_digits)

lemma decimal_not_in: "\<not> is_digit c \<Longrightarrow> c \<notin> set (js_decimal n)"
  using js_decimal_digits by blast

lemma set_rangeToken: "c \<in> set (rangeToken r) \<Longrightarrow> is_digit c \<or> c = 45"
  by (auto simp: rangeToken_def js_eval dest: js_decimal_digits split: if_splits)

lemma rangeToken_not_Nil [simp]: "rangeToken r \<noteq> []"
  by (simp add: rangeToken_def)

lemma rangeToken_no_ws: "c \<in> set (rangeToken r) \<Longrightarrow> \<not> is_ws c"
  using set_rangeToken [of c r] by (auto simp: is_digit_def is_ws_def)

text \<open>Printing a well-formed range and reading the token gives the range back.\<close>

lemma parseToken_rangeToken:
  assumes wf: "wf_range r"
  shows "parseToken (rangeToken r) = Some r"
proof -
  let ?t = "rangeToken r"
  have clean: "filter (\<lambda>c. \<not> is_ws c) (js_trim ?t) = ?t"
    by (simp add: js_trim_no_ws rangeToken_no_ws filter_id_conv)
  have valid: "isValidCode (sc_start r)" "isValidCode (sc_end r)" "sc_start r \<le> sc_end r"
    using wf by (simp_all add: wf_range_def)
  show ?thesis
  proof (cases "sc_start r = sc_end r")
    case True
    then have t: "?t = js_decimal (sc_start r)" by (simp add: rangeToken_def)
    have "\<not> js_includes ?t (lit ''-'')"
    proof
      assume "js_includes ?t (lit ''-'')"
      then have "45 \<in> set ?t" by (auto simp: js_includes_iff js_eval)
      then show False using t decimal_not_in [of 45 "sc_start r"] by (simp add: is_digit_def)
    qed
    with t True valid clean show ?thesis
      by (simp add: parseToken_def isNumber_decimal) (cases r; simp)
  next
    case False
    then have t: "?t = js_decimal (sc_start r) @ 45 # js_decimal (sc_end r)"
      by (simp add: rangeToken_def js_eval)
    have "js_includes ?t (lit ''-'')"
      unfolding js_includes_iff by (rule exI, rule exI [of _ "js_decimal (sc_end r)"])
        (simp add: t js_eval)
    moreover have "js_split 45 ?t = [js_decimal (sc_start r), js_decimal (sc_end r)]"
      by (simp add: t js_split_append_sep js_split_word decimal_not_in is_digit_def)
    ultimately show ?thesis using valid clean t
      by (simp add: parseToken_def isNumber_decimal)
  qed
qed

section \<open>Canonical lists are fixed points\<close>

lemma canonical_snocD:
  "canonical (xs @ [r]) \<Longrightarrow> canonical xs \<and> (xs \<noteq> [] \<longrightarrow> sc_end (last xs) + 1 < sc_start r)"
  by (auto simp: canonical_snoc)

lemma foldl_mergeStep_canonical: "canonical rs \<Longrightarrow> foldl mergeStep [] rs = rs"
proof (induction rs rule: rev_induct)
  case Nil
  then show ?case by simp
next
  case (snoc r rs)
  with canonical_snocD [of rs r] show ?case by (auto simp: mergeStep_def)
qed

lemma sort_key_canonical:
  assumes "canonical rs"
  shows "sort_key (\<lambda>r. (sc_start r, sc_end r)) rs = rs"
proof (rule sort_key_id_if_sorted)
  have "sorted_wrt (\<lambda>r q. (sc_start r, sc_end r) \<le> (sc_start q, sc_end q)) rs"
  proof (rule sorted_wrt_mono_rel)
    show "sorted_wrt (\<lambda>r q. sc_end r + 1 < sc_start q) rs"
      using assms by (simp add: canonical_def)
    fix r q
    assume "r \<in> set rs" and "sc_end r + 1 < sc_start q"
    moreover from \<open>r \<in> set rs\<close> assms have "sc_start r \<le> sc_end r"
      by (auto simp: canonical_def wf_range_def)
    ultimately show "(sc_start r, sc_end r) \<le> (sc_start q, sc_end q)"
      by (auto simp: less_eq_prod_def)
  qed
  then show "sorted (map (\<lambda>r. (sc_start r, sc_end r)) rs)" by (simp add: sorted_map)
qed

lemma mergeRanges_canonical: "canonical rs \<Longrightarrow> mergeRanges rs = rs"
  by (simp add: mergeRanges_def sort_key_canonical foldl_mergeStep_canonical)

section \<open>Rules\<close>

lemma ruleSegments_Nil [simp]: "ruleSegments [] = []"
  by (simp add: ruleSegments_def)

lemma parse_ok:
  assumes "pr_ok (parseHttpStatusCodeRules input)"
  defines "parsed \<equiv> List.map_filter parseToken (ruleSegments (ruleText input))"
  shows "parseHttpStatusCodeRules input =
    \<lparr>pr_ok = True, pr_ranges = mergeRanges parsed, pr_tokens = map rangeToken (mergeRanges parsed),
     pr_normalized = js_join (lit '','') (map rangeToken (mergeRanges parsed)),
     pr_invalidTokens = []\<rparr>"
  using assms
  by (auto simp: parseHttpStatusCodeRules_def Let_def List.map_filter_def mergeRanges_def
      split: if_splits)

lemma parsed_wf: "\<forall>r \<in> set (List.map_filter parseToken ts). wf_range r"
  by (auto simp: List.map_filter_def dest: parseToken_wf)

lemma covers_map_filter:
  "covers (List.map_filter parseToken ts) n \<longleftrightarrow>
     (\<exists>t \<in> set ts. \<exists>r. parseToken t = Some r \<and> sc_start r \<le> n \<and> n \<le> sc_end r)"
  by (force simp: covers_def List.map_filter_def)

lemma map_filter_rangeToken:
  "\<forall>r \<in> set rs. wf_range r \<Longrightarrow> List.map_filter parseToken (map rangeToken rs) = rs"
  by (induction rs) (auto simp: List.map_filter_simps parseToken_rangeToken)

text \<open>The segments of a printed rule list are its tokens.\<close>

lemma set_js_join: "set (js_join sep ws) \<subseteq> set sep \<union> \<Union> (set ` set ws)"
  by (induction sep ws rule: js_join.induct) auto

lemma join_rangeToken_units:
  "c \<in> set (js_join [44] (map rangeToken rs)) \<Longrightarrow> is_digit c \<or> c = 45 \<or> c = 44"
  using set_js_join [of "[44]" "map rangeToken rs"] set_rangeToken by fastforce

lemma ruleSegments_printed:
  assumes "rs \<noteq> []"
  shows "ruleSegments (js_join [44] (map rangeToken rs)) = map rangeToken rs"
proof -
  let ?j = "js_join [44] (map rangeToken rs)"
  have "map (\<lambda>c. if c = 65292 then 44 else c) ?j = ?j"
    by (rule map_idI) (auto dest!: join_rangeToken_units simp: is_digit_def)
  moreover have "js_split 44 ?j = map rangeToken rs"
    using assms by (intro js_split_join) (auto dest!: set_rangeToken simp: is_digit_def)
  moreover have "map js_trim (map rangeToken rs) = map rangeToken rs"
    by (simp add: js_trim_no_ws rangeToken_no_ws)
  ultimately show ?thesis by (simp add: ruleSegments_def filter_id_conv)
qed

lemma ruleText_printed:
  "ruleText (Some (js_join [44] (map rangeToken rs))) = js_join [44] (map rangeToken rs)"
  by (auto simp: ruleText_def is_ws_def is_digit_def
      intro!: js_trim_no_ws dest!: join_rangeToken_units)

lemma js_join_not_Nil: "ws \<noteq> [] \<Longrightarrow> \<forall>w \<in> set ws. w \<noteq> [] \<Longrightarrow> js_join sep ws \<noteq> []"
  by (induction sep ws rule: js_join.induct) auto

text \<open>Printing a canonical list and parsing the text gives the list, its tokens and the text.\<close>

lemma parse_printed:
  assumes "canonical rs"
  shows "parseHttpStatusCodeRules (Some (js_join [44] (map rangeToken rs))) =
    \<lparr>pr_ok = True, pr_ranges = rs, pr_tokens = map rangeToken rs,
     pr_normalized = js_join [44] (map rangeToken rs), pr_invalidTokens = []\<rparr>"
proof (cases "rs = []")
  case True
  then show ?thesis by (simp add: parseHttpStatusCodeRules_def ruleText_def)
next
  case False
  have wf: "\<forall>r \<in> set rs. wf_range r" using assms by (simp add: canonical_def)
  have "filter (\<lambda>s. parseToken s = None) (map rangeToken rs) = []"
    using wf by (auto simp: filter_empty_conv parseToken_rangeToken)
  with False wf assms show ?thesis
    by (simp add: parseHttpStatusCodeRules_def ruleText_printed ruleSegments_printed
        map_filter_rangeToken mergeRanges_canonical js_join_not_Nil js_eval Let_def)
qed

lemma parse_ok_canonical:
  "pr_ok (parseHttpStatusCodeRules input) \<Longrightarrow> canonical (pr_ranges (parseHttpStatusCodeRules input))"
  by (simp add: parse_ok mergeRanges_correct parsed_wf)

lemma parse_not_ok:
  "\<not> pr_ok (parseHttpStatusCodeRules input) \<longleftrightarrow>
     (\<exists>t \<in> set (ruleSegments (ruleText input)). parseToken t = None)"
  by (auto simp: parseHttpStatusCodeRules_def Let_def filter_empty_conv)

lemma parse_error:
  "\<not> pr_ok (parseHttpStatusCodeRules input) \<Longrightarrow> parseHttpStatusCodeRules input =
    \<lparr>pr_ok = False, pr_ranges = [], pr_tokens = [], pr_normalized = ruleText input,
     pr_invalidTokens = filter (\<lambda>t. parseToken t = None) (ruleSegments (ruleText input))\<rparr>"
  by (auto simp: parseHttpStatusCodeRules_def Let_def split: if_splits)

lemma ruleText_idem: "ruleText (Some (ruleText input)) = ruleText input"
  by (simp add: ruleText_def)

lemma parse_ruleText: "parseHttpStatusCodeRules (Some (ruleText input)) = parseHttpStatusCodeRules input"
  by (simp add: parseHttpStatusCodeRules_def ruleText_idem)

lemma parse_normalized:
  "parseHttpStatusCodeRules (Some (pr_normalized (parseHttpStatusCodeRules input))) =
   parseHttpStatusCodeRules input"
proof (cases "pr_ok (parseHttpStatusCodeRules input)")
  case True
  note ok = parse_ok [OF True]
  have can: "canonical (pr_ranges (parseHttpStatusCodeRules input))"
    using True by (rule parse_ok_canonical)
  show ?thesis
    using parse_printed [OF can] by (simp add: ok js_eval)
next
  case False
  then have "pr_normalized (parseHttpStatusCodeRules input) = ruleText input"
    by (simp add: parse_error)
  then show ?thesis by (simp add: parse_ruleText)
qed

text \<open>The stored form of a rule text is a normal form, and the verdict of the validator and the
  ranges it yields do not depend on whether the text was normalised before.\<close>

interpretation status_rules: checked_normaliser
  "\<lambda>s. pr_normalized (parseHttpStatusCodeRules (Some s))"
  "\<lambda>s. parseHttpStatusCodeRules (Some s)"
  by unfold_locales (simp_all add: parse_normalized)

lemma filter_js_trim: "filter (\<lambda>c. \<not> is_ws c) (js_trim s) = filter (\<lambda>c. \<not> is_ws c) s"
proof -
  have start: "filter (\<lambda>c. \<not> is_ws c) (dropWhile is_ws t) = filter (\<lambda>c. \<not> is_ws c) t" for t
    by (induction t) auto
  show ?thesis
    by (simp add: js_trim_def js_trimEnd_def js_trimStart_def start rev_filter [symmetric])
qed

section \<open>Properties\<close>

text \<open>C11. Accepted rules: the merged ranges are sorted, valid, disjoint and not adjacent, and they
  match exactly the status codes that some token of the text matches.\<close>

theorem status_rules_sound:
  assumes "pr_ok (parseHttpStatusCodeRules input)"
  shows "canonical (pr_ranges (parseHttpStatusCodeRules input)) \<and>
    (\<forall>n. covers (pr_ranges (parseHttpStatusCodeRules input)) n \<longleftrightarrow>
       (\<exists>t \<in> set (ruleSegments (ruleText input)). \<exists>r. parseToken t = Some r \<and>
          sc_start r \<le> n \<and> n \<le> sc_end r))"
  using assms
  by (simp add: parse_ok_canonical)
    (simp add: parse_ok mergeRanges_correct parsed_wf covers_map_filter)

theorem status_rules_sound_witness:
  "pr_ok (parseHttpStatusCodeRules (Some (lit ''500-510, 401 ,505-599''))) \<and>
   canonical (pr_ranges (parseHttpStatusCodeRules (Some (lit ''500-510, 401 ,505-599''))))"
proof -
  have "pr_ok (parseHttpStatusCodeRules (Some (lit ''500-510, 401 ,505-599'')))" by code_simp
  with status_rules_sound [OF this] show ?thesis by blast
qed

text \<open>C12. The stored text is a faithful normal form: parsing what the parser printed (or, for a
  rejected text, the text it kept) gives the same verdict, ranges, tokens and errors again.\<close>

theorem status_rules_roundtrip:
  "parseHttpStatusCodeRules (Some (pr_normalized (parseHttpStatusCodeRules input))) =
   parseHttpStatusCodeRules input"
  by (cases input) (simp_all add: parse_normalized)

text \<open>Rejected rules: the text is rejected exactly when some segment is not a code or range
  between 100 and 599, every such segment is reported in order, no range is returned and the text
  the user typed is kept.\<close>

theorem status_rules_error:
  "(pr_ok (parseHttpStatusCodeRules input) \<longleftrightarrow>
      (\<forall>t \<in> set (ruleSegments (ruleText input)). parseToken t \<noteq> None)) \<and>
   (\<not> pr_ok (parseHttpStatusCodeRules input) \<longrightarrow>
      pr_ranges (parseHttpStatusCodeRules input) = [] \<and>
      pr_normalized (parseHttpStatusCodeRules input) = ruleText input \<and>
      pr_invalidTokens (parseHttpStatusCodeRules input) =
        filter (\<lambda>t. parseToken t = None) (ruleSegments (ruleText input)))"
  using parse_not_ok [of input] by (auto simp: parse_error)

theorem status_rules_error_witness:
  "\<not> pr_ok (parseHttpStatusCodeRules (Some (lit ''401,abc''))) \<and>
   pr_normalized (parseHttpStatusCodeRules (Some (lit ''401,abc''))) = lit ''401,abc''"
proof -
  have bad: "\<not> pr_ok (parseHttpStatusCodeRules (Some (lit ''401,abc'')))" by code_simp
  have kept: "ruleText (Some (lit ''401,abc'')) = lit ''401,abc''" by code_simp
  show ?thesis using bad status_rules_error [of "Some (lit ''401,abc'')"] kept by simp
qed

text \<open>A range token is read up to its second dash only: whatever follows it is dropped, so a
  malformed token such as \<open>400-500-x\<close> is accepted as the range 400-500.\<close>

theorem parseToken_ignores_rest:
  assumes "wf_range r"
  shows "parseToken (js_decimal (sc_start r) @ lit ''-'' @ js_decimal (sc_end r) @ lit ''-'' @ junk)
    = Some r"
proof -
  let ?a = "js_decimal (sc_start r)" and ?b = "js_decimal (sc_end r)"
  let ?j = "filter (\<lambda>c. \<not> is_ws c) junk"
  have keep: "filter (\<lambda>c. \<not> is_ws c) (js_decimal n) = js_decimal n" for n
    by (auto simp: filter_id_conv dest: js_decimal_digits is_digit_not_ws)
  have dash: "\<not> is_ws 45" by (simp add: is_ws_def)
  have clean: "filter (\<lambda>c. \<not> is_ws c) (js_trim (?a @ lit ''-'' @ ?b @ lit ''-'' @ junk)) =
      ?a @ 45 # ?b @ 45 # ?j"
    using dash by (simp add: filter_js_trim keep js_eval)
  have "js_includes (?a @ 45 # ?b @ 45 # ?j) (lit ''-'')"
    unfolding js_includes_iff by (rule exI, rule exI [of _ "?b @ 45 # ?j"]) (simp add: js_eval)
  moreover have "js_split 45 (?a @ 45 # ?b @ 45 # ?j) = ?a # ?b # js_split 45 ?j"
    by (simp add: js_split_append_sep decimal_not_in is_digit_def)
  ultimately show ?thesis
    using assms by (simp add: parseToken_def clean isNumber_decimal wf_range_def)
qed

theorem parseToken_ignores_rest_witness:
  "parseToken (lit ''400-500-x'') = Some \<lparr>sc_start = 400, sc_end = 500\<rparr>"
proof -
  have wf: "wf_range \<lparr>sc_start = 400, sc_end = 500\<rparr>" by code_simp
  have "js_decimal 400 @ lit ''-'' @ js_decimal 500 @ lit ''-'' @ lit ''x'' = lit ''400-500-x''"
    by code_simp
  with parseToken_ignores_rest [OF wf, of "lit ''x''"] show ?thesis by simp
qed

end
