(* ===== verification/AuthStore.thy ===== *)
theory AuthStore
  imports JSPrelude "HOL-Library.Monad_Syntax"
begin

text \<open>
  \<^verbatim>\<open>web/src/stores/auth-store.ts\<close> and the validators of \<^verbatim>\<open>web/src/lib/auth-session.ts\<close>,
  \<^verbatim>\<open>auth-session-sync.ts\<close> and \<^verbatim>\<open>session-hint.ts\<close>: the in-memory login of one browser tab, the checks
  an \<open>unknown\<close> server value passes before it becomes a login, the events tabs exchange, and the
  cookie that hints at a session. A TypeScript type guard \<open>isX(value)\<close> is modelled by \<open>asX\<close>, which
  returns the typed value the guard lets through.
\<close>

section \<open>Data\<close>

record auth_user =
  u_id :: jsnum
  u_username :: jstring
  u_role :: jsnum
  u_extra :: "(jstring \<times> json) list" \<comment> \<open>the members the guard does not look at\<close>

record login_session =
  sid :: jstring
  current :: bool
  login_method :: jstring
  ip :: jstring
  user_agent :: jstring
  created_at :: jsnum
  last_active_at :: jsnum
  expires_at :: jsnum

record auth_bundle =
  access_token :: jstring
  token_type :: jstring
  access_expires_at :: jsnum
  bundle_user :: auth_user
  bundle_session :: login_session

datatype bootstrap_state = Idle | Checking | Complete

record auth_state =
  user :: "auth_user option"
  accessToken :: "jstring option"
  accessExpiresAt :: "jsnum option"
  session :: "login_session option"
  pending2FAFlowToken :: "jstring option"
  bootstrapState :: bootstrap_state

section \<open>Store operations\<close>

definition initialAuth :: auth_state where
  "initialAuth = \<lparr>user = None, accessToken = None, accessExpiresAt = None, session = None,
     pending2FAFlowToken = None, bootstrapState = Idle\<rparr>"

definition setBundle :: "auth_bundle \<Rightarrow> auth_state \<Rightarrow> auth_state" where
  "setBundle b s = s\<lparr>user := Some (bundle_user b), accessToken := Some (access_token b),
     accessExpiresAt := Some (access_expires_at b), session := Some (bundle_session b),
     pending2FAFlowToken := None, bootstrapState := Complete\<rparr>"

definition setUser :: "auth_user option \<Rightarrow> auth_state \<Rightarrow> auth_state" where
  "setUser u s = s\<lparr>user := u\<rparr>"

definition setPending2FAFlowToken :: "jstring option \<Rightarrow> auth_state \<Rightarrow> auth_state" where
  "setPending2FAFlowToken t s = s\<lparr>pending2FAFlowToken := t\<rparr>"

definition setBootstrapState :: "bootstrap_state \<Rightarrow> auth_state \<Rightarrow> auth_state" where
  "setBootstrapState b s = s\<lparr>bootstrapState := b\<rparr>"

definition reset :: "bootstrap_state \<Rightarrow> auth_state \<Rightarrow> auth_state" where
  "reset b s = s\<lparr>user := None, accessToken := None, accessExpiresAt := None, session := None,
     pending2FAFlowToken := None, bootstrapState := b\<rparr>"

definition currentSID :: "auth_state \<Rightarrow> jstring option" where
  "currentSID s = map_option sid (session s)"

lemmas store_defs = setBundle_def setUser_def setPending2FAFlowToken_def setBootstrapState_def
  reset_def currentSID_def

section \<open>Type guards on server values\<close>

fun isRecord :: "json option \<Rightarrow> bool" where
  "isRecord (Some (JObj m)) = True"
| "isRecord (Some (JArr xs)) = True"
| "isRecord _ = False"

fun members :: "json \<Rightarrow> (jstring \<times> json) list" where
  "members (JObj m) = m"
| "members _ = []"

definition guard_opt :: "bool \<Rightarrow> unit option" where
  "guard_opt b = (if b then Some () else None)"

definition asAuthUser :: "json option \<Rightarrow> auth_user option" where
  "asAuthUser v = do {
     guard_opt (isRecord v);
     i \<leftarrow> as_num (js_opt_get v (lit ''id''));
     guard_opt (num_isInteger i \<and> num_gt0 i);
     name \<leftarrow> as_str (js_opt_get v (lit ''username''));
     r \<leftarrow> as_num (js_opt_get v (lit ''role''));
     Some \<lparr>u_id = i, u_username = name, u_role = r,
       u_extra = filter (\<lambda>(k, _). k \<notin> {lit ''id'', lit ''username'', lit ''role''})
         (case v of None \<Rightarrow> [] | Some j \<Rightarrow> members j)\<rparr>
   }"

definition asLoginSession :: "json option \<Rightarrow> login_session option" where
  "asLoginSession v = do {
     guard_opt (isRecord v);
     s \<leftarrow> as_str (js_opt_get v (lit ''sid''));
     guard_opt (s \<noteq> []);
     cur \<leftarrow> as_bool (js_opt_get v (lit ''current''));
     lm \<leftarrow> as_str (js_opt_get v (lit ''login_method''));
     addr \<leftarrow> as_str (js_opt_get v (lit ''ip''));
     ua \<leftarrow> as_str (js_opt_get v (lit ''user_agent''));
     cr \<leftarrow> as_num (js_opt_get v (lit ''created_at''));
     la \<leftarrow> as_num (js_opt_get v (lit ''last_active_at''));
     ex \<leftarrow> as_num (js_opt_get v (lit ''expires_at''));
     Some \<lparr>sid = s, current = cur, login_method = lm, ip = addr, user_agent = ua,
       created_at = cr, last_active_at = la, expires_at = ex\<rparr>
   }"

text \<open>\<open>hasValidTokenFields\<close>: the token, its type and its expiry.\<close>

definition asTokenFields :: "json option \<Rightarrow> (jstring \<times> jstring \<times> jsnum) option" where
  "asTokenFields v = do {
     tok \<leftarrow> as_str (js_opt_get v (lit ''access_token''));
     guard_opt (tok \<noteq> []);
     ty \<leftarrow> as_str (js_opt_get v (lit ''token_type''));
     guard_opt (ty \<noteq> []);
     ex \<leftarrow> as_num (js_opt_get v (lit ''access_expires_at''));
     guard_opt (num_isFinite ex \<and> num_gt0 ex);
     Some (tok, ty, ex)
   }"

definition asAuthBundle :: "json option \<Rightarrow> auth_bundle option" where
  "asAuthBundle v = do {
     guard_opt (isRecord v);
     (tok, ty, ex) \<leftarrow> asTokenFields v;
     u \<leftarrow> asAuthUser (js_opt_get v (lit ''user''));
     s \<leftarrow> asLoginSession (js_opt_get v (lit ''session''));
     Some \<lparr>access_token = tok, token_type = ty, access_expires_at = ex,
       bundle_user = u, bundle_session = s\<rparr>
   }"

record auth_token_rotation =
  rot_access_token :: jstring
  rot_token_type :: jstring
  rot_access_expires_at :: jsnum
  rot_session :: login_session

definition asAuthTokenRotation :: "json option \<Rightarrow> auth_token_rotation option" where
  "asAuthTokenRotation v = do {
     guard_opt (isRecord v);
     (tok, ty, ex) \<leftarrow> asTokenFields v;
     guard_opt (ty = lit ''Bearer'');
     s \<leftarrow> asLoginSession (js_opt_get v (lit ''session''));
     guard_opt (current s);
     Some \<lparr>rot_access_token = tok, rot_token_type = ty, rot_access_expires_at = ex,
       rot_session = s\<rparr>
   }"

section \<open>Tab events\<close>

datatype sync_kind = SyncAuthenticated | SyncSignedOut

record sync_event =
  ev_kind :: sync_kind
  ev_sid :: jstring
  ev_source :: jstring
  ev_nonce :: jstring
  ev_timestamp :: jsnum

text \<open>What \<open>publishAuthSessionEvent\<close> finds in its environment: whether there is a window and a
  \<open>BroadcastChannel\<close>, whether local storage takes the write, the tab's source identifier, a fresh
  nonce and the clock.\<close>

record sync_env =
  has_window :: bool
  has_broadcast :: bool
  storage_ok :: bool
  authSyncSource :: jstring
  fresh_nonce :: jstring
  now_ms :: int

fun kindText :: "sync_kind \<Rightarrow> jstring" where
  "kindText SyncAuthenticated = lit ''authenticated''"
| "kindText SyncSignedOut = lit ''signed_out''"

text \<open>The message on the wire: the event object, which both transports carry unchanged.\<close>

definition eventMessage :: "sync_env \<Rightarrow> sync_kind \<Rightarrow> jstring \<Rightarrow> json" where
  "eventMessage env k s = JObj
     [(lit ''kind'', JStr (kindText k)), (lit ''sid'', JStr s),
      (lit ''source'', JStr (authSyncSource env)), (lit ''nonce'', JStr (fresh_nonce env)),
      (lit ''timestamp'', JNum (Fin (of_int (now_ms env))))]"

text \<open>The messages other tabs receive.\<close>

definition publishAuthSessionEvent :: "sync_env \<Rightarrow> sync_kind \<Rightarrow> jstring \<Rightarrow> json list" where
  "publishAuthSessionEvent env k s =
     (if \<not> has_window env \<or> s = [] then []
      else if has_broadcast env then [eventMessage env k s]
      else if storage_ok env then [eventMessage env k s]
      else [])"

definition asSyncKind :: "json option \<Rightarrow> sync_kind option" where
  "asSyncKind v = do {
     k \<leftarrow> as_str v;
     if k = lit ''authenticated'' then Some SyncAuthenticated
     else if k = lit ''signed_out'' then Some SyncSignedOut else None
   }"

definition asAuthSessionSyncEvent :: "json \<Rightarrow> sync_event option" where
  "asAuthSessionSyncEvent v = do {
     guard_opt (isRecord (Some v));
     k \<leftarrow> asSyncKind (js_get v (lit ''kind''));
     s \<leftarrow> as_str (js_get v (lit ''sid''));
     guard_opt (s \<noteq> []);
     src \<leftarrow> as_str (js_get v (lit ''source''));
     n \<leftarrow> as_str (js_get v (lit ''nonce''));
     t \<leftarrow> as_num (js_get v (lit ''timestamp''));
     Some \<lparr>ev_kind = k, ev_sid = s, ev_source = src, ev_nonce = n, ev_timestamp = t\<rparr>
   }"

fun withinMinute :: "int \<Rightarrow> jsnum \<Rightarrow> bool" where
  "withinMinute now (Fin q) = (\<bar>of_int now - q\<bar> < 60000)"
| "withinMinute now _ = False"

text \<open>\<open>deliver\<close>: the event a listener is called with, if any.\<close>

definition deliver :: "sync_env \<Rightarrow> json \<Rightarrow> sync_event option" where
  "deliver env v = do {
     e \<leftarrow> asAuthSessionSyncEvent v;
     guard_opt (ev_source e \<noteq> authSyncSource env \<and> withinMinute (now_ms env) (ev_timestamp e));
     Some e
   }"

section \<open>The session hint cookie\<close>

fun firstCookie :: "jstring \<Rightarrow> jstring list \<Rightarrow> jstring option" where
  "firstCookie name [] = None"
| "firstCookie name (part # parts) =
     (case js_indexOf part (lit ''='') of
        None \<Rightarrow> firstCookie name parts
      | Some separator \<Rightarrow>
          if js_trim (js_slice part 0 separator) \<noteq> name then firstCookie name parts
          else Some (js_trim (drop (separator + 1) part)))"

definition readCookie :: "jstring \<Rightarrow> jstring \<Rightarrow> jstring option" where
  "readCookie cookieHeader name = firstCookie name (js_split 59 cookieHeader)"

text \<open>\<open>cookies\<close> is \<open>None\<close> when there is no \<open>document\<close>.\<close>

definition hasSessionHint :: "jstring option \<Rightarrow> bool" where
  "hasSessionHint cookies =
     (case cookies of None \<Rightarrow> True
      | Some c \<Rightarrow> readCookie c (lit ''new_api_has_session'') \<noteq> None)"

section \<open>What the guards let through\<close>

lemma guard_opt_Some [simp]: "guard_opt b = Some x \<longleftrightarrow> b"
  by (simp add: guard_opt_def)

lemma guard_opt_True [simp]: "guard_opt True = Some ()"
  by (simp add: guard_opt_def)

lemma asLoginSession_sid: "asLoginSession v = Some s \<Longrightarrow> sid s \<noteq> []"
  by (auto simp: asLoginSession_def bind_eq_Some_conv)

lemma asTokenFields_Some:
  "asTokenFields v = Some (tok, ty, ex) \<Longrightarrow> tok \<noteq> [] \<and> ty \<noteq> [] \<and> num_isFinite ex \<and> num_gt0 ex"
  by (auto simp: asTokenFields_def bind_eq_Some_conv)

lemma asAuthUser_Some: "asAuthUser v = Some u \<Longrightarrow> num_isInteger (u_id u) \<and> num_gt0 (u_id u)"
  by (auto simp: asAuthUser_def bind_eq_Some_conv)

text \<open>A usable login: a token with a positive finite expiry, a user and a named session.\<close>

definition wf_bundle :: "auth_bundle \<Rightarrow> bool" where
  "wf_bundle b \<longleftrightarrow> access_token b \<noteq> [] \<and> token_type b \<noteq> [] \<and>
     num_isFinite (access_expires_at b) \<and> num_gt0 (access_expires_at b) \<and>
     num_isInteger (u_id (bundle_user b)) \<and> num_gt0 (u_id (bundle_user b)) \<and>
     sid (bundle_session b) \<noteq> []"

lemma asAuthBundle_wf: "asAuthBundle v = Some b \<Longrightarrow> wf_bundle b"
  by (auto simp: asAuthBundle_def wf_bundle_def bind_eq_Some_conv split: prod.splits
      dest: asTokenFields_Some asAuthUser_Some asLoginSession_sid)

lemma asAuthTokenRotation_Some:
  "asAuthTokenRotation v = Some r \<Longrightarrow>
     rot_access_token r \<noteq> [] \<and> rot_token_type r = lit ''Bearer'' \<and>
     num_isFinite (rot_access_expires_at r) \<and> num_gt0 (rot_access_expires_at r) \<and>
     sid (rot_session r) \<noteq> [] \<and> current (rot_session r)"
  by (auto simp: asAuthTokenRotation_def bind_eq_Some_conv split: prod.splits
      dest: asTokenFields_Some asLoginSession_sid)

section \<open>Delivery of tab events\<close>

lemma asSyncKind_kindText [simp]: "asSyncKind (Some (JStr (kindText k))) = Some k"
  by (cases k) (simp_all add: asSyncKind_def js_eval)

lemma asAuthSessionSyncEvent_message:
  assumes "s \<noteq> []"
  shows "asAuthSessionSyncEvent (eventMessage env k s) =
    Some \<lparr>ev_kind = k, ev_sid = s, ev_source = authSyncSource env, ev_nonce = fresh_nonce env,
      ev_timestamp = Fin (of_int (now_ms env))\<rparr>"
proof -
  have "js_get (eventMessage env k s) (lit ''kind'') = Some (JStr (kindText k))"
    and "js_get (eventMessage env k s) (lit ''sid'') = Some (JStr s)"
    and "js_get (eventMessage env k s) (lit ''source'') = Some (JStr (authSyncSource env))"
    and "js_get (eventMessage env k s) (lit ''nonce'') = Some (JStr (fresh_nonce env))"
    and "js_get (eventMessage env k s) (lit ''timestamp'') =
      Some (JNum (Fin (of_int (now_ms env))))"
    by (simp_all add: eventMessage_def js_eval)
  moreover have "isRecord (Some (eventMessage env k s))" by (simp add: eventMessage_def)
  ultimately show ?thesis using assms by (simp add: asAuthSessionSyncEvent_def)
qed

lemma withinMinute_of_int: "withinMinute a (Fin (of_int b)) \<longleftrightarrow> \<bar>a - b\<bar> < 60000"
proof -
  have "\<bar>of_int a - of_int b\<bar> < (60000 :: rat) \<longleftrightarrow> of_int \<bar>a - b\<bar> < (of_int 60000 :: rat)"
    by simp
  then show ?thesis by (simp only: withinMinute.simps of_int_less_iff)
qed

lemma publish_message: "m \<in> set (publishAuthSessionEvent env k s) \<Longrightarrow> m = eventMessage env k s \<and> s \<noteq> []"
  by (auto simp: publishAuthSessionEvent_def split: if_splits)

section \<open>Reading cookies\<close>

lemma js_split_join_sep:
  assumes "\<forall>w \<in> set (w # ws). c \<notin> set w" and "c \<notin> set sep"
  shows "js_split c (js_join (c # sep) (w # ws)) = w # map (\<lambda>v. sep @ v) ws"
  using assms
proof (induction ws arbitrary: w)
  case Nil
  then show ?case by (simp add: js_split_word)
next
  case (Cons v ws)
  have "js_split c (sep @ js_join (c # sep) (v # ws)) = (sep @ v) # map (\<lambda>v. sep @ v) ws"
  proof -
    have "sep @ js_join (c # sep) (v # ws) = js_join (c # sep) ((sep @ v) # ws)"
      by (cases ws) simp_all
    then show ?thesis using Cons.IH [of "sep @ v"] Cons.prems by simp
  qed
  with Cons.prems show ?case by (simp add: js_split_append_sep)
qed

text \<open>One \<open>name=value\<close> pair of a cookie header. Names have no \<open>=\<close>, \<open>;\<close> or white space at the ends,
  values no \<open>;\<close>.\<close>

definition cookiePair :: "jstring \<times> jstring \<Rightarrow> jstring" where
  "cookiePair kv = fst kv @ lit ''='' @ snd kv"

definition wf_cookie :: "jstring \<times> jstring \<Rightarrow> bool" where
  "wf_cookie kv \<longleftrightarrow> 61 \<notin> set (fst kv) \<and> 59 \<notin> set (fst kv) \<and> 59 \<notin> set (snd kv) \<and>
     js_trim (fst kv) = fst kv"

lemma js_indexOf_unit: "c \<notin> set a \<Longrightarrow> js_indexOf (a @ c # b) [c] = Some (length a)"
  by (induction a) auto

lemma js_trim_ws_prefix: "is_ws c \<Longrightarrow> js_trim (c # s) = js_trim s"
  by (simp add: js_trim_def js_trimStart_def)

lemma firstCookie_pair:
  assumes "wf_cookie kv" and "pre = [] \<or> pre = [32]"
  shows "firstCookie name ((pre @ cookiePair kv) # parts) =
    (if fst kv = name then Some (js_trim (snd kv)) else firstCookie name parts)"
proof -
  let ?n = "pre @ fst kv"
  have split: "pre @ cookiePair kv = ?n @ 61 # snd kv"
    by (simp add: cookiePair_def js_eval)
  have "61 \<notin> set ?n" using assms by (auto simp: wf_cookie_def)
  then have idx: "js_indexOf (?n @ 61 # snd kv) (lit ''='') = Some (length ?n)"
    using js_indexOf_unit [of 61 ?n] by (simp add: js_eval)
  have "is_ws 32" by (simp add: is_ws_def)
  then have "js_trim ?n = fst kv"
    using assms by (auto simp: wf_cookie_def js_trim_ws_prefix)
  then show ?thesis unfolding split firstCookie.simps idx by (simp add: js_slice_def)
qed

lemma firstCookie_pairs:
  assumes "\<forall>kv \<in> set kvs. wf_cookie kv"
  shows "firstCookie name (map (\<lambda>v. [32] @ v) (map cookiePair kvs)) = map_option js_trim (map_of kvs name)"
  using assms
proof (induction kvs)
  case Nil
  then show ?case by simp
next
  case (Cons kv kvs)
  then show ?case
    using firstCookie_pair [of kv "[32]" name] by (cases kv) auto
qed

lemma readCookie_header:
  assumes "\<forall>kv \<in> set kvs. wf_cookie kv"
  shows "readCookie (js_join (lit ''; '') (map cookiePair kvs)) name =
    map_option js_trim (map_of kvs name)"
proof (cases kvs)
  case Nil
  then show ?thesis by (simp add: readCookie_def js_eval)
next
  case (Cons kv rest)
  have units: "\<forall>w \<in> set (map cookiePair kvs). 59 \<notin> set w"
    using assms by (auto simp: wf_cookie_def cookiePair_def js_eval)
  have "js_split 59 (js_join (lit ''; '') (map cookiePair kvs)) =
      cookiePair kv # map (\<lambda>v. [32] @ v) (map cookiePair rest)"
    using js_split_join_sep [of "cookiePair kv" "map cookiePair rest" 59 "[32]"] units Cons
    by (simp add: js_eval)
  then show ?thesis
    using firstCookie_pair [of kv "[]" name] firstCookie_pairs [of rest name] assms Cons
    by (cases kv) (auto simp: readCookie_def)
qed

end
