(* ===== verification/AuthSession.thy ===== *)
theory AuthSession
  imports AuthStore
begin

text \<open>
  \<^verbatim>\<open>web/src/lib/auth-session.ts\<close> and the event handlers of \<^verbatim>\<open>web/src/routes/__root.tsx\<close>: the
  module state of one tab (the store, the authentication epoch, the messages posted to other tabs,
  the shared refresh promise), the operations on it, and the refresh protocol.

  The refresh runner is an asynchronous function with three suspension points: before it sends a
  request, while the request is out, and while it waits for a lost race to settle. It is a state
  machine here, one step per stretch of code between two suspensions, and the other operations of
  the module interleave with its steps (\<open>refresh_step\<close>).
\<close>

section \<open>Module state and synchronous operations\<close>

record auth_module =
  auth :: auth_state
  authEpoch :: nat
  posted :: "json list" \<comment> \<open>messages sent to the other tabs\<close>
  refreshPromise :: "nat option" \<comment> \<open>the epoch of the refresh in flight\<close>

definition initialModule :: auth_module where
  "initialModule = \<lparr>auth = initialAuth, authEpoch = 0, posted = [], refreshPromise = None\<rparr>"

definition applyAuthBundle :: "sync_env \<Rightarrow> auth_bundle \<Rightarrow> bool \<Rightarrow> auth_module \<Rightarrow> auth_module" where
  "applyAuthBundle env b synchronizeTabs m =
     (let previousSID = currentSID (auth m)
      in m\<lparr>authEpoch := authEpoch m + 1, auth := setBundle b (auth m),
           posted := posted m @
             (if synchronizeTabs \<and> previousSID \<noteq> Some (sid (bundle_session b))
              then publishAuthSessionEvent env SyncAuthenticated (sid (bundle_session b))
              else [])\<rparr>)"

datatype rotation_error = InvalidRotation | NoActiveSession | SessionMismatch

definition applyAuthRotation :: "sync_env \<Rightarrow> json option \<Rightarrow> auth_module \<Rightarrow> rotation_error + auth_module" where
  "applyAuthRotation env v m =
     (case asAuthTokenRotation v of
        None \<Rightarrow> Inl InvalidRotation
      | Some r \<Rightarrow>
          (case (user (auth m), session (auth m)) of
             (Some u, Some s) \<Rightarrow>
               if sid (rot_session r) \<noteq> sid s then Inl SessionMismatch
               else Inr (applyAuthBundle env
                 \<lparr>access_token = rot_access_token r, token_type = rot_token_type r,
                  access_expires_at = rot_access_expires_at r, bundle_user = u,
                  bundle_session = rot_session r\<rparr> False m)
           | _ \<Rightarrow> Inl NoActiveSession))"

definition clearAuthentication :: "sync_env \<Rightarrow> bool \<Rightarrow> bootstrap_state \<Rightarrow> auth_module \<Rightarrow> auth_module" where
  "clearAuthentication env synchronizeTabs b m =
     m\<lparr>authEpoch := authEpoch m + 1, auth := reset b (auth m),
       posted := posted m @
         (case currentSID (auth m) of
            Some s \<Rightarrow> if synchronizeTabs then publishAuthSessionEvent env SyncSignedOut s else []
          | None \<Rightarrow> [])\<rparr>"

section \<open>The refresh runner\<close>

datatype refresh_error = Superseded | Upstream "json option"

datatype refresh_outcome =
    Authenticated auth_bundle
  | Anonymous
  | TransientError refresh_error
  | OutOfSync "jstring option"

record http_response =
  status :: int \<comment> \<open>0 when no response arrived\<close>
  resp_data :: "json option"
  resp_error :: "json option"

datatype runtime_action = AcceptBundle auth_bundle | Clear bool "bootstrap_state option" | MarkTransient

datatype runner_next = Return refresh_outcome | WaitAndRun nat nat bool | RunAgain nat bool

definition refreshRaceDelays :: "nat list" where
  "refreshRaceDelays = [80, 200, 500]"

text \<open>What \<open>run(raceAttempt, allowMismatchRetry)\<close> does with a response: the calls it makes on its
  runtime, in order, and how it goes on.\<close>

definition onResponse :: "nat \<Rightarrow> bool \<Rightarrow> http_response \<Rightarrow> runtime_action list \<times> runner_next" where
  "onResponse raceAttempt allowMismatchRetry response =
     (let responseData = (if isRecord (resp_data response) then resp_data response else None);
          code = as_str (js_opt_get responseData (lit ''code''));
          bundle = asAuthBundle (js_opt_get responseData (lit ''data''));
          success = (js_opt_get responseData (lit ''success'') = Some (JBool True))
      in case (success, bundle) of
           (True, Some b) \<Rightarrow> ([AcceptBundle b], Return (Authenticated b))
         | _ \<Rightarrow>
           if status response = 409 \<and> code = Some (lit ''AUTH_REFRESH_RACE'') then
             (if raceAttempt < length refreshRaceDelays
              then ([], WaitAndRun (refreshRaceDelays ! raceAttempt) (raceAttempt + 1) allowMismatchRetry)
              else ([Clear False None], Return (OutOfSync code)))
           else if status response = 409 \<and> code = Some (lit ''AUTH_SESSION_MISMATCH'') then
             (if allowMismatchRetry then ([Clear False (Some Idle)], RunAgain 0 False)
              else ([Clear False None], Return (OutOfSync code)))
           else if status response = 401 then ([Clear True None], Return Anonymous)
           else if status response = 0 \<or> status response \<ge> 500 \<or> status response = 429 then
             ([MarkTransient],
              Return (TransientError (Upstream (case resp_error response of
                 Some e \<Rightarrow> if e = JNull then resp_data response else Some e
               | None \<Rightarrow> resp_data response))))
           else ([Clear False None],
                 Return (OutOfSync (Some (case code of
                    Some c \<Rightarrow> c | None \<Rightarrow> lit ''AUTH_INVALID_REFRESH_RESPONSE'')))))"

text \<open>The runtime \<open>runRefresh\<close> passes to the runner.\<close>

fun runAction :: "sync_env \<Rightarrow> runtime_action \<Rightarrow> auth_module \<Rightarrow> auth_module" where
  "runAction env (AcceptBundle b) m = applyAuthBundle env b False m"
| "runAction env (Clear synchronizeTabs bs) m =
     (if \<not> synchronizeTabs \<and> bs = Some Idle then m\<lparr>auth := reset Idle (auth m)\<rparr>
      else clearAuthentication env synchronizeTabs (case bs of None \<Rightarrow> Complete | Some b \<Rightarrow> b) m)"
| "runAction env MarkTransient m = m\<lparr>auth := setBootstrapState Idle (auth m)\<rparr>"

datatype runner =
    Ready nat bool \<comment> \<open>about to enter \<open>run\<close>\<close>
  | Requesting nat bool "jstring option" \<comment> \<open>the request is out, with the expected session\<close>
  | Sleeping nat nat bool \<comment> \<open>waiting a delay before the next attempt\<close>
  | Finished refresh_outcome

definition superseded :: runner where
  "superseded = Finished (TransientError Superseded)"

text \<open>Entering \<open>run\<close>: the epoch is checked and the request is sent.\<close>

definition runnerSend :: "nat \<Rightarrow> nat \<Rightarrow> bool \<Rightarrow> auth_module \<Rightarrow> runner" where
  "runnerSend refreshEpoch raceAttempt allow m =
     (if authEpoch m \<noteq> refreshEpoch then superseded
      else Requesting raceAttempt allow (currentSID (auth m)))"

text \<open>The response arrives: the epoch is checked again, then the response is handled.\<close>

definition runnerReceive ::
  "sync_env \<Rightarrow> nat \<Rightarrow> nat \<Rightarrow> bool \<Rightarrow> http_response \<Rightarrow> auth_module \<Rightarrow> auth_module \<times> runner" where
  "runnerReceive env refreshEpoch raceAttempt allow response m =
     (if authEpoch m \<noteq> refreshEpoch then (m, superseded)
      else
        let (acts, k) = onResponse raceAttempt allow response
        in (fold (runAction env) acts m,
            case k of
              Return out \<Rightarrow> Finished out
            | WaitAndRun delay a b \<Rightarrow> Sleeping delay a b
            | RunAgain a b \<Rightarrow> Ready a b))"

text \<open>\<open>X-Auth-Session\<close> is sent for a non-empty expected session.\<close>

definition refreshHeaders :: "jstring option \<Rightarrow> (jstring \<times> jstring) list" where
  "refreshHeaders expectedSID =
     (case expectedSID of
        None \<Rightarrow> []
      | Some s \<Rightarrow> if s = [] then [] else [(lit ''X-Auth-Session'', s)])"

text \<open>Operations other code performs on the module while the runner is suspended.\<close>

datatype module_op =
    OpApplyBundle auth_bundle bool
  | OpRotation "json option"
  | OpClear bool bootstrap_state
  | OpSetUser "auth_user option"
  | OpSetPending "jstring option"
  | OpSetBootstrap bootstrap_state

fun moduleOp :: "sync_env \<Rightarrow> module_op \<Rightarrow> auth_module \<Rightarrow> auth_module" where
  "moduleOp env (OpApplyBundle b t) m = applyAuthBundle env b t m"
| "moduleOp env (OpRotation v) m =
     (case applyAuthRotation env v m of Inl _ \<Rightarrow> m | Inr m' \<Rightarrow> m')"
| "moduleOp env (OpClear t b) m = clearAuthentication env t b m"
| "moduleOp env (OpSetUser u) m = m\<lparr>auth := setUser u (auth m)\<rparr>"
| "moduleOp env (OpSetPending t) m = m\<lparr>auth := setPending2FAFlowToken t (auth m)\<rparr>"
| "moduleOp env (OpSetBootstrap b) m = m\<lparr>auth := setBootstrapState b (auth m)\<rparr>"

datatype label = Send | Receive http_response | Wake | Other module_op

inductive refresh_step ::
  "sync_env \<Rightarrow> nat \<Rightarrow> auth_module \<times> runner \<Rightarrow> label \<Rightarrow> auth_module \<times> runner \<Rightarrow> bool"
  for env :: sync_env and e :: nat where
  send: "refresh_step env e (m, Ready a b) Send (m, runnerSend e a b m)"
| receive: "refresh_step env e (m, Requesting a b s) (Receive r) (runnerReceive env e a b r m)"
| wake: "refresh_step env e (m, Sleeping d a b) Wake (m, Ready a b)"
| other: "refresh_step env e (m, k) (Other x) (moduleOp env x m, k)"

text \<open>A run interleaves the steps of one runner with operations of other code; the environment (clock,
  nonces) may differ from step to step.\<close>

inductive refresh_run ::
  "nat \<Rightarrow> auth_module \<times> runner \<Rightarrow> label list \<Rightarrow> auth_module \<times> runner \<Rightarrow> bool" for e :: nat where
  stop: "refresh_run e c [] c"
| step: "refresh_step env e c l c' \<Longrightarrow> refresh_run e c' ls c'' \<Longrightarrow> refresh_run e c (l # ls) c''"

inductive_cases refresh_run_ConsE: "refresh_run e c (l # ls) c''"
inductive_cases refresh_run_NilE: "refresh_run e c [] c''"
inductive_simps refresh_step_Ready: "refresh_step env e (m, Ready a b) l c"
inductive_simps refresh_step_Requesting: "refresh_step env e (m, Requesting a b s) l c"
inductive_simps refresh_step_Sleeping: "refresh_step env e (m, Sleeping d a b) l c"
inductive_simps refresh_step_Finished: "refresh_step env e (m, Finished out) l c"

text \<open>The runner on its own against a script of responses: fuel counts its steps.\<close>

fun runScript :: "sync_env \<Rightarrow> nat \<Rightarrow> nat \<Rightarrow> http_response list \<Rightarrow> auth_module \<times> runner \<Rightarrow>
    (auth_module \<times> refresh_outcome) option" where
  "runScript env e fuel rs (m, Finished out) = Some (m, out)"
| "runScript env e 0 rs (m, k) = None"
| "runScript env e (Suc fuel) rs (m, Ready a b) = runScript env e fuel rs (m, runnerSend e a b m)"
| "runScript env e (Suc fuel) rs (m, Sleeping d a b) = runScript env e fuel rs (m, Ready a b)"
| "runScript env e (Suc fuel) [] (m, Requesting a b s) = None"
| "runScript env e (Suc fuel) (r # rs) (m, Requesting a b s) =
     runScript env e fuel rs (runnerReceive env e a b r m)"

section \<open>Sharing one refresh\<close>

text \<open>\<open>refreshAuthentication\<close> starts a runner when no refresh is in flight and joins the one in flight
  otherwise; the promise is cleared when it settles.\<close>

definition refreshAuthentication :: "auth_module \<Rightarrow> auth_module \<times> (nat \<times> runner) option" where
  "refreshAuthentication m =
     (case refreshPromise m of
        None \<Rightarrow> (m\<lparr>refreshPromise := Some (authEpoch m)\<rparr>, Some (authEpoch m, Ready 0 True))
      | Some _ \<Rightarrow> (m, None))"

definition settleRefresh :: "auth_module \<Rightarrow> auth_module" where
  "settleRefresh m = m\<lparr>refreshPromise := None\<rparr>"

text \<open>How the browser answers \<open>navigator.locks.request\<close>. Its promise is returned from the \<open>try\<close> block
  without \<open>await\<close>, so a rejection leaves the function as a rejection and the handler does not run; an
  exception thrown by the call itself is handled.\<close>

datatype lock_answer = LocksUnavailable | LockGranted | LockRejected json | LockThrew json

datatype locked_refresh = Runs runner | Settled refresh_outcome | Rejects json

definition performRefreshWithBrowserLock :: "lock_answer \<Rightarrow> auth_module \<Rightarrow> auth_module \<times> locked_refresh" where
  "performRefreshWithBrowserLock lock m =
     (case lock of
        LocksUnavailable \<Rightarrow> (m, Runs (Ready 0 True))
      | LockGranted \<Rightarrow> (m, Runs (Ready 0 True))
      | LockRejected err \<Rightarrow> (m, Rejects err)
      | LockThrew err \<Rightarrow>
          (m\<lparr>auth := setBootstrapState Idle (auth m)\<rparr>, Settled (TransientError (Upstream (Some err)))))"

text \<open>All refreshes of a tab: the module and the runners that have not settled.\<close>

record refresh_system =
  sys_module :: auth_module
  active :: "(nat \<times> runner) list"

inductive system_step :: "refresh_system \<Rightarrow> refresh_system \<Rightarrow> bool" where
  call: "refreshAuthentication (sys_module s) = (m, started) \<Longrightarrow>
     system_step s (s\<lparr>sys_module := m, active := active s @ (case started of None \<Rightarrow> [] | Some r \<Rightarrow> [r])\<rparr>)"
| advance: "i < length (active s) \<Longrightarrow> active s ! i = (e, k) \<Longrightarrow>
     refresh_step env e (sys_module s, k) l (m, k') \<Longrightarrow> (\<forall>x. l \<noteq> Other x) \<Longrightarrow>
     system_step s (s\<lparr>sys_module := m, active := (active s)[i := (e, k')]\<rparr>)"
| settle: "i < length (active s) \<Longrightarrow> active s ! i = (e, Finished out) \<Longrightarrow>
     system_step s (s\<lparr>sys_module := settleRefresh (sys_module s),
       active := take i (active s) @ drop (Suc i) (active s)\<rparr>)"
| outside: "system_step s (s\<lparr>sys_module := moduleOp env x (sys_module s)\<rparr>)"

inductive system_reachable :: "refresh_system \<Rightarrow> bool" where
  init: "system_reachable \<lparr>sys_module = initialModule, active = []\<rparr>"
| move: "system_reachable s \<Longrightarrow> system_step s t \<Longrightarrow> system_reachable t"

section \<open>Resolving authentication\<close>

definition seconds :: "int \<Rightarrow> int" where
  "seconds now = now div 1000"

definition currentValidAuthBundle :: "int \<Rightarrow> auth_state \<Rightarrow> auth_bundle option" where
  "currentValidAuthBundle now s =
     (case (user s, accessToken s, accessExpiresAt s, session s) of
        (Some u, Some t, Some x, Some ses) \<Rightarrow>
          if t = [] \<or> \<not> num_truthy x \<or> num_le x (seconds now) then None
          else Some \<lparr>access_token = t, token_type = lit ''Bearer'', access_expires_at = x,
                 bundle_user = u, bundle_session = ses\<rparr>
      | _ \<Rightarrow> None)"

datatype resolution = Resolved refresh_outcome | AwaitRefresh

definition resolveAuthentication :: "int \<Rightarrow> auth_module \<Rightarrow> auth_module \<times> resolution" where
  "resolveAuthentication now m =
     (case currentValidAuthBundle now (auth m) of
        Some b \<Rightarrow> (m\<lparr>auth := setBootstrapState Complete (auth m)\<rparr>, Resolved (Authenticated b))
      | None \<Rightarrow>
          let hasStaleSession = (user (auth m) \<noteq> None \<and> session (auth m) \<noteq> None)
          in if bootstrapState (auth m) = Complete \<and> \<not> hasStaleSession then (m, Resolved Anonymous)
             else (m\<lparr>auth := setBootstrapState Checking (auth m)\<rparr>, AwaitRefresh))"

definition bootstrapAuthentication :: "int \<Rightarrow> jstring option \<Rightarrow> auth_module \<Rightarrow> auth_module \<times> resolution" where
  "bootstrapAuthentication now cookies m =
     (if currentValidAuthBundle now (auth m) = None \<and> \<not> hasSessionHint cookies \<and>
         user (auth m) = None \<and> session (auth m) = None
      then (m, Resolved Anonymous)
      else resolveAuthentication now m)"

definition getCommonHeaders :: "auth_state \<Rightarrow> (jstring \<times> jstring) list" where
  "getCommonHeaders s =
     (lit ''Content-Type'', lit ''application/json'') #
     (case accessToken s of
        None \<Rightarrow> []
      | Some t \<Rightarrow> if t = [] then [] else [(lit ''Authorization'', lit ''Bearer '' @ t)])"

definition tokenLivesPast :: "int \<Rightarrow> auth_state \<Rightarrow> bool" where
  "tokenLivesPast limit s =
     (case (accessToken s, accessExpiresAt s) of
        (Some t, Some x) \<Rightarrow> t \<noteq> [] \<and> num_truthy x \<and> num_gt x limit
      | _ \<Rightarrow> False)"

text \<open>\<open>getFreshAuthHeaders\<close>: before the refresh (\<open>None\<close> means the refresh is awaited) and after it.\<close>

datatype headers_error = RequestFailed refresh_error | SessionExpired

definition freshHeadersNow :: "int \<Rightarrow> auth_state \<Rightarrow> (jstring \<times> jstring) list option" where
  "freshHeadersNow now s = (if tokenLivesPast (seconds now + 60) s then Some (getCommonHeaders s) else None)"

definition freshHeadersAfter ::
  "int \<Rightarrow> refresh_outcome \<Rightarrow> auth_state \<Rightarrow> headers_error + (jstring \<times> jstring) list" where
  "freshHeadersAfter now out s =
     (case out of
        Authenticated b \<Rightarrow> Inr (getCommonHeaders s)
      | _ \<Rightarrow>
        if tokenLivesPast (seconds now) s then Inr (getCommonHeaders s)
        else (case out of TransientError err \<Rightarrow> Inl (RequestFailed err) | _ \<Rightarrow> Inl SessionExpired))"

section \<open>Reactions of the page\<close>

datatype page_effect = Reload | NavigateSignIn | ClearQueryCache

text \<open>The store listener of \<open>RootComponent\<close>: the query cache is dropped when the session changes.\<close>

definition onStoreChange :: "auth_state \<Rightarrow> auth_state \<Rightarrow> page_effect list" where
  "onStoreChange state previousState =
     (if currentSID state \<noteq> currentSID previousState then [ClearQueryCache] else [])"

text \<open>The listener \<open>RootComponent\<close> subscribes to events of other tabs.\<close>

definition onTabEvent :: "sync_env \<Rightarrow> sync_event \<Rightarrow> auth_module \<Rightarrow> auth_module \<times> page_effect list" where
  "onTabEvent env ev m =
     (case ev_kind ev of
        SyncAuthenticated \<Rightarrow>
          if Some (ev_sid ev) = currentSID (auth m) then (m, [])
          else (case currentSID (auth m) of
                  Some s \<Rightarrow> if s = [] then (m, [Reload])
                            else (clearAuthentication env False Complete m, [Reload])
                | None \<Rightarrow> (m, [Reload]))
      | SyncSignedOut \<Rightarrow>
          (case currentSID (auth m) of
             Some s \<Rightarrow>
               if s \<noteq> [] \<and> ev_sid ev = s
               then (clearAuthentication env False Complete m, [ClearQueryCache, NavigateSignIn])
               else (m, [])
           | None \<Rightarrow> (m, [])))"

text \<open>The guard of the authenticated routes: \<open>True\<close> lets the page load.\<close>

definition authenticatedRoute :: "auth_state \<Rightarrow> bool" where
  "authenticatedRoute s \<longleftrightarrow>
     user s \<noteq> None \<and> (case accessToken s of None \<Rightarrow> False | Some t \<Rightarrow> t \<noteq> [])"

end
