(* ===== verification/RefreshProtocol.thy ===== *)
theory RefreshProtocol
  imports AuthSession
begin

text \<open>
  What the refresh protocol of \<^verbatim>\<open>web/src/lib/auth-session.ts\<close> guarantees: a superseded refresh is
  inert, the runner stops after a bounded number of requests, one refresh is in flight at a time, each
  outcome leaves the store in the state it announces, the stored login stays well formed, and logouts
  reach the other tabs.
\<close>

section \<open>Operations and the epoch\<close>

lemma epoch_applyAuthBundle [simp]: "authEpoch (applyAuthBundle env b t m) = authEpoch m + 1"
  by (simp add: applyAuthBundle_def Let_def)

lemma epoch_clearAuthentication [simp]: "authEpoch (clearAuthentication env t b m) = authEpoch m + 1"
  by (simp add: clearAuthentication_def)

lemma auth_applyAuthBundle [simp]: "auth (applyAuthBundle env b t m) = setBundle b (auth m)"
  by (simp add: applyAuthBundle_def Let_def)

lemma auth_clearAuthentication [simp]: "auth (clearAuthentication env t b m) = reset b (auth m)"
  by (simp add: clearAuthentication_def)

lemma promise_applyAuthBundle [simp]: "refreshPromise (applyAuthBundle env b t m) = refreshPromise m"
  by (simp add: applyAuthBundle_def Let_def)

lemma promise_clearAuthentication [simp]: "refreshPromise (clearAuthentication env t b m) = refreshPromise m"
  by (simp add: clearAuthentication_def)

lemma posted_applyAuthBundle_False [simp]: "posted (applyAuthBundle env b False m) = posted m"
  by (simp add: applyAuthBundle_def Let_def)

lemma posted_clearAuthentication_False [simp]: "posted (clearAuthentication env False b m) = posted m"
  by (simp add: clearAuthentication_def split: option.splits)

lemma applyAuthRotation_Inr:
  "applyAuthRotation env v m = Inr m' \<Longrightarrow>
     \<exists>r u s. asAuthTokenRotation v = Some r \<and> user (auth m) = Some u \<and> session (auth m) = Some s \<and>
       sid (rot_session r) = sid s \<and>
       m' = applyAuthBundle env \<lparr>access_token = rot_access_token r, token_type = rot_token_type r,
         access_expires_at = rot_access_expires_at r, bundle_user = u,
         bundle_session = rot_session r\<rparr> False m"
  by (auto simp: applyAuthRotation_def split: option.splits if_splits)

lemma promise_moduleOp [simp]: "refreshPromise (moduleOp env x m) = refreshPromise m"
  by (cases x) (auto split: sum.splits dest!: applyAuthRotation_Inr)

lemma epoch_moduleOp: "authEpoch m \<le> authEpoch (moduleOp env x m)"
  by (cases x) (auto split: sum.splits dest!: applyAuthRotation_Inr)

lemma promise_runAction [simp]: "refreshPromise (runAction env x m) = refreshPromise m"
  by (cases x) auto

lemma epoch_runAction: "authEpoch m \<le> authEpoch (runAction env x m)"
  by (cases x) auto

lemma promise_runActions [simp]: "refreshPromise (fold (runAction env) xs m) = refreshPromise m"
  by (induction xs arbitrary: m) auto

lemma epoch_runActions: "authEpoch m \<le> authEpoch (fold (runAction env) xs m)"
  by (induction xs arbitrary: m) (auto intro: order.trans [OF epoch_runAction])

lemma runnerReceive_stale: "authEpoch m \<noteq> e \<Longrightarrow> runnerReceive env e a b r m = (m, superseded)"
  by (simp add: runnerReceive_def)

lemma epoch_runnerReceive: "authEpoch m \<le> authEpoch (fst (runnerReceive env e a b r m))"
  using epoch_runActions by (auto simp: runnerReceive_def split: prod.splits)

lemma promise_runnerReceive: "refreshPromise (fst (runnerReceive env e a b r m)) = refreshPromise m"
  by (simp add: runnerReceive_def split: prod.splits)

text \<open>The epoch is a generation counter: a response received for another epoch changes nothing, and
  a login or a logout starts a new one.\<close>

interpretation epoch: generation_guard authEpoch
  "\<lambda>e (env, a, b, r) m. fst (runnerReceive env e a b r m)"
  "\<lambda>(env, x) m. case x of Inl (b, t) \<Rightarrow> applyAuthBundle env b t m
     | Inr (t, b) \<Rightarrow> clearAuthentication env t b m"
  by unfold_locales
    (auto simp: runnerReceive_stale epoch_runnerReceive split: sum.splits prod.splits)

section \<open>The runner terminates\<close>

text \<open>Attempts left: four per session expectation, and one change of expectation.\<close>

fun attempts :: "nat \<Rightarrow> bool \<Rightarrow> nat" where
  "attempts a b = (4 - a) + (if b then 4 else 0)"

fun sendsLeft :: "runner \<Rightarrow> nat" where
  "sendsLeft (Ready a b) = attempts a b"
| "sendsLeft (Requesting a b s) = attempts a b - 1"
| "sendsLeft (Sleeping d a b) = attempts a b"
| "sendsLeft (Finished out) = 0"

fun stepsLeft :: "runner \<Rightarrow> nat" where
  "stepsLeft (Ready a b) = 3 * attempts a b"
| "stepsLeft (Requesting a b s) = 3 * attempts a b - 1"
| "stepsLeft (Sleeping d a b) = 3 * attempts a b + 1"
| "stepsLeft (Finished out) = 0"

fun wf_runner :: "runner \<Rightarrow> bool" where
  "wf_runner (Ready a b) = (a \<le> 3)"
| "wf_runner (Requesting a b s) = (a \<le> 3)"
| "wf_runner (Sleeping d a b) = (a \<le> 3 \<and> d \<in> set refreshRaceDelays)"
| "wf_runner (Finished out) = True"

lemma onResponse_WaitAndRun:
  "onResponse a b r = (acts, WaitAndRun d a' b') \<Longrightarrow>
     acts = [] \<and> a < 3 \<and> a' = a + 1 \<and> b' = b \<and> d \<in> set refreshRaceDelays"
  by (auto simp: onResponse_def refreshRaceDelays_def Let_def nth_Cons'
      split: if_splits option.splits bool.splits)

lemma onResponse_RunAgain:
  "onResponse a b r = (acts, RunAgain a' b') \<Longrightarrow> acts = [Clear False (Some Idle)] \<and> b \<and> a' = 0 \<and> \<not> b'"
  by (auto simp: onResponse_def Let_def split: if_splits option.splits bool.splits)

lemma runnerReceive_progress:
  assumes "a \<le> 3" and "runnerReceive env e a b r m = (m', k')"
  shows "wf_runner k' \<and> sendsLeft k' \<le> sendsLeft (Requesting a b s) \<and>
    stepsLeft k' < stepsLeft (Requesting a b s)"
proof (cases "authEpoch m = e")
  case False
  with assms show ?thesis by (auto simp: runnerReceive_def superseded_def)
next
  case True
  obtain acts k where k: "onResponse a b r = (acts, k)" by fastforce
  with True assms have k': "k' = (case k of Return out \<Rightarrow> Finished out
      | WaitAndRun d a b \<Rightarrow> Sleeping d a b | RunAgain a b \<Rightarrow> Ready a b)"
    by (simp add: runnerReceive_def)
  show ?thesis
  proof (cases k)
    case (Return out)
    with k' assms show ?thesis by auto
  next
    case (WaitAndRun d a' b')
    with k onResponse_WaitAndRun [of a b r acts d a' b'] k' assms show ?thesis by auto
  next
    case (RunAgain a' b')
    with k onResponse_RunAgain [of a b r acts a' b'] k' assms show ?thesis by auto
  qed
qed

fun sends :: "label list \<Rightarrow> nat" where
  "sends [] = 0"
| "sends (Send # ls) = Suc (sends ls)"
| "sends (l # ls) = sends ls"

fun ownSteps :: "label list \<Rightarrow> nat" where
  "ownSteps [] = 0"
| "ownSteps (Other x # ls) = ownSteps ls"
| "ownSteps (l # ls) = Suc (ownSteps ls)"

lemma refresh_step_progress:
  assumes "refresh_step env e (m, k) l (m', k')" and "wf_runner k"
  shows "wf_runner k' \<and> sends [l] + sendsLeft k' \<le> sendsLeft k \<and> ownSteps [l] + stepsLeft k' \<le> stepsLeft k"
  using assms
proof (cases rule: refresh_step.cases)
  case (receive a b s r)
  with assms(2) show ?thesis
    using runnerReceive_progress [of a env e b r m m' k' s] by auto
qed (auto simp: runnerSend_def superseded_def)

lemma refresh_run_progress:
  assumes "refresh_run e c ls c'" and "wf_runner (snd c)"
  shows "wf_runner (snd c') \<and> sends ls + sendsLeft (snd c') \<le> sendsLeft (snd c) \<and>
    ownSteps ls + stepsLeft (snd c') \<le> stepsLeft (snd c)"
  using assms
proof (induction rule: refresh_run.induct)
  case (stop c)
  then show ?case by simp
next
  case (step env c l c' ls c'')
  obtain m k m' k' where c: "c = (m, k)" "c' = (m', k')" by (cases c, cases c')
  have one: "wf_runner k' \<and> sends [l] + sendsLeft k' \<le> sendsLeft k \<and>
      ownSteps [l] + stepsLeft k' \<le> stepsLeft k"
    using step.hyps(1) step.prems c by (intro refresh_step_progress) auto
  then have rest: "wf_runner (snd c'') \<and> sends ls + sendsLeft (snd c'') \<le> sendsLeft k' \<and>
      ownSteps ls + stepsLeft (snd c'') \<le> stepsLeft k'"
    using step.IH c by auto
  show ?case using one rest c by (cases l) auto
qed

lemma refresh_step_enabled:
  "(\<forall>out. k \<noteq> Finished out) \<Longrightarrow> \<exists>l c'. (\<forall>x. l \<noteq> Other x) \<and> refresh_step env e (m, k) l c'"
  by (cases k) (blast intro: refresh_step.intros)+

section \<open>Runs of other code only\<close>

text \<open>What other code alone does to the module, and the operations of other code in a run.\<close>

inductive module_run :: "auth_module \<Rightarrow> module_op list \<Rightarrow> auth_module \<Rightarrow> bool" where
  done_ops: "module_run m [] m"
| one_op: "module_run (moduleOp env x m) xs m' \<Longrightarrow> module_run m (x # xs) m'"

inductive_cases module_run_NilE: "module_run m [] m'"
inductive_cases module_run_ConsE: "module_run m (x # xs) m'"

fun others :: "label list \<Rightarrow> module_op list" where
  "others [] = []"
| "others (Other x # ls) = x # others ls"
| "others (l # ls) = others ls"

fun newEpoch :: "module_op \<Rightarrow> bool" where
  "newEpoch (OpApplyBundle b t) = True"
| "newEpoch (OpClear t b) = True"
| "newEpoch _ = False"

fun unfinished :: "runner \<Rightarrow> bool" where
  "unfinished (Finished out) = False"
| "unfinished _ = True"

lemma epoch_newEpoch: "newEpoch x \<Longrightarrow> authEpoch m < authEpoch (moduleOp env x m)"
  by (cases x) auto

lemma epoch_refresh_step:
  "refresh_step env e (m, k) l (m', k') \<Longrightarrow> authEpoch m \<le> authEpoch m'"
proof (erule refresh_step.cases)
  fix m1 a b s r
  assume "(m, k) = (m1, Requesting a b s)" "(m', k') = runnerReceive env e a b r m1"
  then show "authEpoch m \<le> authEpoch m'"
    using epoch_runnerReceive [of m1 env e a b r] by (metis fst_conv)
qed (auto simp: epoch_moduleOp)

lemma epoch_refresh_run: "refresh_run e c ls c' \<Longrightarrow> authEpoch (fst c) \<le> authEpoch (fst c')"
proof (induction rule: refresh_run.induct)
  case (step env c l c' ls c'')
  then show ?case
    using epoch_refresh_step [of env e "fst c" "snd c" l "fst c'" "snd c'"] by simp
qed simp

lemma refresh_run_append:
  "refresh_run e c (ls @ ls') c'' \<Longrightarrow> \<exists>c'. refresh_run e c ls c' \<and> refresh_run e c' ls' c''"
proof (induction ls arbitrary: c)
  case Nil
  then have "refresh_run e c ls' c''" by simp
  then show ?case by (blast intro: refresh_run.stop)
next
  case (Cons l ls)
  then obtain env c1 where "refresh_step env e c l c1" "refresh_run e c1 (ls @ ls') c''"
    by (auto elim: refresh_run_ConsE)
  with Cons.IH [of c1] show ?case by (blast intro: refresh_run.step)
qed

lemma stale_step:
  assumes "refresh_step env e (m, k) l (m', k')" and "authEpoch m \<noteq> e"
  shows "(m' = m \<and> (\<forall>x. l \<noteq> Other x) \<or> (\<exists>x. l = Other x \<and> m' = moduleOp env x m)) \<and>
    (k' = k \<or> unfinished k \<and> (unfinished k' \<or> k' = superseded))"
  using assms by (cases rule: refresh_step.cases)
    (auto simp: runnerSend_def superseded_def runnerReceive_stale)

lemma finished_run:
  "refresh_run e c ls c' \<Longrightarrow> snd c = Finished out \<Longrightarrow> snd c' = Finished out"
proof (induction rule: refresh_run.induct)
  case (step env c l c' ls c'')
  then show ?case by (cases c) (auto simp: refresh_step_Finished)
qed simp

lemma stale_run:
  assumes "refresh_run e c ls c'" and "e < authEpoch (fst c)"
  shows "module_run (fst c) (others ls) (fst c') \<and>
    (unfinished (snd c) \<longrightarrow> unfinished (snd c') \<or> snd c' = superseded)"
  using assms
proof (induction rule: refresh_run.induct)
  case (stop c)
  then show ?case by (auto intro: module_run.intros)
next
  case (step env c l c' ls c'')
  obtain m k m' k' where c: "c = (m, k)" "c' = (m', k')" by (cases c, cases c')
  have later: "e < authEpoch m'"
    using epoch_refresh_step [of env e m k l m' k'] step.hyps(1) step.prems c by simp
  have one: "(m' = m \<and> (\<forall>x. l \<noteq> Other x) \<or> (\<exists>x. l = Other x \<and> m' = moduleOp env x m)) \<and>
      (k' = k \<or> unfinished k \<and> (unfinished k' \<or> k' = superseded))"
    using step.hyps(1) step.prems c by (intro stale_step) auto
  have finished: "k' = superseded \<Longrightarrow> snd c'' = superseded"
    using finished_run [OF step.hyps(2)] c by (auto simp: superseded_def)
  have rest: "module_run m' (others ls) (fst c'')"
    "unfinished k' \<Longrightarrow> unfinished (snd c'') \<or> snd c'' = superseded"
    using step.IH later c by auto
  have "module_run m (others (l # ls)) (fst c'')"
    using one rest(1) by (cases l) (auto intro: module_run.intros)
  with one rest(2) finished c show ?case by auto
qed

section \<open>Properties of the refresh protocol\<close>

text \<open>C1. A refresh that a login or logout overtakes changes nothing: once another operation of the
  module has started a new epoch while the refresh was under way, everything the module goes through
  afterwards is the work of other code alone, and the refresh, if it ends, reports that it was
  superseded. In particular a response that arrives after a logout cannot log the user in again.\<close>

theorem superseded_refresh_is_inert:
  assumes "refresh_run (authEpoch m) (m, Ready 0 True) (ls @ Other x # ls') (m', k')"
    and "newEpoch x"
  shows "\<exists>m1 k1. refresh_run (authEpoch m) (m, Ready 0 True) ls (m1, k1) \<and>
    module_run m1 (x # others ls') m' \<and> (unfinished k1 \<longrightarrow> unfinished k' \<or> k' = superseded)"
proof -
  from assms(1) obtain m1 k1 where before: "refresh_run (authEpoch m) (m, Ready 0 True) ls (m1, k1)"
    and "refresh_run (authEpoch m) (m1, k1) (Other x # ls') (m', k')"
    using refresh_run_append by (metis surj_pair)
  then obtain env where after: "refresh_run (authEpoch m) (moduleOp env x m1, k1) ls' (m', k')"
    by (auto elim!: refresh_run_ConsE elim: refresh_step.cases)
  have "authEpoch m < authEpoch (moduleOp env x m1)"
    using epoch_refresh_run [OF before] epoch_newEpoch [OF assms(2), of m1 env] by simp
  with stale_run [OF after] before show ?thesis by (auto intro: module_run.intros)
qed

definition tabEnv :: "jstring \<Rightarrow> sync_env" where
  "tabEnv src = \<lparr>has_window = True, has_broadcast = True, storage_ok = True, authSyncSource = src,
     fresh_nonce = lit ''n'', now_ms = 1700000000000\<rparr>"

definition sampleSession :: login_session where
  "sampleSession = \<lparr>sid = lit ''s1'', current = True, login_method = lit ''password'', ip = lit ''::1'',
     user_agent = lit ''ua'', created_at = Fin 1, last_active_at = Fin 2, expires_at = Fin 3\<rparr>"

definition sampleBundle :: auth_bundle where
  "sampleBundle = \<lparr>access_token = lit ''t'', token_type = lit ''Bearer'',
     access_expires_at = Fin 1700000900,
     bundle_user = \<lparr>u_id = Fin 7, u_username = lit ''ann'', u_role = Fin 1, u_extra = []\<rparr>,
     bundle_session = sampleSession\<rparr>"

definition sampleModule :: auth_module where
  "sampleModule = applyAuthBundle (tabEnv (lit ''a'')) sampleBundle False initialModule"

lemma sampleModule_sid: "currentSID (auth sampleModule) = Some (lit ''s1'')"
  by (simp add: sampleModule_def sampleBundle_def sampleSession_def store_defs)

theorem superseded_refresh_is_inert_witness:
  "\<exists>m1 k1. refresh_run 1 (sampleModule, Ready 0 True) [Send] (m1, k1) \<and>
    module_run m1 [OpClear True Complete]
      (clearAuthentication (tabEnv (lit ''a'')) True Complete sampleModule)"
proof -
  let ?env = "tabEnv (lit ''a'')"
  let ?m = "clearAuthentication ?env True Complete sampleModule"
  have e: "authEpoch sampleModule = 1" "authEpoch ?m = 2"
    by (simp_all add: sampleModule_def initialModule_def)
  have "refresh_step ?env 1 (sampleModule, Ready 0 True) Send (sampleModule, runnerSend 1 0 True sampleModule)"
    by (rule refresh_step.send)
  then have s1: "refresh_step ?env 1 (sampleModule, Ready 0 True) Send
      (sampleModule, Requesting 0 True (Some (lit ''s1'')))"
    by (simp add: runnerSend_def e sampleModule_sid)
  have s2: "refresh_step ?env 1 (sampleModule, Requesting 0 True (Some (lit ''s1'')))
      (Other (OpClear True Complete)) (?m, Requesting 0 True (Some (lit ''s1'')))"
    using refresh_step.other [of ?env 1 sampleModule _ "OpClear True Complete"] by simp
  have s3: "refresh_step ?env 1 (?m, Requesting 0 True (Some (lit ''s1'')))
      (Receive \<lparr>status = 200, resp_data = None, resp_error = None\<rparr>) (?m, superseded)"
    using refresh_step.receive [of ?env 1 ?m 0 True "Some (lit ''s1'')"
      "\<lparr>status = 200, resp_data = None, resp_error = None\<rparr>"] by (simp add: runnerReceive_def e)
  have "refresh_run (authEpoch sampleModule) (sampleModule, Ready 0 True)
      ([Send] @ Other (OpClear True Complete) #
        [Receive \<lparr>status = 200, resp_data = None, resp_error = None\<rparr>]) (?m, superseded)"
    using s1 s2 s3 by (auto simp: e intro!: refresh_run.intros)
  from superseded_refresh_is_inert [OF this] show ?thesis by (auto simp: e)
qed

text \<open>A refresh asks the server at most eight times and takes at most twenty-four steps of its own,
  whatever the server answers and whatever other code does meanwhile: three delayed retries per
  expected session and one change of that session. A refresh that has not ended can always take its
  next step.\<close>

theorem refresh_bounded:
  assumes "refresh_run e (m, Ready 0 True) ls (m', k')"
  shows "sends ls \<le> 8 \<and> ownSteps ls \<le> 24 \<and>
    (unfinished k' \<longrightarrow> (\<exists>l c. (\<forall>x. l \<noteq> Other x) \<and> refresh_step env e (m', k') l c))"
proof -
  have "sends ls \<le> 8 \<and> ownSteps ls \<le> 24"
    using refresh_run_progress [OF assms] by simp
  moreover have "unfinished k' \<Longrightarrow> \<exists>l c. (\<forall>x. l \<noteq> Other x) \<and> refresh_step env e (m', k') l c"
    by (intro refresh_step_enabled) auto
  ultimately show ?thesis by blast
qed

theorem refresh_bounded_witness:
  "sends [Send] \<le> 8 \<and> ownSteps [Send] \<le> 24 \<and>
    (\<exists>l c. refresh_step (tabEnv []) 0 (initialModule, Requesting 0 True None) l c)"
proof -
  have "runnerSend 0 0 True initialModule = Requesting 0 True None"
    by (simp add: runnerSend_def initialModule_def initialAuth_def currentSID_def)
  then have "refresh_run 0 (initialModule, Ready 0 True) [Send] (initialModule, Requesting 0 True None)"
    using refresh_run.step [OF refresh_step.send [of "tabEnv []"] refresh_run.stop] by metis
  from refresh_bounded [OF this, of "tabEnv []"] show ?thesis by auto
qed

text \<open>Left alone with a server that answers, the runner returns.\<close>

lemma runScript_returns:
  assumes "wf_runner k" and "stepsLeft k \<le> fuel" and "sendsLeft k \<le> length rs"
    and "\<And>a b s. k = Requesting a b s \<Longrightarrow> sendsLeft k < length rs"
  shows "\<exists>r. runScript env e fuel rs (m, k) = Some r"
  using assms
proof (induction env e fuel rs "(m, k)" arbitrary: m k rule: runScript.induct)
  case (1 env e fuel rs m out)
  then show ?case by simp
next
  case (3 env e fuel rs m a b)
  then show ?case by (auto simp: runnerSend_def superseded_def split: if_splits)
next
  case (6 env e fuel r rs m a b s)
  obtain m' k' where k': "runnerReceive env e a b r m = (m', k')" by fastforce
  have "wf_runner k' \<and> sendsLeft k' \<le> sendsLeft (Requesting a b s) \<and>
      stepsLeft k' < stepsLeft (Requesting a b s)"
    using 6 k' by (intro runnerReceive_progress) auto
  moreover have "\<And>a b s. k' \<noteq> Requesting a b s"
    using k' by (auto simp: runnerReceive_def superseded_def Let_def split: if_splits prod.splits runner_next.splits)
  ultimately show ?case using 6 k' by (auto simp del: stepsLeft.simps sendsLeft.simps)
qed auto

text \<open>C2. Against a server that answers every request, the refresh returns: eight responses and
  twenty-four steps always suffice, from every module state and for every epoch.\<close>

theorem refresh_returns:
  assumes "8 \<le> length rs"
  shows "\<exists>m' out. runScript env e 24 rs (m, Ready 0 True) = Some (m', out)"
  using runScript_returns [of "Ready 0 True" 24 rs env e m] assms by auto

theorem refresh_returns_witness:
  "\<exists>m' out. runScript (tabEnv []) 0 24
     (replicate 8 \<lparr>status = 409, resp_data = Some (JObj [(lit ''code'', JStr (lit ''AUTH_REFRESH_RACE''))]),
        resp_error = None\<rparr>) (initialModule, Ready 0 True) = Some (m', out)"
  by (rule refresh_returns) simp

section \<open>What each outcome means\<close>

lemma onResponse_Return:
  assumes "onResponse a b r = (acts, Return out)"
  shows "case out of
      Authenticated bnd \<Rightarrow> acts = [AcceptBundle bnd] \<and> wf_bundle bnd
    | Anonymous \<Rightarrow> acts = [Clear True None] \<and> status r = 401
    | TransientError err \<Rightarrow> acts = [MarkTransient] \<and> err \<noteq> Superseded \<and>
        (status r = 0 \<or> status r \<ge> 500 \<or> status r = 429)
    | OutOfSync c \<Rightarrow> acts = [Clear False None]"
  using assms
  by (auto simp: onResponse_def Let_def dest: asAuthBundle_wf split: if_splits option.splits bool.splits)

text \<open>C3. The outcome a refresh reports is the state it leaves. \<open>authenticated\<close> means that the returned
  bundle passed the validator and is the stored login; \<open>anonymous\<close> that the server said 401, the store
  is empty and the logout was announced to the other tabs; \<open>out_of_sync\<close> that the store is empty
  without an announcement; \<open>transient_error\<close> that the login was kept and only the bootstrap state went
  back to idle.\<close>

theorem refresh_outcome_state:
  assumes "authEpoch m = e" and "runnerReceive env e a b r m = (m', Finished out)"
  shows "case out of
      Authenticated bnd \<Rightarrow> wf_bundle bnd \<and> auth m' = setBundle bnd (auth m) \<and> posted m' = posted m \<and>
        authEpoch m' = e + 1
    | Anonymous \<Rightarrow> status r = 401 \<and> auth m' = reset Complete (auth m) \<and> authEpoch m' = e + 1 \<and>
        posted m' = posted m @ (case currentSID (auth m) of None \<Rightarrow> []
          | Some s \<Rightarrow> publishAuthSessionEvent env SyncSignedOut s)
    | OutOfSync c \<Rightarrow> auth m' = reset Complete (auth m) \<and> authEpoch m' = e + 1 \<and> posted m' = posted m
    | TransientError err \<Rightarrow> m' = m\<lparr>auth := setBootstrapState Idle (auth m)\<rparr> \<and>
        (status r = 0 \<or> status r \<ge> 500 \<or> status r = 429)"
proof -
  obtain acts where acts: "onResponse a b r = (acts, Return out)" "m' = fold (runAction env) acts m"
    using assms by (auto simp: runnerReceive_def split: prod.splits runner_next.splits)
  show ?thesis
    using onResponse_Return [OF acts(1)] acts(2) assms(1)
    by (cases out) (auto simp: clearAuthentication_def split: option.splits)
qed

definition unauthorized :: http_response where
  "unauthorized = \<lparr>status = 401, resp_data = None, resp_error = None\<rparr>"

lemma receive_unauthorized:
  "authEpoch m = e \<Longrightarrow>
     runnerReceive env e a b unauthorized m = (clearAuthentication env True Complete m, Finished Anonymous)"
  by (simp add: runnerReceive_def onResponse_def unauthorized_def js_opt_get_def Let_def)

theorem refresh_outcome_state_witness:
  "posted (clearAuthentication (tabEnv []) True Complete sampleModule) =
     posted sampleModule @ publishAuthSessionEvent (tabEnv []) SyncSignedOut (lit ''s1'')"
  using refresh_outcome_state [of sampleModule 1 "tabEnv []" 0 True unauthorized _ Anonymous]
    receive_unauthorized [of sampleModule 1 "tabEnv []" 0 True]
  by (simp add: sampleModule_sid) (simp add: sampleModule_def initialModule_def)

section \<open>The stored login stays well formed\<close>

text \<open>Token, expiry and session are present together; the token and the session identifier are not
  empty and the expiry is a positive finite number. The user may be replaced on its own.\<close>

definition store_inv :: "auth_state \<Rightarrow> bool" where
  "store_inv s = (case (accessToken s, accessExpiresAt s, session s) of
      (None, None, None) \<Rightarrow> True
    | (Some t, Some x, Some ses) \<Rightarrow> t \<noteq> [] \<and> num_isFinite x \<and> num_gt0 x \<and> sid ses \<noteq> []
    | _ \<Rightarrow> False)"

fun wf_op :: "module_op \<Rightarrow> bool" where
  "wf_op (OpApplyBundle b t) = wf_bundle b"
| "wf_op _ = True"

lemma store_inv_setBundle: "wf_bundle b \<Longrightarrow> store_inv (setBundle b s)"
  by (simp add: store_inv_def wf_bundle_def store_defs)

lemma store_inv_reset [simp]: "store_inv (reset b s)"
  by (simp add: store_inv_def store_defs)

lemma store_inv_irrelevant [simp]:
  "store_inv (setUser u s) = store_inv s"
  "store_inv (setPending2FAFlowToken t s) = store_inv s"
  "store_inv (setBootstrapState b s) = store_inv s"
  by (simp_all add: store_inv_def store_defs)

lemma store_inv_rotation:
  "applyAuthRotation env v m = Inr m' \<Longrightarrow> store_inv (auth m')"
  by (auto dest!: applyAuthRotation_Inr dest: asAuthTokenRotation_Some simp: store_inv_def store_defs)

lemma store_inv_moduleOp: "wf_op x \<Longrightarrow> store_inv (auth m) \<Longrightarrow> store_inv (auth (moduleOp env x m))"
  by (cases x) (auto simp: store_inv_setBundle dest: store_inv_rotation split: sum.splits)

lemma onResponse_wf: "AcceptBundle bnd \<in> set (fst (onResponse a b r)) \<Longrightarrow> wf_bundle bnd"
  by (auto simp: onResponse_def Let_def dest: asAuthBundle_wf split: if_splits option.splits bool.splits)

lemma store_inv_runActions:
  "\<forall>bnd. AcceptBundle bnd \<in> set acts \<longrightarrow> wf_bundle bnd \<Longrightarrow> store_inv (auth m) \<Longrightarrow>
     store_inv (auth (fold (runAction env) acts m))"
proof (induction acts arbitrary: m)
  case (Cons x acts)
  then have "store_inv (auth (runAction env x m))"
    by (cases x) (auto simp: store_inv_setBundle)
  with Cons show ?case by auto
qed simp

lemma store_inv_runnerReceive:
  assumes "store_inv (auth m)"
  shows "store_inv (auth (fst (runnerReceive env e a b r m)))"
  using assms store_inv_runActions [of "fst (onResponse a b r)" m env] onResponse_wf
  by (auto simp: runnerReceive_def split: prod.splits)

lemma store_inv_step:
  assumes "refresh_step env e c l c'" and "\<forall>x. l = Other x \<longrightarrow> wf_op x" and "store_inv (auth (fst c))"
  shows "store_inv (auth (fst c'))"
  using assms by (cases rule: refresh_step.cases) (auto simp: store_inv_runnerReceive store_inv_moduleOp)

text \<open>C4. The stored login is never partial: through every interleaving of a refresh with logins,
  rotations, logouts and store updates, whatever the server sends, the store holds either no
  credentials at all or a non-empty token with a positive finite expiry and a named session. Hence
  requests carry an \<open>Authorization\<close> header exactly when a session is stored.\<close>

theorem login_never_partial:
  assumes "refresh_run e c ls c'" and "\<forall>x. Other x \<in> set ls \<longrightarrow> wf_op x" and "store_inv (auth (fst c))"
  shows "store_inv (auth (fst c')) \<and>
    (map_of (getCommonHeaders (auth (fst c'))) (lit ''Authorization'') \<noteq> None \<longleftrightarrow> session (auth (fst c')) \<noteq> None)"
proof -
  have inv: "store_inv (auth (fst c'))"
    using assms by (induction rule: refresh_run.induct) (auto intro: store_inv_step)
  moreover have "lit ''Authorization'' \<noteq> lit ''Content-Type''" by (simp add: js_eval)
  ultimately show ?thesis
    by (auto simp: store_inv_def getCommonHeaders_def split: option.splits)
qed

theorem login_never_partial_witness:
  "store_inv (auth sampleModule) \<and>
    (map_of (getCommonHeaders (auth sampleModule)) (lit ''Authorization'') \<noteq> None \<longleftrightarrow>
      session (auth sampleModule) \<noteq> None)"
proof -
  have "refresh_run 0 (initialModule, Ready 0 True) [Other (OpApplyBundle sampleBundle False)]
      (sampleModule, Ready 0 True)"
    using refresh_step.other [of "tabEnv (lit ''a'')" 0 initialModule "Ready 0 True"
      "OpApplyBundle sampleBundle False"]
    by (auto simp: sampleModule_def intro: refresh_run.intros)
  moreover have "wf_bundle sampleBundle"
    by (simp add: wf_bundle_def sampleBundle_def sampleSession_def js_eval)
  moreover have "store_inv (auth initialModule)"
    by (simp add: initialModule_def initialAuth_def store_inv_def)
  ultimately show ?thesis using login_never_partial [of 0 "(initialModule, Ready 0 True)"] by fastforce
qed

section \<open>One refresh at a time\<close>

definition single_flight :: "refresh_system \<Rightarrow> bool" where
  "single_flight s \<longleftrightarrow> length (active s) \<le> 1 \<and>
     (refreshPromise (sys_module s) = None \<longleftrightarrow> active s = []) \<and> (\<forall>r \<in> set (active s). wf_runner (snd r))"

lemma promise_refresh_step:
  "refresh_step env e (m, k) l (m', k') \<Longrightarrow> refreshPromise m' = refreshPromise m"
proof (erule refresh_step.cases)
  fix m1 a b s r
  assume "(m, k) = (m1, Requesting a b s)" "(m', k') = runnerReceive env e a b r m1"
  then show "refreshPromise m' = refreshPromise m"
    using promise_runnerReceive [of env e a b r m1] by (metis fst_conv)
qed auto

lemma single_flight_step:
  assumes "system_step s t" and "single_flight s"
  shows "single_flight t"
  using assms
proof (cases rule: system_step.cases)
  case (call m started)
  with assms(2) show ?thesis
    by (auto simp: single_flight_def refreshAuthentication_def split: option.splits)
next
  case (advance i e k env l m k')
  have "wf_runner k"
    using advance assms(2) nth_mem [of i "active s"] by (auto simp: single_flight_def)
  then have "wf_runner k'" using refresh_step_progress advance by blast
  moreover have "refreshPromise m = refreshPromise (sys_module s)"
    using advance promise_refresh_step by blast
  ultimately show ?thesis
    using advance assms(2) set_update_subset_insert [of "active s" i "(e, k')"]
    by (auto simp: single_flight_def)
next
  case (settle i e out)
  then have "active s = [(e, Finished out)]"
    using assms(2) by (cases "active s") (auto simp: single_flight_def)
  with settle show ?thesis by (simp add: single_flight_def settleRefresh_def)
next
  case (outside env x)
  with assms(2) show ?thesis by (simp add: single_flight_def)
qed

text \<open>C5. At most one refresh is in flight in a tab, however often \<open>refreshAuthentication\<close> is called and
  however its callers, the runner and other code interleave; the shared promise is set exactly while
  one is in flight, so every caller in between waits for the same result.\<close>

theorem refresh_single_flight:
  assumes "system_reachable s"
  shows "length (active s) \<le> 1 \<and> (refreshPromise (sys_module s) = None \<longleftrightarrow> active s = [])"
proof -
  have "single_flight s" using assms
  proof (induction rule: system_reachable.induct)
    case init
    show ?case by (simp add: single_flight_def initialModule_def)
  next
    case (move s t)
    then show ?case by (blast intro: single_flight_step)
  qed
  then show ?thesis by (simp add: single_flight_def)
qed

theorem refresh_single_flight_witness:
  "length [(0 :: nat, Ready 0 True)] \<le> 1 \<and>
    (refreshPromise (initialModule\<lparr>refreshPromise := Some 0\<rparr>) = None \<longleftrightarrow> [(0 :: nat, Ready 0 True)] = [])"
proof -
  let ?s = "\<lparr>sys_module = initialModule, active = []\<rparr>"
  have "refreshAuthentication (sys_module ?s) =
      (initialModule\<lparr>refreshPromise := Some 0\<rparr>, Some (0, Ready 0 True))"
    by (simp add: refreshAuthentication_def initialModule_def)
  from system_reachable.move [OF system_reachable.init system_step.call [OF this]]
  show ?thesis using refresh_single_flight by fastforce
qed

section \<open>Logouts reach the other tabs\<close>

text \<open>C6. Signing out in one tab signs out every other tab on the same session: when a tab clears its
  login, exactly one message goes out; a tab with another source identifier and a clock within a
  minute is handed the event, ends with an empty store, drops its query cache, leaves for the sign-in
  page, and posts nothing itself.\<close>

theorem sign_out_propagates:
  assumes "currentSID (auth mA) = Some s" and "s \<noteq> []" and "has_window envA"
    and "has_broadcast envA \<or> storage_ok envA"
    and "authSyncSource envA \<noteq> authSyncSource envB" and "\<bar>now_ms envB - now_ms envA\<bar> < 60000"
    and "currentSID (auth mB) = Some s"
  shows "\<exists>msg ev. posted (clearAuthentication envA True b mA) = posted mA @ [msg] \<and>
    deliver envB msg = Some ev \<and>
    auth (fst (onTabEvent envB ev mB)) = reset Complete (auth mB) \<and>
    posted (fst (onTabEvent envB ev mB)) = posted mB \<and>
    snd (onTabEvent envB ev mB) = [ClearQueryCache, NavigateSignIn]"
proof (intro exI conjI)
  let ?ev = "\<lparr>ev_kind = SyncSignedOut, ev_sid = s, ev_source = authSyncSource envA,
      ev_nonce = fresh_nonce envA, ev_timestamp = Fin (of_int (now_ms envA))\<rparr>"
  show "posted (clearAuthentication envA True b mA) = posted mA @ [eventMessage envA SyncSignedOut s]"
    using assms by (auto simp: clearAuthentication_def publishAuthSessionEvent_def)
  have "withinMinute (now_ms envB) (Fin (of_int (now_ms envA)))"
    using assms(6) by (simp only: withinMinute_of_int)
  then show "deliver envB (eventMessage envA SyncSignedOut s) = Some ?ev"
    using assms by (simp add: deliver_def asAuthSessionSyncEvent_message)
  show "auth (fst (onTabEvent envB ?ev mB)) = reset Complete (auth mB)"
    and "posted (fst (onTabEvent envB ?ev mB)) = posted mB"
    and "snd (onTabEvent envB ?ev mB) = [ClearQueryCache, NavigateSignIn]"
    using assms by (simp_all add: onTabEvent_def)
qed

theorem sign_out_propagates_witness:
  "\<exists>msg ev. posted (clearAuthentication (tabEnv (lit ''a'')) True Complete sampleModule) =
      posted sampleModule @ [msg] \<and>
    deliver (tabEnv (lit ''b'')) msg = Some ev \<and>
    auth (fst (onTabEvent (tabEnv (lit ''b'')) ev sampleModule)) = reset Complete (auth sampleModule) \<and>
    posted (fst (onTabEvent (tabEnv (lit ''b'')) ev sampleModule)) = posted sampleModule \<and>
    snd (onTabEvent (tabEnv (lit ''b'')) ev sampleModule) = [ClearQueryCache, NavigateSignIn]"
  by (rule sign_out_propagates [where s = "lit ''s1''"])
    (simp_all add: sampleModule_sid tabEnv_def js_eval)

section \<open>Starting up\<close>

text \<open>Skipping the refresh on the public boot path is not a verdict: without a session hint and
  without a stored login the boot answers anonymous and leaves the module as it was, so the next
  \<open>resolveAuthentication\<close>, at any later time, still asks the server.\<close>

theorem bootstrap_skip_is_no_verdict:
  assumes "bootstrapState (auth m) = Idle" and "bootstrapAuthentication now cookies m = (m', Resolved Anonymous)"
  shows "m' = m \<and> \<not> hasSessionHint cookies \<and> snd (resolveAuthentication later m') = AwaitRefresh"
  using assms
  by (auto simp: bootstrapAuthentication_def resolveAuthentication_def currentValidAuthBundle_def Let_def
      split: option.splits if_splits)

theorem bootstrap_skip_is_no_verdict_witness:
  "\<not> hasSessionHint (Some (lit ''theme=dark; lang=en'')) \<and>
    snd (resolveAuthentication 5 initialModule) = AwaitRefresh"
proof -
  have "bootstrapState (auth initialModule) = Idle"
    by (simp add: initialModule_def initialAuth_def)
  moreover have "bootstrapAuthentication 0 (Some (lit ''theme=dark; lang=en'')) initialModule =
      (initialModule, Resolved Anonymous)"
    by code_simp
  ultimately show ?thesis using bootstrap_skip_is_no_verdict by blast
qed



section \<open>Rotation and request headers\<close>

text \<open>Rotating the token never changes who is logged in: a rotation is applied only when it passes
  the validator, a login is stored and the session identifiers agree; then user and session identifier
  stay, token and expiry become the new ones, nothing is announced to other tabs and running refreshes
  are superseded. Each refused rotation has its own error, in this order.\<close>

theorem rotation_keeps_identity:
  "case applyAuthRotation env v m of
     Inr m' \<Rightarrow> (\<exists>r. asAuthTokenRotation v = Some r \<and> user (auth m') = user (auth m) \<and> user (auth m) \<noteq> None \<and>
       currentSID (auth m') = currentSID (auth m) \<and> accessToken (auth m') = Some (rot_access_token r) \<and>
       rot_access_token r \<noteq> [] \<and> accessExpiresAt (auth m') = Some (rot_access_expires_at r)) \<and>
       posted m' = posted m \<and> authEpoch m' = authEpoch m + 1
   | Inl InvalidRotation \<Rightarrow> asAuthTokenRotation v = None
   | Inl NoActiveSession \<Rightarrow> asAuthTokenRotation v \<noteq> None \<and> (user (auth m) = None \<or> session (auth m) = None)
   | Inl SessionMismatch \<Rightarrow> (\<exists>r. asAuthTokenRotation v = Some r \<and> user (auth m) \<noteq> None \<and>
       currentSID (auth m) \<noteq> Some (sid (rot_session r)))"
proof (cases "applyAuthRotation env v m")
  case (Inl err)
  then show ?thesis
    by (auto simp: applyAuthRotation_def store_defs split: option.splits if_splits rotation_error.splits)
next
  case (Inr m')
  then show ?thesis
    by (auto dest!: applyAuthRotation_Inr dest: asAuthTokenRotation_Some simp: store_defs)
qed

lemma tokenLivesPast_Some:
  "tokenLivesPast limit s \<Longrightarrow> \<exists>t x. accessToken s = Some t \<and> t \<noteq> [] \<and> accessExpiresAt s = Some x \<and> num_gt x limit"
  by (auto simp: tokenLivesPast_def split: option.splits)

text \<open>Requests get fresh headers: \<open>getFreshAuthHeaders\<close> answers without asking the server only with a
  token that lives for more than another minute; after a refresh it answers with an unexpired token or
  with the freshly stored bundle's, and otherwise reports a transient failure as such and everything
  else as an expired session.\<close>

theorem fresh_headers_live:
  "(\<forall>h. freshHeadersNow now s = Some h \<longrightarrow>
      (\<exists>t x. h = [(lit ''Content-Type'', lit ''application/json''), (lit ''Authorization'', lit ''Bearer '' @ t)] \<and>
         accessToken s = Some t \<and> t \<noteq> [] \<and> accessExpiresAt s = Some x \<and> num_gt x (now div 1000 + 60))) \<and>
   (case freshHeadersAfter now out s of
      Inr h \<Rightarrow> h = getCommonHeaders s \<and> ((\<exists>b. out = Authenticated b) \<or> tokenLivesPast (now div 1000) s)
    | Inl (RequestFailed err) \<Rightarrow> out = TransientError err \<and> \<not> tokenLivesPast (now div 1000) s
    | Inl SessionExpired \<Rightarrow> (out = Anonymous \<or> (\<exists>c. out = OutOfSync c)) \<and> \<not> tokenLivesPast (now div 1000) s)"
proof (intro conjI allI impI)
  fix h assume "freshHeadersNow now s = Some h"
  then have "tokenLivesPast (seconds now + 60) s" "h = getCommonHeaders s"
    by (auto simp: freshHeadersNow_def split: if_splits)
  with tokenLivesPast_Some [OF this(1)]
  show "\<exists>t x. h = [(lit ''Content-Type'', lit ''application/json''), (lit ''Authorization'', lit ''Bearer '' @ t)] \<and>
      accessToken s = Some t \<and> t \<noteq> [] \<and> accessExpiresAt s = Some x \<and> num_gt x (now div 1000 + 60)"
    by (auto simp: getCommonHeaders_def seconds_def)
next
  show "case freshHeadersAfter now out s of
      Inr h \<Rightarrow> h = getCommonHeaders s \<and> ((\<exists>b. out = Authenticated b) \<or> tokenLivesPast (now div 1000) s)
    | Inl (RequestFailed err) \<Rightarrow> out = TransientError err \<and> \<not> tokenLivesPast (now div 1000) s
    | Inl SessionExpired \<Rightarrow> (out = Anonymous \<or> (\<exists>c. out = OutOfSync c)) \<and> \<not> tokenLivesPast (now div 1000) s"
    by (cases out) (auto simp: freshHeadersAfter_def seconds_def)
qed

theorem fresh_headers_live_witness:
  "num_gt (Fin 1700000900) (1700000000000 div 1000 + 60) \<and>
   freshHeadersNow 1700000000000 (setBundle sampleBundle initialAuth) =
     Some (getCommonHeaders (setBundle sampleBundle initialAuth))"
proof -
  have now: "freshHeadersNow 1700000000000 (setBundle sampleBundle initialAuth) =
      Some (getCommonHeaders (setBundle sampleBundle initialAuth))"
    by (simp add: freshHeadersNow_def tokenLivesPast_def setBundle_def sampleBundle_def seconds_def js_eval)
  moreover have "accessExpiresAt (setBundle sampleBundle initialAuth) = Some (Fin 1700000900)"
    by (simp add: setBundle_def sampleBundle_def)
  ultimately show ?thesis
    using fresh_headers_live [of 1700000000000 "setBundle sampleBundle initialAuth" Anonymous] by auto
qed

text \<open>The session hint is found exactly when the browser sends it: reading a cookie out of a
  well-formed header of \<open>name=value\<close> pairs gives the trimmed value of the first pair with that name,
  and the hint check answers whether the hint cookie is among them.\<close>

theorem readCookie_roundtrip:
  assumes "\<forall>kv \<in> set kvs. wf_cookie kv"
  shows "readCookie (js_join (lit ''; '') (map cookiePair kvs)) name = map_option js_trim (map_of kvs name) \<and>
    (hasSessionHint (Some (js_join (lit ''; '') (map cookiePair kvs))) \<longleftrightarrow>
       lit ''new_api_has_session'' \<in> fst ` set kvs)"
  using readCookie_header [OF assms] by (simp add: hasSessionHint_def map_of_eq_None_iff)

theorem readCookie_roundtrip_witness:
  "readCookie (js_join (lit ''; '') (map cookiePair
     [(lit ''theme'', lit ''dark''), (lit ''new_api_has_session'', lit ''1'')])) (lit ''theme'') =
     map_option js_trim (map_of [(lit ''theme'', lit ''dark''), (lit ''new_api_has_session'', lit ''1'')] (lit ''theme''))"
proof -
  have "\<forall>kv \<in> set [(lit ''theme'', lit ''dark''), (lit ''new_api_has_session'', lit ''1'')]. wf_cookie kv"
    by code_simp
  from readCookie_roundtrip [OF this] show ?thesis by blast
qed

end
