(* ===== verification/HttpClient.thy ===== *)
theory HttpClient
  imports AuthSession
begin

text \<open>
  \<^verbatim>\<open>web/src/lib/http-client.ts\<close> and \<^verbatim>\<open>server-error-message.ts\<close>: the shared client all features call.
  Identical GET requests in flight share one promise; a response of status 401 triggers one refresh
  and one retry; business errors become toasts. Promises are request numbers here, and the
  serialisation of query parameters (\<open>JSON.stringify\<close>) is an argument.
\<close>

section \<open>Server error messages\<close>

text \<open>The two codes with a message of their own; the message keys are named by their codes.\<close>

definition serverErrorCodes :: "jstring list" where
  "serverErrorCodes = [lit ''AUTH_SESSION_LIMIT'', lit ''AUTH_SESSION_ISSUANCE_LIMIT'']"

definition serverErrorPayload :: "json option \<Rightarrow> json option" where
  "serverErrorPayload v =
     (if \<not> isRecord v then None
      else
        let response = js_opt_get v (lit ''response'')
        in if isRecord response \<and> isRecord (js_opt_get response (lit ''data''))
           then js_opt_get response (lit ''data'') else v)"

text \<open>The table is an object literal, so a code that names a member of \<open>Object.prototype\<close> finds that
  member instead of \<open>undefined\<close>.\<close>

datatype message_key = MessageOf jstring | InheritedMember jstring

definition getServerErrorMessageKey :: "json option \<Rightarrow> message_key option" where
  "getServerErrorMessageKey v =
     (case as_str (js_opt_get (serverErrorPayload v) (lit ''code'')) of
        None \<Rightarrow> None
      | Some c \<Rightarrow>
          if c \<in> set serverErrorCodes then Some (MessageOf c)
          else if c \<in> set objectPrototypeMembers then Some (InheritedMember c)
          else None)"

section \<open>Requests in flight\<close>

record get_request =
  gr_sid :: "jstring option"
  gr_url :: jstring
  gr_params :: "json option"

definition sessionSID :: "get_request \<Rightarrow> jstring" where
  "sessionSID r =
     (case gr_sid r of None \<Rightarrow> lit ''anonymous'' | Some s \<Rightarrow> if s = [] then lit ''anonymous'' else s)"

definition paramsText :: "(json \<Rightarrow> jstring) \<Rightarrow> json option \<Rightarrow> jstring" where
  "paramsText stringify p =
     (case p of None \<Rightarrow> lit ''{}'' | Some j \<Rightarrow> if json_truthy j then stringify j else lit ''{}'')"

definition getKey :: "(json \<Rightarrow> jstring) \<Rightarrow> get_request \<Rightarrow> jstring" where
  "getKey stringify r = sessionSID r @ lit '':'' @ gr_url r @ lit ''?'' @ paramsText stringify (gr_params r)"

record get_state =
  inFlightGet :: "(jstring \<times> nat) list"
  pendingGets :: "(nat \<times> get_request \<times> bool) list" \<comment> \<open>unsettled requests; \<open>True\<close> when shared\<close>
  issuedGets :: nat

definition initialGets :: get_state where
  "initialGets = \<lparr>inFlightGet = [], pendingGets = [], issuedGets = 0\<rparr>"

definition originalGet :: "get_request \<Rightarrow> bool \<Rightarrow> get_state \<Rightarrow> get_state \<times> nat" where
  "originalGet r shared st =
     (st\<lparr>pendingGets := (issuedGets st, r, shared) # pendingGets st, issuedGets := issuedGets st + 1\<rparr>,
      issuedGets st)"

definition apiGet :: "(json \<Rightarrow> jstring) \<Rightarrow> bool \<Rightarrow> get_request \<Rightarrow> get_state \<Rightarrow> get_state \<times> nat" where
  "apiGet stringify disableDuplicate r st =
     (if disableDuplicate then originalGet r False st
      else
        case map_of (inFlightGet st) (getKey stringify r) of
          Some i \<Rightarrow> (st, i)
        | None \<Rightarrow>
            let (st', i) = originalGet r True st
            in (st'\<lparr>inFlightGet := AList.update (getKey stringify r) i (inFlightGet st')\<rparr>, i))"

text \<open>A request settles: its \<open>finally\<close> handler removes the key.\<close>

definition settleGet :: "(json \<Rightarrow> jstring) \<Rightarrow> nat \<Rightarrow> get_state \<Rightarrow> get_state" where
  "settleGet stringify i st =
     (case map_of (pendingGets st) i of
        None \<Rightarrow> st
      | Some (r, shared) \<Rightarrow>
          st\<lparr>pendingGets := AList.delete i (pendingGets st),
             inFlightGet := (if shared then AList.delete (getKey stringify r) (inFlightGet st)
                             else inFlightGet st)\<rparr>)"

inductive get_reachable :: "(json \<Rightarrow> jstring) \<Rightarrow> get_state \<Rightarrow> bool" for stringify where
  get_init: "get_reachable stringify initialGets"
| get_call: "get_reachable stringify st \<Longrightarrow> get_reachable stringify (fst (apiGet stringify d r st))"
| get_settle: "get_reachable stringify st \<Longrightarrow> get_reachable stringify (settleGet stringify i st)"

section \<open>Interceptors\<close>

record api_config =
  skipBusinessError :: bool
  skipErrorHandler :: bool
  disableDuplicate :: bool
  skipAuthRefresh :: bool
  authRetry :: bool
  acceptAuthRotation :: bool
  cfg_headers :: "(jstring \<times> jstring) list"

datatype toast_message = Translated jstring | TranslatedKey message_key | ServerText json

datatype ui_effect = ToastError toast_message | ReplaceLocation jstring

text \<open>The request interceptor.\<close>

definition onRequest :: "auth_state \<Rightarrow> api_config \<Rightarrow> api_config" where
  "onRequest s cfg =
     (case accessToken s of
        None \<Rightarrow> cfg
      | Some t \<Rightarrow>
          if t = [] then cfg
          else cfg\<lparr>cfg_headers := AList.update (lit ''Authorization'') (lit ''Bearer '' @ t) (cfg_headers cfg)\<rparr>)"

text \<open>The response interceptor: an accepted rotation that is invalid makes the call fail.\<close>

definition onSuccess ::
  "sync_env \<Rightarrow> api_config \<Rightarrow> json option \<Rightarrow> auth_module \<Rightarrow> rotation_error + auth_module \<times> ui_effect list" where
  "onSuccess env cfg d m =
     (let success = js_opt_get d (lit ''success'');
          rotated = (if acceptAuthRotation cfg \<and> success = Some (JBool True)
                     then applyAuthRotation env (js_opt_get d (lit ''data'')) m else Inr m)
      in case rotated of
           Inl err \<Rightarrow> Inl err
         | Inr m' \<Rightarrow>
             Inr (m',
               if \<not> skipBusinessError cfg \<and> success = Some (JBool False) then
                 [ToastError
                    (case getServerErrorMessageKey d of
                       Some k \<Rightarrow> TranslatedKey k
                     | None \<Rightarrow>
                         case js_opt_get d (lit ''message'') of
                           Some msg \<Rightarrow> if json_truthy msg then ServerText msg else Translated (lit ''Request failed'')
                         | None \<Rightarrow> Translated (lit ''Request failed''))]
               else []))"

definition redirectToSignIn :: "jstring option \<Rightarrow> ui_effect list" where
  "redirectToSignIn pathname =
     (case pathname of
        None \<Rightarrow> []
      | Some p \<Rightarrow> if p \<noteq> lit ''/sign-in'' then [ReplaceLocation (lit ''/sign-in'')] else [])"

record http_error =
  err_config :: "api_config option"
  err_value :: "json option" \<comment> \<open>the thrown value: \<open>response\<close>, \<open>message\<close>\<close>

definition errStatus :: "http_error \<Rightarrow> json option" where
  "errStatus e = js_opt_get (js_opt_get (err_value e) (lit ''response'')) (lit ''status'')"

definition errorMessage :: "http_error \<Rightarrow> toast_message" where
  "errorMessage e =
     (case getServerErrorMessageKey (err_value e) of
        Some k \<Rightarrow> TranslatedKey k
      | None \<Rightarrow>
          (let fromServer = js_opt_get (js_opt_get (js_opt_get (err_value e) (lit ''response''))
                 (lit ''data'')) (lit ''message'');
               own = js_opt_get (err_value e) (lit ''message'')
           in if js_truthy fromServer then ServerText (the fromServer)
              else if js_truthy own then ServerText (the own)
              else Translated (lit ''Request failed'')))"

datatype error_plan =
    RefreshThenDecide api_config \<comment> \<open>a refresh is awaited, with the config marked as retried\<close>
  | Rethrow auth_module "ui_effect list"

definition sessionExpiredToast :: "bool \<Rightarrow> ui_effect list" where
  "sessionExpiredToast skip = (if skip then [] else [ToastError (Translated (lit ''Session expired!''))])"

definition onError :: "sync_env \<Rightarrow> jstring option \<Rightarrow> http_error \<Rightarrow> auth_module \<Rightarrow> error_plan" where
  "onError env pathname e m =
     (let skip = (case err_config e of None \<Rightarrow> False | Some c \<Rightarrow> skipErrorHandler c)
      in if errStatus e = Some (JNum (Fin 401)) then
           (case err_config e of
              Some c \<Rightarrow>
                if \<not> skipAuthRefresh c \<and> \<not> authRetry c then RefreshThenDecide (c\<lparr>authRetry := True\<rparr>)
                else if authRetry c then
                  Rethrow (clearAuthentication env False Complete m)
                    (sessionExpiredToast skip @ redirectToSignIn pathname)
                else Rethrow m (sessionExpiredToast skip)
            | None \<Rightarrow> Rethrow m (sessionExpiredToast skip))
         else Rethrow m (if skip then [] else [ToastError (errorMessage e)]))"

datatype retry_plan = RetryRequest api_config | GiveUp "ui_effect list"

definition afterRefresh :: "jstring option \<Rightarrow> api_config \<Rightarrow> refresh_outcome \<Rightarrow> auth_module \<Rightarrow> retry_plan" where
  "afterRefresh pathname c out m =
     (case out of
        Authenticated b \<Rightarrow> RetryRequest (onRequest (auth m) c)
      | TransientError err \<Rightarrow> GiveUp []
      | _ \<Rightarrow> GiveUp (sessionExpiredToast (skipErrorHandler c) @ redirectToSignIn pathname))"

section \<open>The life of one request\<close>

text \<open>\<open>api.request(config)\<close> sends the config it is given, so a retried request fails, if it fails, with
  the config that carries \<open>authRetry\<close>. The refresh in between is any outcome with any module state.\<close>

datatype life =
    Sent api_config auth_module
  | AwaitingRefresh api_config
  | Failed auth_module "ui_effect list"
  | Succeeded auth_module "ui_effect list"

datatype life_event =
    Success "json option"
  | Failure "json option"
  | Refreshed refresh_outcome auth_module

inductive life_step :: "sync_env \<Rightarrow> jstring option \<Rightarrow> life \<Rightarrow> life_event \<Rightarrow> life \<Rightarrow> bool" for env pathname where
  succeed: "onSuccess env c d m = Inr (m', fx) \<Longrightarrow> life_step env pathname (Sent c m) (Success d) (Succeeded m' fx)"
| badRotation: "onSuccess env c d m = Inl err \<Longrightarrow> life_step env pathname (Sent c m) (Success d) (Failed m [])"
| fail: "onError env pathname \<lparr>err_config = Some c, err_value = v\<rparr> m = Rethrow m' fx \<Longrightarrow>
     life_step env pathname (Sent c m) (Failure v) (Failed m' fx)"
| unauthorised: "onError env pathname \<lparr>err_config = Some c, err_value = v\<rparr> m = RefreshThenDecide c' \<Longrightarrow>
     life_step env pathname (Sent c m) (Failure v) (AwaitingRefresh c')"
| retry: "afterRefresh pathname c out m = RetryRequest c' \<Longrightarrow>
     life_step env pathname (AwaitingRefresh c) (Refreshed out m) (Sent c' m)"
| giveUp: "afterRefresh pathname c out m = GiveUp fx \<Longrightarrow>
     life_step env pathname (AwaitingRefresh c) (Refreshed out m) (Failed m fx)"

inductive life_run :: "sync_env \<Rightarrow> jstring option \<Rightarrow> life \<Rightarrow> life_event list \<Rightarrow> life \<Rightarrow> bool" for env pathname where
  life_stop: "life_run env pathname l [] l"
| life_more: "life_step env pathname l ev l' \<Longrightarrow> life_run env pathname l' evs l'' \<Longrightarrow>
     life_run env pathname l (ev # evs) l''"

inductive_simps life_run_Nil: "life_run env pathname l [] l'"
inductive_simps life_run_Cons: "life_run env pathname l (ev # evs) l'"
inductive_simps life_step_Sent: "life_step env pathname (Sent c m) ev l"
inductive_simps life_step_Awaiting: "life_step env pathname (AwaitingRefresh c) ev l"
inductive_simps life_step_Failed: "life_step env pathname (Failed m fx) ev l"
inductive_simps life_step_Succeeded: "life_step env pathname (Succeeded m fx) ev l"

section \<open>One retry per request\<close>

fun stepsToEnd :: "life \<Rightarrow> nat" where
  "stepsToEnd (Sent c m) = (if authRetry c then 1 else 3)"
| "stepsToEnd (AwaitingRefresh c) = 2"
| "stepsToEnd _ = 0"

fun answersToEnd :: "life \<Rightarrow> nat" where
  "answersToEnd (Sent c m) = (if authRetry c then 1 else 2)"
| "answersToEnd (AwaitingRefresh c) = 1"
| "answersToEnd _ = 0"

fun marked :: "life \<Rightarrow> bool" where
  "marked (AwaitingRefresh c) = authRetry c"
| "marked _ = True"

fun answers :: "life_event list \<Rightarrow> nat" where
  "answers [] = 0"
| "answers (Refreshed out m # evs) = answers evs"
| "answers (ev # evs) = Suc (answers evs)"

lemma onRequest_authRetry [simp]: "authRetry (onRequest s c) = authRetry c"
  by (simp add: onRequest_def split: option.splits)

lemma life_step_progress:
  assumes "life_step env p l ev l'" and "marked l"
  shows "marked l' \<and> 1 + stepsToEnd l' \<le> stepsToEnd l \<and> answers [ev] + answersToEnd l' \<le> answersToEnd l"
  using assms
  by (cases rule: life_step.cases)
    (auto simp: onError_def afterRefresh_def Let_def split: if_splits option.splits refresh_outcome.splits)

lemma life_run_progress:
  assumes "life_run env p l evs l'" and "marked l"
  shows "marked l' \<and> length evs + stepsToEnd l' \<le> stepsToEnd l \<and> answers evs + answersToEnd l' \<le> answersToEnd l"
  using assms
proof (induction rule: life_run.induct)
  case (life_stop l)
  then show ?case by simp
next
  case (life_more l ev l' evs l'')
  have one: "marked l' \<and> 1 + stepsToEnd l' \<le> stepsToEnd l \<and> answers [ev] + answersToEnd l' \<le> answersToEnd l"
    using life_more.hyps(1) life_more.prems by (rule life_step_progress)
  then show ?case using life_more.IH by (cases ev) auto
qed

lemma retried_401:
  assumes "life_step env p (Sent c m) (Failure v) (Failed m' fx)" and "authRetry c"
    and "js_opt_get (js_opt_get v (lit ''response'')) (lit ''status'') = Some (JNum (Fin 401))"
  shows "m' = clearAuthentication env False Complete m \<and> posted m' = posted m"
proof -
  have "onError env p \<lparr>err_config = Some c, err_value = v\<rparr> m = Rethrow m' fx"
    using assms(1) by (simp add: life_step_Sent)
  then show ?thesis using assms(2,3)
    by (auto simp: onError_def errStatus_def clearAuthentication_def split: option.splits)
qed

lemma refreshed_then_sent:
  assumes "life_step env p l (Refreshed (Authenticated b) m) l'" and "marked l"
  shows "\<exists>c. l' = Sent c m \<and> authRetry c"
  using assms by (cases rule: life_step.cases) (auto simp: afterRefresh_def)

text \<open>C8. A request is sent at most twice: after a 401 it is retried once, with the new token, and
  never again, so a server that keeps answering 401 cannot make the client loop. A second 401 clears
  the login in this tab without announcing it, and the call fails.\<close>

theorem retry_at_most_once:
  assumes "life_run env p (Sent c m) evs l"
  shows "answers evs \<le> 2 \<and> length evs \<le> 3 \<and> (authRetry c \<longrightarrow> length evs \<le> 1) \<and>
    (\<forall>v b m1 v' m2 fx. evs = [Failure v, Refreshed (Authenticated b) m1, Failure v'] \<and>
       js_opt_get (js_opt_get v' (lit ''response'')) (lit ''status'') = Some (JNum (Fin 401)) \<and>
       l = Failed m2 fx \<longrightarrow> m2 = clearAuthentication env False Complete m1 \<and> posted m2 = posted m1)"
proof -
  have progress: "length evs + stepsToEnd l \<le> (if authRetry c then 1 else 3) \<and>
      answers evs + answersToEnd l \<le> (if authRetry c then 1 else 2)"
    using life_run_progress [OF assms] by simp
  have "m2 = clearAuthentication env False Complete m1 \<and> posted m2 = posted m1"
    if evs: "evs = [Failure v, Refreshed (Authenticated b) m1, Failure v']"
      and unauth: "js_opt_get (js_opt_get v' (lit ''response'')) (lit ''status'') = Some (JNum (Fin 401))"
      and l: "l = Failed m2 fx" for v b m1 v' m2 fx
  proof -
    have "life_run env p (Sent c m) [Failure v, Refreshed (Authenticated b) m1, Failure v'] (Failed m2 fx)"
      using assms evs l by simp
    then obtain l1 l2 where steps:
      "life_step env p (Sent c m) (Failure v) l1" "life_step env p l1 (Refreshed (Authenticated b) m1) l2"
      "life_step env p l2 (Failure v') (Failed m2 fx)"
      unfolding life_run_Cons life_run_Nil by blast
    have "marked l1" using life_step_progress [OF steps(1)] by simp
    with refreshed_then_sent [OF steps(2)] steps(3) show ?thesis
      using retried_401 [OF _ _ unauth] by blast
  qed
  moreover from progress have "answers evs \<le> 2 \<and> length evs \<le> 3 \<and> (authRetry c \<longrightarrow> length evs \<le> 1)"
    by (simp split: if_splits)
  ultimately show ?thesis by blast
qed

definition plainConfig :: api_config where
  "plainConfig = \<lparr>skipBusinessError = False, skipErrorHandler = False, disableDuplicate = False,
     skipAuthRefresh = False, authRetry = False, acceptAuthRotation = False, cfg_headers = []\<rparr>"

theorem retry_at_most_once_witness:
  "answers [Success None] \<le> 2 \<and> length [Success None] \<le> 3"
proof -
  let ?env = "\<lparr>has_window = True, has_broadcast = True, storage_ok = True, authSyncSource = [],
     fresh_nonce = [], now_ms = 0\<rparr>"
  have "life_step ?env None (Sent plainConfig initialModule) (Success None) (Succeeded initialModule [])"
    by (rule life_step.succeed) (simp add: onSuccess_def plainConfig_def js_opt_get_def)
  from retry_at_most_once [OF life_more [OF this life_stop]] show ?thesis by blast
qed

section \<open>Shared GET requests\<close>

text \<open>The bookkeeping of shared requests: the map and the unsettled shared requests name each other.\<close>

definition gets_inv :: "(json \<Rightarrow> jstring) \<Rightarrow> get_state \<Rightarrow> bool" where
  "gets_inv stringify st \<longleftrightarrow>
     (\<forall>k i. map_of (inFlightGet st) k = Some i \<longleftrightarrow>
        (\<exists>r. map_of (pendingGets st) i = Some (r, True) \<and> getKey stringify r = k)) \<and>
     (\<forall>i \<ge> issuedGets st. map_of (pendingGets st) i = None)"

lemma gets_inv_apiGet:
  assumes "gets_inv stringify st"
  shows "gets_inv stringify (fst (apiGet stringify d r st))"
proof -
  have new: "map_of (pendingGets st) (issuedGets st) = None"
    and old: "\<And>k i. map_of (inFlightGet st) k = Some i \<longleftrightarrow>
        (\<exists>r. map_of (pendingGets st) i = Some (r, True) \<and> getKey stringify r = k)"
    and bound: "\<And>i. issuedGets st \<le> i \<Longrightarrow> map_of (pendingGets st) i = None"
    using assms by (auto simp: gets_inv_def)
  show ?thesis
  proof (cases d)
    case True
    then show ?thesis
      using new old bound by (auto simp: apiGet_def originalGet_def gets_inv_def)
  next
    case False
    show ?thesis
    proof (cases "map_of (inFlightGet st) (getKey stringify r)")
      case None
      have "\<nexists>j r'. map_of (pendingGets st) j = Some (r', True) \<and> getKey stringify r' = getKey stringify r"
        using None old by (metis option.distinct(1))
      with False None new old bound show ?thesis
        by (auto simp: apiGet_def originalGet_def gets_inv_def assoc.lookup_put)
    next
      case (Some j)
      with False assms show ?thesis by (simp add: apiGet_def)
    qed
  qed
qed

lemma gets_inv_settleGet:
  assumes "gets_inv stringify st"
  shows "gets_inv stringify (settleGet stringify i st)"
proof (cases "map_of (pendingGets st) i")
  case None
  with assms show ?thesis by (simp add: settleGet_def)
next
  case (Some rs)
  obtain r shared where rs: "rs = (r, shared)" by fastforce
  have old: "\<And>k i. map_of (inFlightGet st) k = Some i \<longleftrightarrow>
        (\<exists>r. map_of (pendingGets st) i = Some (r, True) \<and> getKey stringify r = k)"
    and bound: "\<And>i. issuedGets st \<le> i \<Longrightarrow> map_of (pendingGets st) i = None"
    using assms by (auto simp: gets_inv_def)
  have mine: "shared \<Longrightarrow> map_of (inFlightGet st) (getKey stringify r) = Some i"
    using old Some rs by auto
  have others: "map_of (inFlightGet st) (getKey stringify r) = Some j \<Longrightarrow> j \<noteq> i \<Longrightarrow> \<not> shared" for j
    using mine by auto
  show ?thesis
    unfolding gets_inv_def
  proof (intro conjI allI impI)
    fix k j
    show "map_of (inFlightGet (settleGet stringify i st)) k = Some j \<longleftrightarrow>
        (\<exists>r. map_of (pendingGets (settleGet stringify i st)) j = Some (r, True) \<and> getKey stringify r = k)"
      using old [of k j] mine others Some rs
      by (cases shared) (auto simp: settleGet_def assoc.lookup_remove old)
  qed (simp add: settleGet_def Some rs assoc.lookup_remove bound)
qed

lemma gets_inv_reachable: "get_reachable stringify st \<Longrightarrow> gets_inv stringify st"
proof (induction rule: get_reachable.induct)
  case get_init
  show ?case by (simp add: gets_inv_def initialGets_def)
qed (simp_all add: gets_inv_apiGet gets_inv_settleGet)

text \<open>Session identifiers have no colon and are not the word the client uses for none; paths do not
  contain the start of a serialised object after a question mark; parameters are objects.\<close>

definition wf_get :: "get_request \<Rightarrow> bool" where
  "wf_get r \<longleftrightarrow> (\<forall>j. gr_params r = Some j \<longrightarrow> (\<exists>m. j = JObj m)) \<and> 58 \<notin> set (sessionSID r) \<and> gr_sid r \<notin> {Some [], Some (lit ''anonymous'')} \<and>
     \<not> js_includes (gr_url r) (lit ''?{'')"

lemma append_colon_inj: "c \<notin> set a \<Longrightarrow> c \<notin> set a' \<Longrightarrow> a @ c # b = a' @ c # b' \<Longrightarrow> a = a' \<and> b = b'"
  by (induction a arbitrary: a') (auto simp: Cons_eq_append_conv)

lemma url_params_inj:
  assumes "u @ lit ''?{'' @ p = u' @ lit ''?{'' @ p'"
    and "\<not> js_includes u (lit ''?{'')" and "\<not> js_includes u' (lit ''?{'')"
  shows "u = u' \<and> p = p'"
  using assms
proof (induction u arbitrary: u')
  case Nil
  show ?case
  proof (cases u')
    case (Cons c v)
    with Nil obtain d w where "u' = 63 # d # w \<and> d = 123 \<or> u' = [63]"
      by (cases v) (auto simp: js_eval)
    with Nil show ?thesis by (auto simp: js_includes_iff js_eval)
  qed (use Nil in simp)
next
  case (Cons c u)
  show ?case
  proof (cases u')
    case Nil
    with Cons.prems have "c # u = [63] \<or> (\<exists>w. c # u = 63 # 123 # w)"
      by (cases u) (auto simp: js_eval)
    with Nil Cons.prems show ?thesis by (auto simp: js_includes_iff js_eval)
  next
    case (Cons d v)
    have "\<not> js_includes u (lit ''?{'')" "\<not> js_includes v (lit ''?{'')"
      using Cons.prems Cons by (auto simp: js_includes_iff) (metis append_Cons)+
    with Cons.IH [of v] Cons.prems Cons show ?thesis by auto
  qed
qed

lemma getKey_inj:
  assumes same: "getKey stringify r = getKey stringify r'" and wf: "wf_get r" "wf_get r'"
    and objects: "\<forall>m. js_startsWith (stringify (JObj m)) (lit ''{'')"
  shows "gr_sid r = gr_sid r' \<and> gr_url r = gr_url r' \<and>
    paramsText stringify (gr_params r) = paramsText stringify (gr_params r')"
proof -
  have brace: "\<exists>t. paramsText stringify (gr_params q) = lit ''{'' @ t" if "wf_get q" for q
    using that objects by (cases "gr_params q")
      (auto simp: paramsText_def wf_get_def js_startsWith_iff js_eval)
  from brace [OF wf(1)] brace [OF wf(2)] obtain t t' where t:
    "paramsText stringify (gr_params r) = lit ''{'' @ t" "paramsText stringify (gr_params r') = lit ''{'' @ t'"
    by blast
  have "sessionSID r @ 58 # (gr_url r @ lit ''?{'' @ t) = sessionSID r' @ 58 # (gr_url r' @ lit ''?{'' @ t')"
    using same t by (simp add: getKey_def js_eval)
  then have sids: "sessionSID r = sessionSID r'"
    and rest: "gr_url r @ lit ''?{'' @ t = gr_url r' @ lit ''?{'' @ t'"
    using wf append_colon_inj [of 58 "sessionSID r" "sessionSID r'"] by (auto simp: wf_get_def)
  have "gr_url r = gr_url r' \<and> t = t'"
    using url_params_inj [OF rest] wf by (simp add: wf_get_def)
  moreover have "gr_sid r = gr_sid r'"
    using sids wf by (auto simp: sessionSID_def wf_get_def split: option.splits)
  ultimately show ?thesis using t by simp
qed

text \<open>C9. A GET joins another only when they ask the same: the request whose promise a caller receives
  is unsettled and was made for the same session, path and serialised parameters, so a response never
  crosses from one login to another; and there is at most one such request at a time.\<close>

theorem shared_get_same_request:
  assumes "get_reachable stringify st" and "apiGet stringify False r st = (st', i)"
    and "\<forall>m. js_startsWith (stringify (JObj m)) (lit ''{'')"
  shows "\<exists>r'. map_of (pendingGets st') i = Some (r', True) \<and>
    (wf_get r \<and> wf_get r' \<longrightarrow> gr_sid r' = gr_sid r \<and> gr_url r' = gr_url r \<and>
       paramsText stringify (gr_params r') = paramsText stringify (gr_params r)) \<and>
    (\<forall>j q. map_of (pendingGets st') j = Some (q, True) \<and> getKey stringify q = getKey stringify r \<longrightarrow> j = i)"
proof -
  have "gets_inv stringify st'"
    using gets_inv_reachable [OF get_reachable.get_call [OF assms(1), of False r]] assms(2) by simp
  then have inv: "map_of (inFlightGet st') k = Some i \<longleftrightarrow>
      (\<exists>r. map_of (pendingGets st') i = Some (r, True) \<and> getKey stringify r = k)" for k i
    unfolding gets_inv_def by blast
  have mine: "map_of (inFlightGet st') (getKey stringify r) = Some i"
    using assms(2) by (auto simp: apiGet_def originalGet_def assoc.lookup_put split: option.splits)
  then obtain r' where r': "map_of (pendingGets st') i = Some (r', True)" "getKey stringify r' = getKey stringify r"
    using inv by blast
  moreover have "j = i"
    if "map_of (pendingGets st') j = Some (q, True)" "getKey stringify q = getKey stringify r" for j q
  proof -
    have "map_of (inFlightGet st') (getKey stringify r) = Some j" using inv that by blast
    with mine show ?thesis by simp
  qed
  ultimately show ?thesis using getKey_inj [OF r'(2) _ _ assms(3)] by blast
qed

fun keysText :: "json \<Rightarrow> jstring" where
  "keysText (JObj m) = lit ''{'' @ concat (map fst m) @ lit ''}''"
| "keysText _ = lit ''null''"

definition sampleGet :: get_request where
  "sampleGet = \<lparr>gr_sid = Some (lit ''s1''), gr_url = lit ''/api/user/self'', gr_params = None\<rparr>"

theorem shared_get_same_request_witness:
  "\<exists>r'. map_of (pendingGets (fst (apiGet keysText False sampleGet initialGets)))
      (snd (apiGet keysText False sampleGet initialGets)) = Some (r', True)"
proof -
  have "\<forall>m. js_startsWith (keysText (JObj m)) (lit ''{'')" by (simp add: js_startsWith_iff)
  from shared_get_same_request [OF get_init _ this, of sampleGet] show ?thesis
    by (metis prod.collapse)
qed

end
