(* ===== verification/Permissions.thy ===== *)
theory Permissions
  imports AuthStore
begin

text \<open>
  \<^verbatim>\<open>web/src/lib/roles.ts\<close> and \<^verbatim>\<open>admin-permissions.ts\<close>: role levels, who may open the data overview,
  the permission check of the admin pages and the completion of a permission matrix from the catalog
  the backend serves. Matrices are association lists in insertion order.
\<close>

section \<open>Roles\<close>

definition ROLE_GUEST :: int where "ROLE_GUEST = 0"
definition ROLE_USER :: int where "ROLE_USER = 1"
definition ROLE_BU_BP :: int where "ROLE_BU_BP = 2"
definition ROLE_ADMIN :: int where "ROLE_ADMIN = 10"
definition ROLE_SUPER_ADMIN :: int where "ROLE_SUPER_ADMIN = 100"

lemmas role_defs = ROLE_GUEST_def ROLE_USER_def ROLE_BU_BP_def ROLE_ADMIN_def ROLE_SUPER_ADMIN_def

definition roleLabelKeys :: "(int \<times> jstring) list" where
  "roleLabelKeys = [(ROLE_SUPER_ADMIN, lit ''Super Admin''), (ROLE_ADMIN, lit ''Admin''), (ROLE_BU_BP, lit ''BP''),
     (ROLE_USER, lit ''User''), (ROLE_GUEST, lit ''Guest'')]"

definition getRoleLabelKey :: "int option \<Rightarrow> jstring" where
  "getRoleLabelKey r =
     (case Option.bind r (map_of roleLabelKeys) of Some l \<Rightarrow> l | None \<Rightarrow> the (map_of roleLabelKeys ROLE_GUEST))"

fun num_ge :: "jsnum \<Rightarrow> int \<Rightarrow> bool" where
  "num_ge (Fin q) n = (of_int n \<le> q)"
| "num_ge PosInf n = True"
| "num_ge _ n = False"

definition userMember :: "auth_user \<Rightarrow> string \<Rightarrow> json option" where
  "userMember u k = map_of (u_extra u) (lit k)"

fun arrayLength :: "json option \<Rightarrow> nat" where
  "arrayLength (Some (JArr xs)) = length xs"
| "arrayLength _ = 0"

definition canAccessDataOverview :: "auth_user option \<Rightarrow> bool" where
  "canAccessDataOverview u =
     (case u of
        None \<Rightarrow> False
      | Some v \<Rightarrow>
          if num_ge (u_role v) ROLE_ADMIN then True
          else if u_role v = Fin (of_int ROLE_BU_BP) then arrayLength (userMember v ''overview_dept_ids'') > 0
          else userMember v ''is_dept_leader'' = Some (JBool True))"

section \<open>Permission checks\<close>

definition hasPermission :: "auth_user option \<Rightarrow> jstring \<Rightarrow> jstring \<Rightarrow> bool" where
  "hasPermission u resource action =
     (case u of
        None \<Rightarrow> False
      | Some v \<Rightarrow>
          if num_ge (u_role v) ROLE_SUPER_ADMIN then True
          else js_opt_get (js_opt_get (js_opt_get (userMember v ''permissions'') (lit ''admin_permissions''))
                 resource) action = Some (JBool True))"

type_synonym permission_matrix = "(jstring \<times> (jstring \<times> bool) list) list"

record permission_resource =
  pr_resource :: jstring
  pr_actions :: "jstring list"

record permission_role =
  role_key :: jstring
  superuser :: bool
  grants :: permission_matrix

record permission_catalog =
  resources :: "permission_resource list"
  roles :: "permission_role list"

definition roleGrants :: "permission_catalog \<Rightarrow> jstring \<Rightarrow> permission_matrix" where
  "roleGrants catalog key =
     (case find (\<lambda>r. role_key r = key) (roles catalog) of None \<Rightarrow> [] | Some r \<Rightarrow> grants r)"

text \<open>\<open>matrix?.[resource]?.[action]\<close>\<close>

definition matrixCell :: "permission_matrix option \<Rightarrow> jstring \<Rightarrow> jstring \<Rightarrow> bool option" where
  "matrixCell m r a = Option.bind (Option.bind m (\<lambda>x. map_of x r)) (\<lambda>acts. map_of acts a)"

definition normalizedCell :: "permission_matrix option \<Rightarrow> permission_matrix \<Rightarrow> jstring \<Rightarrow> jstring \<Rightarrow> bool" where
  "normalizedCell v baseline r a =
     (case matrixCell v r a of Some b \<Rightarrow> b
      | None \<Rightarrow> (case matrixCell (Some baseline) r a of Some b \<Rightarrow> b | None \<Rightarrow> False))"

definition normalizedActions ::
  "permission_matrix option \<Rightarrow> permission_matrix \<Rightarrow> permission_resource \<Rightarrow> (jstring \<times> bool) list" where
  "normalizedActions v baseline res =
     fold (\<lambda>(a, b). AList.update a b)
       (map (\<lambda>a. (a, normalizedCell v baseline (pr_resource res) a)) (pr_actions res)) []"

definition normalizeAdminPermissions :: "permission_matrix option \<Rightarrow> permission_catalog \<Rightarrow> permission_matrix" where
  "normalizeAdminPermissions v catalog =
     (let baseline = roleGrants catalog (lit ''admin'')
      in fold (\<lambda>(r, acts). AList.update r acts)
           (map (\<lambda>res. (pr_resource res, normalizedActions v baseline res)) (resources catalog)) [])"

section \<open>The completed matrix\<close>

definition wf_catalog :: "permission_catalog \<Rightarrow> bool" where
  "wf_catalog c \<longleftrightarrow> distinct (map pr_resource (resources c))"

lemma map_of_rev_graph: "map_of (rev (map (\<lambda>x. (x, f x)) xs)) a = (if a \<in> set xs then Some (f a) else None)"
  by (induction xs) (auto simp: map_add_def split: option.splits)

lemma normalizedActions_lookup:
  "map_of (normalizedActions v b res) a =
     (if a \<in> set (pr_actions res) then Some (normalizedCell v b (pr_resource res) a) else None)"
  by (simp add: normalizedActions_def assoc.lookup_puts map_of_rev_graph)

lemma normalize_lookup:
  assumes "wf_catalog c"
  shows "map_of (normalizeAdminPermissions v c) r =
    map_option (normalizedActions v (roleGrants c (lit ''admin'')))
      (find (\<lambda>res. pr_resource res = r) (resources c))"
proof -
  have "map_of (rev (map (\<lambda>res. (pr_resource res, g res)) rs)) r =
      map_option g (find (\<lambda>res. pr_resource res = r) rs)"
    if "distinct (map pr_resource rs)" for rs and g :: "permission_resource \<Rightarrow> (jstring \<times> bool) list"
    using that
  proof (induction rs)
    case (Cons x rs)
    have "find (\<lambda>res. pr_resource res = r) rs = None" if "pr_resource x = r"
      using Cons.prems that by (auto simp: find_None_iff) (metis image_eqI)
    with Cons show ?case by (auto simp: map_add_def split: option.splits)
  qed simp
  with assms show ?thesis
    by (simp add: normalizeAdminPermissions_def assoc.lookup_puts wf_catalog_def split: option.splits)
qed

lemma normalize_cell:
  assumes "wf_catalog c" and "res \<in> set (resources c)"
  shows "matrixCell (Some (normalizeAdminPermissions v c)) (pr_resource res) a =
    (if a \<in> set (pr_actions res)
     then Some (normalizedCell v (roleGrants c (lit ''admin'')) (pr_resource res) a) else None)"
proof -
  have "find (\<lambda>x. pr_resource x = pr_resource res) (resources c) = Some res"
    using assms unfolding wf_catalog_def
  proof (induction "resources c" arbitrary: c rule: list.induct)
    case (Cons x xs)
    note split = Cons.hyps(2) [symmetric]
    from Cons.hyps(1) [of "c\<lparr>resources := xs\<rparr>"] Cons.prems split show ?case by (auto simp: image_iff)
  qed simp
  then show ?thesis
    by (simp add: matrixCell_def normalize_lookup [OF assms(1)] normalizedActions_lookup)
qed

lemma normalize_cong:
  assumes "\<And>res. res \<in> set (resources c) \<Longrightarrow>
    normalizedActions v (roleGrants c (lit ''admin'')) res = normalizedActions w (roleGrants c (lit ''admin'')) res"
  shows "normalizeAdminPermissions v c = normalizeAdminPermissions w c"
  using assms by (simp add: normalizeAdminPermissions_def cong: map_cong)

lemma normalize_idem:
  assumes "wf_catalog c"
  shows "normalizeAdminPermissions (Some (normalizeAdminPermissions v c)) c = normalizeAdminPermissions v c"
proof -
  let ?b = "roleGrants c (lit ''admin'')"
  have "normalizedActions (Some (normalizeAdminPermissions v c)) ?b res = normalizedActions v ?b res"
    if "res \<in> set (resources c)" for res
    unfolding normalizedActions_def
    by (rule arg_cong [where f = "\<lambda>l. fold _ l []"])
      (simp add: normalizedCell_def [of "Some _"] normalize_cell [OF assms that])
  then show ?thesis by (rule normalize_cong)
qed

text \<open>Completion is a normaliser on the matrices of one catalog.\<close>

definition completeMatrix :: "permission_catalog \<Rightarrow> permission_matrix \<Rightarrow> permission_matrix" where
  "completeMatrix c m = (if wf_catalog c then normalizeAdminPermissions (Some m) c else m)"

interpretation permissions: normaliser "completeMatrix c"
  by unfold_locales (simp add: completeMatrix_def normalize_idem)

text \<open>C10. Completing a permission matrix fills in exactly the catalog: every action of every resource of
  the catalog gets the stored decision, else the admin role's, else a refusal; stored entries outside
  the catalog are dropped; and completing twice changes nothing.\<close>

theorem permissions_completed:
  assumes "wf_catalog c"
  shows "(\<forall>res \<in> set (resources c). \<forall>a.
      matrixCell (Some (normalizeAdminPermissions v c)) (pr_resource res) a =
        (if a \<in> set (pr_actions res)
         then Some (case matrixCell v (pr_resource res) a of Some b \<Rightarrow> b
           | None \<Rightarrow> (case matrixCell (Some (roleGrants c (lit ''admin''))) (pr_resource res) a of
               Some b \<Rightarrow> b | None \<Rightarrow> False))
         else None)) \<and>
    (\<forall>r a. r \<notin> pr_resource ` set (resources c) \<longrightarrow> matrixCell (Some (normalizeAdminPermissions v c)) r a = None) \<and>
    normalizeAdminPermissions (Some (normalizeAdminPermissions v c)) c = normalizeAdminPermissions v c"
proof (intro conjI ballI allI impI)
  fix r a assume "r \<notin> pr_resource ` set (resources c)"
  then have "find (\<lambda>res. pr_resource res = r) (resources c) = None" by (auto simp: find_None_iff)
  then show "matrixCell (Some (normalizeAdminPermissions v c)) r a = None"
    by (simp add: matrixCell_def normalize_lookup [OF assms])
qed (simp_all add: normalize_cell [OF assms] normalize_idem [OF assms] normalizedCell_def)

definition sampleCatalog :: permission_catalog where
  "sampleCatalog = \<lparr>resources = [\<lparr>pr_resource = lit ''channel'', pr_actions = [lit ''read'', lit ''write'']\<rparr>],
     roles = [\<lparr>role_key = lit ''admin'', superuser = False, grants = [(lit ''channel'', [(lit ''read'', True)])]\<rparr>]\<rparr>"

theorem permissions_completed_witness:
  "normalizeAdminPermissions (Some (normalizeAdminPermissions None sampleCatalog)) sampleCatalog =
     normalizeAdminPermissions None sampleCatalog"
  using permissions_completed [of sampleCatalog None] by (simp add: wf_catalog_def sampleCatalog_def)

end
