(* ===== verification/AdvancedCustom.thy ===== *)
theory AdvancedCustom
  imports JSPrelude
begin

text \<open>
  \<^verbatim>\<open>web/src/features/channels/lib/advanced-custom.ts\<close>: the routing table of an "advanced custom"
  channel. A route maps an incoming path (and a list of client model rules) to an upstream path, with
  a protocol converter and an authentication. The theory has the tables, the templates and defaults,
  the normalisation, the edits of the management and forwarding routes, and the validator.

  Route members are optional strings, as in the TypeScript types; converters and authentication types
  are strings too, because a stored configuration can hold any. Parsing of URLs (\<open>new URL\<close>), decoding
  and printing of JSON are arguments.
\<close>

section \<open>Data\<close>

record adv_auth =
  auth_type :: "jstring option"
  auth_name :: "jstring option"
  auth_value :: "jstring option"

record adv_route =
  incoming_path :: "jstring option"
  upstream_path :: "jstring option"
  converter :: "jstring option"
  models :: "jstring list option"
  route_auth :: "adv_auth option"

record adv_config =
  advanced_routes :: "adv_route list option"

record adv_error =
  err_message :: jstring
  err_routeIndex :: "nat option"

text \<open>\<open>x || d\<close> on an optional string, and \<open>x?.trim() || ''\<close>.\<close>

definition or_string :: "jstring option \<Rightarrow> jstring \<Rightarrow> jstring" where
  "or_string x d = (case x of None \<Rightarrow> d | Some s \<Rightarrow> if s = [] then d else s)"

definition or_trimmed :: "jstring option \<Rightarrow> jstring" where
  "or_trimmed x = (case x of None \<Rightarrow> [] | Some s \<Rightarrow> js_trim s)"

section \<open>Tables\<close>

definition ADVANCED_CUSTOM_MODEL_LIST_PATH :: jstring where
  "ADVANCED_CUSTOM_MODEL_LIST_PATH = lit ''/v1/models''"

definition ADVANCED_CUSTOM_BALANCE_PATH :: jstring where
  "ADVANCED_CUSTOM_BALANCE_PATH = lit ''/v1/dashboard/billing/credit_grants''"

definition ADVANCED_CUSTOM_CONVERTER_OPTIONS :: "jstring list" where
  "ADVANCED_CUSTOM_CONVERTER_OPTIONS = map lit
     [''none'',
      ''anthropic_messages_to_openai_chat_completions'',
      ''openai_chat_completions_to_anthropic_messages'',
      ''openai_chat_completions_to_openai_responses'',
      ''openai_responses_to_openai_chat_completions'',
      ''openai_responses_to_gemini_generate_content'',
      ''gemini_generate_content_to_openai_chat_completions'',
      ''openai_chat_completions_to_gemini_generate_content'']"

definition ADVANCED_CUSTOM_INCOMING_PATH_OPTIONS :: "(jstring \<times> jstring) list" where
  "ADVANCED_CUSTOM_INCOMING_PATH_OPTIONS = map (\<lambda>(v, l). (lit v, lit l))
     [(''/v1/chat/completions'', ''OpenAI Chat''),
      (''/v1/responses'', ''OpenAI Responses''),
      (''/v1/responses/compact'', ''OpenAI Responses Compact''),
      (''/v1/alpha/search'', ''Codex Alpha Search''),
      (''/v1/embeddings'', ''OpenAI Embeddings''),
      (''/v1/images/generations'', ''OpenAI Image Generations''),
      (''/v1/images/edits'', ''OpenAI Image Edits''),
      (''/v1/completions'', ''OpenAI Completions''),
      (''/v1/audio/speech'', ''OpenAI Audio Speech''),
      (''/v1/audio/transcriptions'', ''OpenAI Audio Transcriptions''),
      (''/v1/audio/translations'', ''OpenAI Audio Translations''),
      (''/v1/rerank'', ''Rerank''),
      (''/v1/realtime'', ''OpenAI Realtime''),
      (''/v1/messages'', ''Claude Messages''),
      (''/v1beta/models/{model}:generateContent'', ''Gemini Generate Content''),
      (''/v1beta/models/{model}:embedContent'', ''Gemini Embed Content''),
      (''/v1beta/models/{model}:batchEmbedContents'', ''Gemini Batch Embed Contents'')]"

definition ADVANCED_CUSTOM_ROUTE_SUMMARY_LABELS :: "(jstring \<times> jstring) list" where
  "ADVANCED_CUSTOM_ROUTE_SUMMARY_LABELS =
     [(lit ''/v1/chat/completions'', lit ''OpenAI Chat''),
      (ADVANCED_CUSTOM_MODEL_LIST_PATH, lit ''OpenAI Models''),
      (ADVANCED_CUSTOM_BALANCE_PATH, lit ''Balance Query'')]"

definition openAIChatPath :: jstring where "openAIChatPath = lit ''/v1/chat/completions''"
definition openAIResponsesPath :: jstring where "openAIResponsesPath = lit ''/v1/responses''"
definition claudeMessagesPath :: jstring where "claudeMessagesPath = lit ''/v1/messages''"
definition geminiGenerateContentPath :: jstring where
  "geminiGenerateContentPath = lit ''/v1beta/models/{model}:generateContent''"

definition bearerHeaderAuth :: adv_auth where
  "bearerHeaderAuth = \<lparr>auth_type = Some (lit ''header''), auth_name = Some (lit ''Authorization''),
     auth_value = Some (lit ''Bearer {api_key}'')\<rparr>"

definition apiKeyHeaderAuth :: adv_auth where
  "apiKeyHeaderAuth = \<lparr>auth_type = Some (lit ''header''), auth_name = Some (lit ''x-api-key''),
     auth_value = Some (lit ''{api_key}'')\<rparr>"

definition geminiQueryAuth :: adv_auth where
  "geminiQueryAuth = \<lparr>auth_type = Some (lit ''query''), auth_name = Some (lit ''key''),
     auth_value = Some (lit ''{api_key}'')\<rparr>"

section \<open>Templates\<close>

definition nativeRoute :: "adv_auth \<Rightarrow> jstring \<Rightarrow> adv_route" where
  "nativeRoute a path = \<lparr>incoming_path = Some path, upstream_path = Some path,
     converter = Some (lit ''none''), models = None, route_auth = Some a\<rparr>"

definition createOpenAINativeRoutes :: "adv_route list" where
  "createOpenAINativeRoutes = map (nativeRoute bearerHeaderAuth \<circ> lit)
     [''/v1/chat/completions'', ''/v1/completions'', ''/v1/responses'', ''/v1/responses/compact'',
      ''/v1/embeddings'', ''/v1/images/generations'', ''/v1/images/edits'', ''/v1/audio/speech'',
      ''/v1/audio/transcriptions'', ''/v1/audio/translations'', ''/v1/realtime'']"

definition createClaudeNativeRoutes :: "adv_route list" where
  "createClaudeNativeRoutes = [nativeRoute apiKeyHeaderAuth (lit ''/v1/messages'')]"

definition createGeminiNativeRoutes :: "adv_route list" where
  "createGeminiNativeRoutes = map (nativeRoute geminiQueryAuth \<circ> lit)
     [''/v1beta/models/{model}:generateContent'', ''/v1beta/models/{model}:embedContent'',
      ''/v1beta/models/{model}:batchEmbedContents'']"

definition createGatewayNativeRoutes :: "adv_route list" where
  "createGatewayNativeRoutes = map (nativeRoute bearerHeaderAuth \<circ> lit) [''/v1/alpha/search'', ''/v1/rerank'']"

definition ADVANCED_CUSTOM_TEMPLATE_OPTIONS :: "(jstring \<times> adv_config) list" where
  "ADVANCED_CUSTOM_TEMPLATE_OPTIONS =
     [(lit ''all_protocols'', \<lparr>advanced_routes = Some (createOpenAINativeRoutes @ createClaudeNativeRoutes @
         createGeminiNativeRoutes @ createGatewayNativeRoutes)\<rparr>),
      (lit ''openai_only'', \<lparr>advanced_routes = Some createOpenAINativeRoutes\<rparr>),
      (lit ''claude_only'', \<lparr>advanced_routes = Some createClaudeNativeRoutes\<rparr>),
      (lit ''gemini_only'', \<lparr>advanced_routes = Some createGeminiNativeRoutes\<rparr>)]"

definition getAdvancedCustomTemplateConfig :: "jstring \<Rightarrow> adv_config" where
  "getAdvancedCustomTemplateConfig key =
     (case map_of ADVANCED_CUSTOM_TEMPLATE_OPTIONS key of
        Some c \<Rightarrow> c | None \<Rightarrow> snd (hd ADVANCED_CUSTOM_TEMPLATE_OPTIONS))"

section \<open>Normalisation\<close>

definition isAdvancedCustomManagementPath :: "jstring \<Rightarrow> bool" where
  "isAdvancedCustomManagementPath path \<longleftrightarrow>
     path = ADVANCED_CUSTOM_MODEL_LIST_PATH \<or> path = ADVANCED_CUSTOM_BALANCE_PATH"

definition getAdvancedCustomRouteUpstreamPath :: "adv_route \<Rightarrow> jstring" where
  "getAdvancedCustomRouteUpstreamPath r = js_trim (or_string (upstream_path r) [])"

definition normalizeAdvancedCustomRouteModels :: "jstring list option \<Rightarrow> jstring list" where
  "normalizeAdvancedCustomRouteModels ms =
     (case ms of None \<Rightarrow> [] | Some xs \<Rightarrow> filter (\<lambda>m. m \<noteq> []) (map js_trim xs))"

definition normalizeAdvancedCustomRoute :: "adv_route \<Rightarrow> adv_route" where
  "normalizeAdvancedCustomRoute r =
     (let ms = normalizeAdvancedCustomRouteModels (models r)
      in \<lparr>incoming_path = Some (or_string (incoming_path r) []),
          upstream_path = Some (getAdvancedCustomRouteUpstreamPath r),
          converter = Some (or_string (converter r) (lit ''none'')),
          models = (if ms = [] then None else Some ms),
          route_auth = map_option (\<lambda>a. \<lparr>auth_type = auth_type a,
            auth_name = Some (or_string (auth_name a) []), auth_value = Some (or_string (auth_value a) [])\<rparr>)
            (route_auth r)\<rparr>)"

definition normalizeAdvancedCustomConfig :: "adv_config \<Rightarrow> adv_config" where
  "normalizeAdvancedCustomConfig c =
     \<lparr>advanced_routes = Some (case advanced_routes c of None \<Rightarrow> [] | Some rs \<Rightarrow> map normalizeAdvancedCustomRoute rs)\<rparr>"

text \<open>\<open>normalized.advanced_routes || []\<close>\<close>

definition normalizedRoutes :: "adv_config \<Rightarrow> adv_route list" where
  "normalizedRoutes c = (case advanced_routes (normalizeAdvancedCustomConfig c) of None \<Rightarrow> [] | Some rs \<Rightarrow> rs)"

section \<open>Editing routes\<close>

definition getAdvancedCustomManagementRoute :: "adv_config \<Rightarrow> jstring \<Rightarrow> adv_route option" where
  "getAdvancedCustomManagementRoute c path =
     find (\<lambda>r. map_option js_trim (incoming_path r) = Some path) (normalizedRoutes c)"

fun findIndex :: "('a \<Rightarrow> bool) \<Rightarrow> 'a list \<Rightarrow> nat option" where
  "findIndex p [] = None"
| "findIndex p (x # xs) = (if p x then Some 0 else map_option Suc (findIndex p xs))"

definition managementRoute :: "jstring \<Rightarrow> adv_route \<Rightarrow> adv_route" where
  "managementRoute path r = \<lparr>incoming_path = Some path, upstream_path = Some (or_string (upstream_path r) []),
     converter = Some (lit ''none''), models = Some [], route_auth = route_auth r\<rparr>"

definition replaceAdvancedCustomManagementRoute ::
  "adv_config \<Rightarrow> jstring \<Rightarrow> adv_route option \<Rightarrow> adv_config" where
  "replaceAdvancedCustomManagementRoute c path route =
     (let rs = normalizedRoutes c;
          index = findIndex (\<lambda>r. map_option js_trim (incoming_path r) = Some path) rs
      in \<lparr>advanced_routes = Some
           (case route of
              None \<Rightarrow> (case index of None \<Rightarrow> rs | Some i \<Rightarrow> take i rs @ drop (i + 1) rs)
            | Some r \<Rightarrow>
                (case index of
                   None \<Rightarrow> rs @ [managementRoute path r]
                 | Some i \<Rightarrow> rs[i := managementRoute path r]))\<rparr>)"

definition isManagementRoute :: "adv_route \<Rightarrow> bool" where
  "isManagementRoute r \<longleftrightarrow> isAdvancedCustomManagementPath (or_trimmed (incoming_path r))"

definition replaceAdvancedCustomForwardingRoutes :: "adv_config \<Rightarrow> adv_route list \<Rightarrow> adv_config" where
  "replaceAdvancedCustomForwardingRoutes c forwardingRoutes =
     (let rs = normalizedRoutes c;
          managementRoutes = filter isManagementRoute rs
      in case findIndex (\<lambda>r. \<not> isManagementRoute r) rs of
           None \<Rightarrow> \<lparr>advanced_routes = Some (managementRoutes @ forwardingRoutes)\<rparr>
         | Some i \<Rightarrow>
             \<lparr>advanced_routes = Some (filter isManagementRoute (take i rs) @ forwardingRoutes @
                filter isManagementRoute (drop i rs))\<rparr>)"

definition createAdvancedCustomRoute :: adv_route where
  "createAdvancedCustomRoute = \<lparr>incoming_path = Some openAIChatPath, upstream_path = Some openAIChatPath,
     converter = Some (lit ''none''), models = None, route_auth = None\<rparr>"

definition createAdvancedCustomConfig :: adv_config where
  "createAdvancedCustomConfig = \<lparr>advanced_routes = Some [createAdvancedCustomRoute]\<rparr>"

definition createAdvancedCustomManagementRoute :: "jstring \<Rightarrow> adv_route" where
  "createAdvancedCustomManagementRoute path = \<lparr>incoming_path = Some path, upstream_path = Some path,
     converter = Some (lit ''none''), models = Some [], route_auth = None\<rparr>"

section \<open>Converters and paths\<close>

definition isAdvancedCustomConverter :: "jstring \<Rightarrow> bool" where
  "isAdvancedCustomConverter v \<longleftrightarrow> v \<in> set ADVANCED_CUSTOM_CONVERTER_OPTIONS"

definition isConverterPathAllowed :: "jstring \<Rightarrow> jstring \<Rightarrow> bool" where
  "isConverterPathAllowed incomingPath conv =
     (if conv = lit ''none'' then True
      else if incomingPath = lit ''/v1/alpha/search'' then False
      else if conv = lit ''anthropic_messages_to_openai_chat_completions'' then incomingPath = lit ''/v1/messages''
      else if conv = lit ''openai_chat_completions_to_anthropic_messages'' \<or>
              conv = lit ''openai_chat_completions_to_openai_responses'' \<or>
              conv = lit ''openai_chat_completions_to_gemini_generate_content''
        then incomingPath = lit ''/v1/chat/completions''
      else if conv = lit ''openai_responses_to_openai_chat_completions'' then incomingPath = lit ''/v1/responses''
      else if conv = lit ''openai_responses_to_gemini_generate_content'' then incomingPath = lit ''/v1/responses''
      else js_includes incomingPath (lit '':generateContent'') \<or>
           js_includes incomingPath (lit '':streamGenerateContent''))"

definition getAdvancedCustomIncomingPathOptions :: "jstring \<Rightarrow> (jstring \<times> jstring) list" where
  "getAdvancedCustomIncomingPathOptions conv =
     filter (\<lambda>opt. isConverterPathAllowed (fst opt) conv) ADVANCED_CUSTOM_INCOMING_PATH_OPTIONS"

definition getDefaultAdvancedCustomIncomingPath :: "jstring \<Rightarrow> jstring" where
  "getDefaultAdvancedCustomIncomingPath conv =
     (case getAdvancedCustomIncomingPathOptions conv of
        [] \<Rightarrow> lit ''/v1/chat/completions''
      | opt # _ \<Rightarrow> if fst opt = [] then lit ''/v1/chat/completions'' else fst opt)"

definition getAdvancedCustomConverterOptions :: "jstring \<Rightarrow> jstring list" where
  "getAdvancedCustomConverterOptions incomingPath =
     filter (\<lambda>conv. conv = lit ''none'' \<or> isConverterPathAllowed (js_trim incomingPath) conv)
       ADVANCED_CUSTOM_CONVERTER_OPTIONS"

definition getAdvancedCustomIncomingPathLabel :: "jstring \<Rightarrow> jstring" where
  "getAdvancedCustomIncomingPathLabel v = or_string (map_of ADVANCED_CUSTOM_INCOMING_PATH_OPTIONS v) v"

definition getAdvancedCustomNativeAuth :: "jstring \<Rightarrow> adv_auth" where
  "getAdvancedCustomNativeAuth incomingPath =
     (if incomingPath = claudeMessagesPath then apiKeyHeaderAuth
      else if js_includes incomingPath (lit '':generateContent'') \<or>
              js_includes incomingPath (lit '':streamGenerateContent'') \<or>
              js_includes incomingPath (lit '':embedContent'') \<or>
              js_includes incomingPath (lit '':batchEmbedContents'')
        then geminiQueryAuth
      else bearerHeaderAuth)"

definition getAdvancedCustomConverterDefaults :: "jstring \<Rightarrow> jstring \<Rightarrow> jstring \<times> adv_auth" where
  "getAdvancedCustomConverterDefaults conv incomingPath =
     (let normalizedIncomingPath =
            (if js_trim incomingPath = [] then getDefaultAdvancedCustomIncomingPath conv else js_trim incomingPath)
      in if conv = lit ''none'' then (normalizedIncomingPath, getAdvancedCustomNativeAuth normalizedIncomingPath)
         else if conv = lit ''anthropic_messages_to_openai_chat_completions'' \<or>
                 conv = lit ''gemini_generate_content_to_openai_chat_completions'' \<or>
                 conv = lit ''openai_responses_to_openai_chat_completions''
           then (openAIChatPath, bearerHeaderAuth)
         else if conv = lit ''openai_chat_completions_to_openai_responses'' then (openAIResponsesPath, bearerHeaderAuth)
         else if conv = lit ''openai_chat_completions_to_anthropic_messages'' then (claudeMessagesPath, apiKeyHeaderAuth)
         else if conv = lit ''openai_chat_completions_to_gemini_generate_content'' \<or>
                 conv = lit ''openai_responses_to_gemini_generate_content''
           then (geminiGenerateContentPath, geminiQueryAuth)
         else (if normalizedIncomingPath = [] then openAIChatPath else normalizedIncomingPath,
               getAdvancedCustomNativeAuth normalizedIncomingPath))"

definition getAdvancedCustomUpstreamPathPlaceholder :: "jstring \<Rightarrow> jstring option \<Rightarrow> jstring" where
  "getAdvancedCustomUpstreamPathPlaceholder conv incomingPath =
     fst (getAdvancedCustomConverterDefaults conv
       (case incomingPath of None \<Rightarrow> getDefaultAdvancedCustomIncomingPath conv | Some p \<Rightarrow> p))"

section \<open>Authentication\<close>

definition getAdvancedCustomAuthMode :: "adv_route \<Rightarrow> jstring" where
  "getAdvancedCustomAuthMode r = or_string (Option.bind (route_auth r) auth_type) (lit ''default'')"

definition buildAdvancedCustomAuth :: "jstring \<Rightarrow> adv_auth option \<Rightarrow> adv_auth option" where
  "buildAdvancedCustomAuth mode previousAuth =
     (if mode = lit ''default'' then None
      else if mode = lit ''none'' then Some \<lparr>auth_type = Some (lit ''none''), auth_name = None, auth_value = None\<rparr>
      else if mode = lit ''header'' then
        Some \<lparr>auth_type = Some (lit ''header''),
          auth_name = Some (or_string (Option.bind previousAuth auth_name) (lit ''Authorization'')),
          auth_value = Some (or_string (Option.bind previousAuth auth_value) (lit ''Bearer {api_key}''))\<rparr>
      else
        Some \<lparr>auth_type = Some (lit ''query''),
          auth_name = Some (or_string (Option.bind previousAuth auth_name) (lit ''api_key'')),
          auth_value = Some (or_string (Option.bind previousAuth auth_value) (lit ''{api_key}''))\<rparr>)"

definition validateRouteAuth :: "adv_auth option \<Rightarrow> jstring option" where
  "validateRouteAuth auth =
     (case auth of
        None \<Rightarrow> None
      | Some a \<Rightarrow>
          if auth_type a = Some (lit ''none'') then None
          else if auth_type a \<noteq> Some (lit ''header'') \<and> auth_type a \<noteq> Some (lit ''query'')
            then Some (lit ''Auth type is invalid'')
          else if or_trimmed (auth_name a) = [] then Some (lit ''Auth name is required'')
          else if or_trimmed (auth_value a) = [] then Some (lit ''Auth value is required'')
          else None)"

section \<open>Model rules\<close>

definition parseAdvancedCustomRouteModels :: "jstring \<Rightarrow> jstring list" where
  "parseAdvancedCustomRouteModels v = js_uniq (filter (\<lambda>m. m \<noteq> []) (map js_trim (js_split 44 v)))"

definition isRegexRule :: "jstring \<Rightarrow> bool" where
  "isRegexRule rule = js_startsWith rule (lit ''re:'')"

definition getAdvancedCustomRegexModelPattern :: "jstring \<Rightarrow> jstring" where
  "getAdvancedCustomRegexModelPattern rule = drop 3 rule"

record path_state =
  catchAllIndex :: "nat option"
  path_models :: "(jstring \<times> nat) list"

definition reject :: "nat \<Rightarrow> jstring \<Rightarrow> adv_error" where
  "reject i msg = \<lparr>err_message = msg, err_routeIndex = Some i\<rparr>"

text \<open>The loop over the rules of one route; the rules seen in this route and those of the path.\<close>

fun checkModels :: "nat \<Rightarrow> jstring list \<Rightarrow> jstring list \<Rightarrow> (jstring \<times> nat) list \<Rightarrow> adv_error + (jstring \<times> nat) list" where
  "checkModels i [] seen st = Inr st"
| "checkModels i (m # ms) seen st =
     (if isRegexRule m \<and> getAdvancedCustomRegexModelPattern m = [] then
        Inl (reject i (lit ''Model regex cannot be empty''))
      else if m \<in> set seen then Inl (reject i (lit ''Duplicate model in route models''))
      else if map_of st m \<noteq> None then
        Inl (reject i (lit ''Route models must be unique for the same incoming path''))
      else checkModels i ms (m # seen) (AList.update m i st))"

definition validateAdvancedCustomRouteModels ::
  "nat \<Rightarrow> jstring \<Rightarrow> jstring list \<Rightarrow> (jstring \<times> path_state) list \<Rightarrow> adv_error + (jstring \<times> path_state) list" where
  "validateAdvancedCustomRouteModels i incomingPath ms paths =
     (let st = (case map_of paths incomingPath of
                  Some st \<Rightarrow> st | None \<Rightarrow> \<lparr>catchAllIndex = None, path_models = []\<rparr>)
      in if ms = [] then
           (if catchAllIndex st \<noteq> None then
              Inl (reject i (lit ''Only one catch-all route is allowed for the same incoming path''))
            else Inr (AList.update incomingPath (st\<lparr>catchAllIndex := Some i\<rparr>) paths))
         else if catchAllIndex st \<noteq> None then
           Inl (reject i (lit ''Catch-all route must be last for the same incoming path''))
         else
           (case checkModels i ms [] (path_models st) of
              Inl err \<Rightarrow> Inl err
            | Inr found \<Rightarrow> Inr (AList.update incomingPath (st\<lparr>path_models := found\<rparr>) paths)))"

section \<open>The validator\<close>

type_synonym url_parser = "jstring \<Rightarrow> (jstring \<times> jstring) option" \<comment> \<open>protocol and host of a valid URL\<close>

definition isFullHttpURLOrAbsolutePath :: "url_parser \<Rightarrow> jstring \<Rightarrow> bool" where
  "isFullHttpURLOrAbsolutePath url v =
     (if js_startsWith v (lit ''/'') then \<not> js_startsWith v (lit ''//'')
      else
        case url v of
          None \<Rightarrow> False
        | Some (protocol, host) \<Rightarrow> host \<noteq> [] \<and> (protocol = lit ''http:'' \<or> protocol = lit ''https:''))"

record loop_state =
  routeModelsByPath :: "(jstring \<times> path_state) list"
  modelListRouteIndex :: "nat option"
  balanceRouteIndex :: "nat option"

definition initialLoop :: loop_state where
  "initialLoop = \<lparr>routeModelsByPath = [], modelListRouteIndex = None, balanceRouteIndex = None\<rparr>"

text \<open>The checks on a management route: an error message, or the indices with this route entered.\<close>

definition checkManagement ::
  "nat \<Rightarrow> jstring \<Rightarrow> jstring \<Rightarrow> jstring \<Rightarrow> jstring list \<Rightarrow> loop_state \<Rightarrow> adv_error + loop_state" where
  "checkManagement i incomingPath upstreamPath conv ms st =
     (if \<not> isAdvancedCustomManagementPath incomingPath then Inr st
      else
        let isModelListRoute = (incomingPath = ADVANCED_CUSTOM_MODEL_LIST_PATH);
            existingIndex = (if isModelListRoute then modelListRouteIndex st else balanceRouteIndex st);
            routeLabel = (if isModelListRoute then lit ''OpenAI Models'' else lit ''Balance Query'')
        in if existingIndex \<noteq> None then
             Inl (reject i (lit ''Only one '' @ routeLabel @ lit '' route is allowed''))
           else if ms \<noteq> [] then
             Inl (reject i (routeLabel @ lit '' route does not support client model rules''))
           else if conv \<noteq> lit ''none'' then
             Inl (reject i (routeLabel @ lit '' route must use native forwarding''))
           else if js_includes upstreamPath (lit ''{model}'') then
             Inl (reject i (routeLabel @ lit '' upstream path must not contain {model}''))
           else
             Inr (if isModelListRoute then st\<lparr>modelListRouteIndex := Some i\<rparr>
                  else st\<lparr>balanceRouteIndex := Some i\<rparr>))"

definition checkTarget :: "url_parser \<Rightarrow> nat \<Rightarrow> jstring \<Rightarrow> jstring \<Rightarrow> jstring \<Rightarrow> adv_auth option \<Rightarrow> adv_error option" where
  "checkTarget url i incomingPath upstreamPath conv auth =
     (if upstreamPath = [] then Some (reject i (lit ''Upstream path is required''))
      else if \<not> isFullHttpURLOrAbsolutePath url upstreamPath then
        Some (reject i (lit ''Upstream path must be a full URL or a path starting with /''))
      else if \<not> isAdvancedCustomConverter conv then Some (reject i (lit ''Converter is not registered''))
      else if \<not> isConverterPathAllowed incomingPath conv then
        Some (reject i (lit ''Converter does not match incoming path''))
      else map_option (reject i) (validateRouteAuth auth))"

definition validateRoute :: "url_parser \<Rightarrow> nat \<Rightarrow> adv_route \<Rightarrow> loop_state \<Rightarrow> adv_error + loop_state" where
  "validateRoute url i route st =
     (let incomingPath = or_trimmed (incoming_path route);
          upstreamPath = getAdvancedCustomRouteUpstreamPath route;
          conv = or_string (converter route) (lit ''none'');
          routeModels = normalizeAdvancedCustomRouteModels (models route)
      in if incomingPath = [] then Inl (reject i (lit ''Incoming path is required''))
         else if \<not> js_startsWith incomingPath (lit ''/'') then
           Inl (reject i (lit ''Incoming path must start with /''))
         else if js_includes incomingPath (lit ''?'') then
           Inl (reject i (lit ''Incoming path must not include query''))
         else
           case checkManagement i incomingPath upstreamPath conv routeModels st of
             Inl err \<Rightarrow> Inl err
           | Inr st \<Rightarrow>
               (case validateAdvancedCustomRouteModels i incomingPath routeModels (routeModelsByPath st) of
                  Inl err \<Rightarrow> Inl err
                | Inr paths \<Rightarrow>
                    (case checkTarget url i incomingPath upstreamPath conv (route_auth route) of
                       Some err \<Rightarrow> Inl err
                     | None \<Rightarrow> Inr (st\<lparr>routeModelsByPath := paths\<rparr>))))"

fun validateRoutes :: "url_parser \<Rightarrow> nat \<Rightarrow> adv_route list \<Rightarrow> loop_state \<Rightarrow> adv_error option" where
  "validateRoutes url i [] st = None"
| "validateRoutes url i (r # rs) st =
     (case validateRoute url i r st of Inl err \<Rightarrow> Some err | Inr st' \<Rightarrow> validateRoutes url (i + 1) rs st')"

definition validateAdvancedCustomConfig :: "url_parser \<Rightarrow> adv_config option \<Rightarrow> adv_error option" where
  "validateAdvancedCustomConfig url c =
     (case c of
        None \<Rightarrow> Some \<lparr>err_message = lit ''Advanced custom configuration is required'', err_routeIndex = None\<rparr>
      | Some c \<Rightarrow>
          if normalizedRoutes c = [] then
            Some \<lparr>err_message = lit ''Advanced custom configuration requires at least one route'', err_routeIndex = None\<rparr>
          else validateRoutes url 0 (normalizedRoutes c) initialLoop)"

section \<open>Queries on a configuration\<close>

definition hasValidAdvancedCustomModelListRoute :: "url_parser \<Rightarrow> adv_config option \<Rightarrow> bool" where
  "hasValidAdvancedCustomModelListRoute url c =
     (case c of
        None \<Rightarrow> False
      | Some c \<Rightarrow>
          validateAdvancedCustomConfig url (Some c) = None \<and>
          list_ex (\<lambda>r. map_option js_trim (incoming_path r) = Some ADVANCED_CUSTOM_MODEL_LIST_PATH)
            (normalizedRoutes c))"

definition advancedCustomConfigUsesRelativeUpstreamPath :: "adv_config option \<Rightarrow> bool" where
  "advancedCustomConfigUsesRelativeUpstreamPath c =
     (case c of
        None \<Rightarrow> False
      | Some c \<Rightarrow>
          list_ex (\<lambda>r. js_startsWith (getAdvancedCustomRouteUpstreamPath r) (lit ''/'')) (normalizedRoutes c))"

text \<open>\<open>decode\<close> is \<open>JSON.parse\<close> followed by the check that the value is an object and the cast to a
  configuration; \<open>printed\<close> is \<open>JSON.stringify(_, null, 2)\<close>.\<close>

definition parseAdvancedCustomConfig :: "(jstring \<Rightarrow> adv_config option) \<Rightarrow> jstring option \<Rightarrow> adv_config option" where
  "parseAdvancedCustomConfig decode v =
     (case v of
        None \<Rightarrow> None
      | Some s \<Rightarrow> if js_trim s = [] then None else map_option normalizeAdvancedCustomConfig (decode s))"

definition stringifyAdvancedCustomConfig :: "(adv_config \<Rightarrow> jstring) \<Rightarrow> adv_config \<Rightarrow> jstring" where
  "stringifyAdvancedCustomConfig printed c = printed (normalizeAdvancedCustomConfig c)"

definition getAdvancedCustomRouteSummaryLabel :: "adv_route \<Rightarrow> jstring option" where
  "getAdvancedCustomRouteSummaryLabel r =
     (let incomingPath = or_trimmed (incoming_path r)
      in if incomingPath = [] then None
         else Some (or_string (map_of ADVANCED_CUSTOM_ROUTE_SUMMARY_LABELS incomingPath)
                (getAdvancedCustomIncomingPathLabel incomingPath)))"

record adv_stats =
  routeCount :: nat
  stats_valid :: bool
  routeTypeLabels :: "jstring list"

definition getAdvancedCustomStats ::
  "url_parser \<Rightarrow> (jstring \<Rightarrow> adv_config option) \<Rightarrow> jstring option \<Rightarrow> adv_stats" where
  "getAdvancedCustomStats url decode v =
     (case parseAdvancedCustomConfig decode v of
        None \<Rightarrow> \<lparr>routeCount = 0, stats_valid = False, routeTypeLabels = []\<rparr>
      | Some c \<Rightarrow>
          let rs = normalizedRoutes c
          in \<lparr>routeCount = length rs,
              stats_valid = (validateAdvancedCustomConfig url (Some (normalizeAdvancedCustomConfig c)) = None),
              routeTypeLabels = js_uniq (filter (\<lambda>l. l \<noteq> [])
                (List.map_filter getAdvancedCustomRouteSummaryLabel rs))\<rparr>)"

end
