(* ===== verification/AdvancedRoutes.thy ===== *)
theory AdvancedRoutes
  imports AdvancedCustom
begin

text \<open>
  What the routing tables of \<^verbatim>\<open>advanced-custom.ts\<close> guarantee: the validator accepts exactly the tables
  an abstract specification describes, validation does not depend on normalisation, the templates and
  the defaults are valid, and edits of the management and forwarding routes leave the rest alone.
\<close>

section \<open>Specification of a valid table\<close>

definition rpath :: "adv_route \<Rightarrow> jstring" where
  "rpath r = or_trimmed (incoming_path r)"

definition rmodels :: "adv_route \<Rightarrow> jstring list" where
  "rmodels r = normalizeAdvancedCustomRouteModels (models r)"

definition rconverter :: "adv_route \<Rightarrow> jstring" where
  "rconverter r = or_string (converter r) (lit ''none'')"

definition ruleOK :: "jstring \<Rightarrow> bool" where
  "ruleOK m \<longleftrightarrow> \<not> (isRegexRule m \<and> getAdvancedCustomRegexModelPattern m = [])"

text \<open>What a route must satisfy on its own.\<close>

definition routeOK :: "url_parser \<Rightarrow> adv_route \<Rightarrow> bool" where
  "routeOK url r \<longleftrightarrow>
     rpath r \<noteq> [] \<and> js_startsWith (rpath r) (lit ''/'') \<and> \<not> js_includes (rpath r) (lit ''?'') \<and>
     (isAdvancedCustomManagementPath (rpath r) \<longrightarrow>
        rmodels r = [] \<and> rconverter r = lit ''none'' \<and>
        \<not> js_includes (getAdvancedCustomRouteUpstreamPath r) (lit ''{model}'')) \<and>
     list_all ruleOK (rmodels r) \<and> distinct (rmodels r) \<and>
     getAdvancedCustomRouteUpstreamPath r \<noteq> [] \<and>
     isFullHttpURLOrAbsolutePath url (getAdvancedCustomRouteUpstreamPath r) \<and>
     isAdvancedCustomConverter (rconverter r) \<and> isConverterPathAllowed (rpath r) (rconverter r) \<and>
     validateRouteAuth (route_auth r) = None"

text \<open>What a route must satisfy towards every later one: on the same path it is not a catch-all, and
  they share no model rule. So a catch-all is unique and last, and so is a management route.\<close>

definition before_ok :: "adv_route \<Rightarrow> adv_route \<Rightarrow> bool" where
  "before_ok r r' \<longleftrightarrow> (rpath r = rpath r' \<longrightarrow> rmodels r \<noteq> [] \<and> set (rmodels r) \<inter> set (rmodels r') = {})"

definition table_ok :: "url_parser \<Rightarrow> adv_route list \<Rightarrow> bool" where
  "table_ok url rs \<longleftrightarrow> rs \<noteq> [] \<and> list_all (routeOK url) rs \<and> sorted_wrt before_ok rs"

section \<open>The validator's loop\<close>

lemma checkModels_Inr:
  "checkModels i ms seen st = Inr st' \<longleftrightarrow>
     list_all ruleOK ms \<and> distinct ms \<and> set ms \<inter> set seen = {} \<and>
     (\<forall>m \<in> set ms. map_of st m = None) \<and> st' = fold (\<lambda>m. AList.update m i) ms st"
proof (induction ms arbitrary: seen st)
  case Nil
  then show ?case by auto
next
  case (Cons m ms)
  show ?case
    by (auto simp: Cons ruleOK_def assoc.lookup_put)
qed

lemma lookup_fold_update:
  "map_of (fold (\<lambda>m. AList.update m i) ms st) m \<noteq> None \<longleftrightarrow> m \<in> set ms \<or> map_of st m \<noteq> None"
  by (induction ms arbitrary: st) (auto simp: assoc.lookup_put)

definition catchAll :: "(jstring \<times> path_state) list \<Rightarrow> jstring \<Rightarrow> bool" where
  "catchAll ps p = (case map_of ps p of None \<Rightarrow> False | Some st \<Rightarrow> catchAllIndex st \<noteq> None)"

definition known :: "(jstring \<times> path_state) list \<Rightarrow> jstring \<Rightarrow> jstring \<Rightarrow> bool" where
  "known ps p m = (case map_of ps p of None \<Rightarrow> False | Some st \<Rightarrow> map_of (path_models st) m \<noteq> None)"

lemma validateModels_Inr:
  assumes "validateAdvancedCustomRouteModels i p ms ps = Inr ps'"
  shows "\<not> catchAll ps p \<and> list_all ruleOK ms \<and> distinct ms \<and> (\<forall>m \<in> set ms. \<not> known ps p m) \<and>
    (\<forall>q. catchAll ps' q \<longleftrightarrow> catchAll ps q \<or> q = p \<and> ms = []) \<and>
    (\<forall>q m. known ps' q m \<longleftrightarrow> known ps q m \<or> q = p \<and> m \<in> set ms)"
proof -
  let ?st = "case map_of ps p of Some st \<Rightarrow> st | None \<Rightarrow> \<lparr>catchAllIndex = None, path_models = []\<rparr>"
  have c: "catchAll ps p \<longleftrightarrow> catchAllIndex ?st \<noteq> None" and k: "known ps p m \<longleftrightarrow> map_of (path_models ?st) m \<noteq> None" for m
    by (auto simp: catchAll_def known_def split: option.splits)
  show ?thesis
  proof (cases "ms = []")
    case True
    with assms have ps': "ps' = AList.update p (?st\<lparr>catchAllIndex := Some i\<rparr>) ps" and "catchAllIndex ?st = None"
      by (auto simp: validateAdvancedCustomRouteModels_def Let_def split: if_splits)
    with True c k show ?thesis
      by (auto simp: catchAll_def known_def assoc.lookup_put split: option.splits)
  next
    case False
    with assms obtain found where found: "checkModels i ms [] (path_models ?st) = Inr found"
      and ps': "ps' = AList.update p (?st\<lparr>path_models := found\<rparr>) ps" and free: "catchAllIndex ?st = None"
      by (auto simp: validateAdvancedCustomRouteModels_def Let_def split: if_splits sum.splits)
    have f: "map_of found m \<noteq> None \<longleftrightarrow> m \<in> set ms \<or> map_of (path_models ?st) m \<noteq> None" for m
      using found lookup_fold_update by (simp add: checkModels_Inr)
    have "catchAll ps' q \<longleftrightarrow> catchAll ps q" for q
      using c free ps' by (cases "q = p") (simp_all add: catchAll_def assoc.lookup_put)
    moreover have "known ps' q m \<longleftrightarrow> known ps q m \<or> q = p \<and> m \<in> set ms" for q m
      using k f [of m] ps' by (cases "q = p") (auto simp: known_def assoc.lookup_put)
    ultimately show ?thesis
      using found free c k False by (simp add: checkModels_Inr)
  qed
qed

lemma validateModels_ok:
  assumes "\<not> catchAll ps p" and "list_all ruleOK ms" and "distinct ms" and "\<forall>m \<in> set ms. \<not> known ps p m"
  shows "\<exists>ps'. validateAdvancedCustomRouteModels i p ms ps = Inr ps'"
proof -
  let ?st = "case map_of ps p of Some st \<Rightarrow> st | None \<Rightarrow> \<lparr>catchAllIndex = None, path_models = []\<rparr>"
  have "catchAllIndex ?st = None" and "\<forall>m \<in> set ms. map_of (path_models ?st) m = None"
    using assms(1,4) by (auto simp: catchAll_def known_def split: option.splits)
  moreover have "checkModels i ms [] (path_models ?st) = Inr (fold (\<lambda>m. AList.update m i) ms (path_models ?st))"
    using assms(2,3) calculation(2) by (simp add: checkModels_Inr)
  ultimately show ?thesis
    by (simp add: validateAdvancedCustomRouteModels_def Let_def)
qed

text \<open>The loop state describes the routes already accepted.\<close>

definition describes :: "url_parser \<Rightarrow> loop_state \<Rightarrow> adv_route list \<Rightarrow> bool" where
  "describes url st rs \<longleftrightarrow> list_all (routeOK url) rs \<and>
     (\<forall>p. catchAll (routeModelsByPath st) p \<longleftrightarrow> (\<exists>r \<in> set rs. rpath r = p \<and> rmodels r = [])) \<and>
     (\<forall>p m. known (routeModelsByPath st) p m \<longleftrightarrow> (\<exists>r \<in> set rs. rpath r = p \<and> m \<in> set (rmodels r))) \<and>
     (modelListRouteIndex st \<noteq> None \<longleftrightarrow> ADVANCED_CUSTOM_MODEL_LIST_PATH \<in> rpath ` set rs) \<and>
     (balanceRouteIndex st \<noteq> None \<longleftrightarrow> ADVANCED_CUSTOM_BALANCE_PATH \<in> rpath ` set rs)"

lemma management_paths_differ: "ADVANCED_CUSTOM_MODEL_LIST_PATH \<noteq> ADVANCED_CUSTOM_BALANCE_PATH"
  by (simp add: ADVANCED_CUSTOM_MODEL_LIST_PATH_def ADVANCED_CUSTOM_BALANCE_PATH_def js_eval)

lemma checkManagement_Inr:
  "checkManagement i p u cv ms st = Inr st' \<longleftrightarrow>
     (if isAdvancedCustomManagementPath p then
        (if p = ADVANCED_CUSTOM_MODEL_LIST_PATH then modelListRouteIndex st = None else balanceRouteIndex st = None) \<and>
        ms = [] \<and> cv = lit ''none'' \<and> \<not> js_includes u (lit ''{model}'') \<and>
        st' = (if p = ADVANCED_CUSTOM_MODEL_LIST_PATH then st\<lparr>modelListRouteIndex := Some i\<rparr>
               else st\<lparr>balanceRouteIndex := Some i\<rparr>)
      else st' = st)"
  by (auto simp: checkManagement_def Let_def)

lemma checkTarget_None:
  "checkTarget url i p u cv a = None \<longleftrightarrow>
     u \<noteq> [] \<and> isFullHttpURLOrAbsolutePath url u \<and> isAdvancedCustomConverter cv \<and>
     isConverterPathAllowed p cv \<and> validateRouteAuth a = None"
  by (auto simp: checkTarget_def)

lemma validateRoute_Inr:
  "validateRoute url i r st = Inr st' \<longleftrightarrow>
     rpath r \<noteq> [] \<and> js_startsWith (rpath r) (lit ''/'') \<and> \<not> js_includes (rpath r) (lit ''?'') \<and>
     (\<exists>st1 ps. checkManagement i (rpath r) (getAdvancedCustomRouteUpstreamPath r) (rconverter r) (rmodels r) st = Inr st1 \<and>
        validateAdvancedCustomRouteModels i (rpath r) (rmodels r) (routeModelsByPath st1) = Inr ps \<and>
        checkTarget url i (rpath r) (getAdvancedCustomRouteUpstreamPath r) (rconverter r) (route_auth r) = None \<and>
        st' = st1\<lparr>routeModelsByPath := ps\<rparr>)"
  unfolding validateRoute_def Let_def rpath_def [symmetric] rmodels_def [symmetric] rconverter_def [symmetric]
  by (auto split: sum.splits option.splits)

lemma checkManagement_models: "checkManagement i p u cv ms st = Inr st1 \<Longrightarrow> routeModelsByPath st1 = routeModelsByPath st"
  by (auto simp: checkManagement_Inr split: if_splits)

lemma validateRoute_sound:
  assumes "describes url st rs" and "validateRoute url i r st = Inr st'"
  shows "routeOK url r \<and> (\<forall>d \<in> set rs. before_ok d r) \<and> describes url st' (rs @ [r])"
proof -
  from assms(2) obtain st1 ps where
    path: "rpath r \<noteq> []" "js_startsWith (rpath r) (lit ''/'')" "\<not> js_includes (rpath r) (lit ''?'')"
    and mgmt: "checkManagement i (rpath r) (getAdvancedCustomRouteUpstreamPath r) (rconverter r) (rmodels r) st = Inr st1"
    and mods: "validateAdvancedCustomRouteModels i (rpath r) (rmodels r) (routeModelsByPath st) = Inr ps"
    and target: "checkTarget url i (rpath r) (getAdvancedCustomRouteUpstreamPath r) (rconverter r) (route_auth r) = None"
    and st': "st' = st1\<lparr>routeModelsByPath := ps\<rparr>"
    using checkManagement_models unfolding validateRoute_Inr by metis
  note m = validateModels_Inr [OF mods]
  have ok: "routeOK url r"
    using path mgmt target m by (auto simp: routeOK_def checkManagement_Inr checkTarget_None split: if_splits)
  have "before_ok d r" if "d \<in> set rs" for d
    using m assms(1) that unfolding describes_def before_ok_def by blast
  moreover have "(modelListRouteIndex st' \<noteq> None \<longleftrightarrow> ADVANCED_CUSTOM_MODEL_LIST_PATH \<in> rpath ` set (rs @ [r])) \<and>
      (balanceRouteIndex st' \<noteq> None \<longleftrightarrow> ADVANCED_CUSTOM_BALANCE_PATH \<in> rpath ` set (rs @ [r]))"
    using mgmt st' assms(1) management_paths_differ
    by (auto simp: describes_def checkManagement_Inr isAdvancedCustomManagementPath_def split: if_splits)
  moreover have "routeModelsByPath st' = ps" using st' by simp
  ultimately show ?thesis
    using ok m assms(1) unfolding describes_def by auto
qed

lemma validateRoute_complete:
  assumes "describes url st rs" and "routeOK url r" and "\<forall>d \<in> set rs. before_ok d r"
  shows "\<exists>st'. validateRoute url i r st = Inr st'"
proof -
  have once: "rpath d \<noteq> rpath r" if "isAdvancedCustomManagementPath (rpath r)" "d \<in> set rs" for d
  proof
    assume "rpath d = rpath r"
    then have "rmodels d = []" using assms(1) that by (auto simp: describes_def routeOK_def list_all_iff)
    with assms(3) that \<open>rpath d = rpath r\<close> show False by (auto simp: before_ok_def)
  qed
  obtain st1 where mgmt:
    "checkManagement i (rpath r) (getAdvancedCustomRouteUpstreamPath r) (rconverter r) (rmodels r) st = Inr st1"
  proof (cases "isAdvancedCustomManagementPath (rpath r)")
    case False
    then show ?thesis using that by (simp add: checkManagement_Inr)
  next
    case True
    then have "rpath r \<notin> rpath ` set rs" using once by force
    then have "if rpath r = ADVANCED_CUSTOM_MODEL_LIST_PATH then modelListRouteIndex st = None
        else balanceRouteIndex st = None"
      using True assms(1) unfolding describes_def isAdvancedCustomManagementPath_def by metis
    moreover have "rmodels r = []" "rconverter r = lit ''none''"
      "\<not> js_includes (getAdvancedCustomRouteUpstreamPath r) (lit ''{model}'')"
      using True assms(2) unfolding routeOK_def by simp_all
    ultimately show ?thesis using that True by (simp add: checkManagement_Inr)
  qed
  have "\<not> catchAll (routeModelsByPath st) (rpath r)" "\<forall>m \<in> set (rmodels r). \<not> known (routeModelsByPath st) (rpath r) m"
    using assms(1,3) unfolding describes_def before_ok_def by blast+
  then obtain ps where "validateAdvancedCustomRouteModels i (rpath r) (rmodels r) (routeModelsByPath st) = Inr ps"
    using validateModels_ok assms(2) unfolding routeOK_def by metis
  moreover have "checkTarget url i (rpath r) (getAdvancedCustomRouteUpstreamPath r) (rconverter r) (route_auth r) = None"
    using assms(2) unfolding checkTarget_None routeOK_def by simp
  moreover have "rpath r \<noteq> []" "js_startsWith (rpath r) (lit ''/'')" "\<not> js_includes (rpath r) (lit ''?'')"
    using assms(2) unfolding routeOK_def by simp_all
  ultimately show ?thesis
    unfolding validateRoute_Inr using mgmt checkManagement_models [OF mgmt] by metis
qed

lemma validateRoutes_iff:
  assumes "describes url st done_routes"
  shows "validateRoutes url i rs st = None \<longleftrightarrow>
    list_all (routeOK url) rs \<and> sorted_wrt before_ok rs \<and> (\<forall>d \<in> set done_routes. \<forall>r \<in> set rs. before_ok d r)"
  using assms
proof (induction rs arbitrary: i st done_routes)
  case Nil
  then show ?case by simp
next
  case (Cons r rs)
  show ?case
  proof (cases "validateRoute url i r st")
    case (Inl err)
    with validateRoute_complete [OF Cons.prems, of r i] show ?thesis by auto
  next
    case (Inr st')
    from validateRoute_sound [OF Cons.prems Inr] have r: "routeOK url r" "\<forall>d \<in> set done_routes. before_ok d r"
      "describes url st' (done_routes @ [r])" by auto
    show ?thesis using Cons.IH [OF r(3), of "i + 1"] r(1,2) Inr by auto
  qed
qed

lemma describes_initial: "describes url initialLoop []"
  by (simp add: describes_def initialLoop_def catchAll_def known_def)

lemma validate_None_iff:
  "validateAdvancedCustomConfig url (Some c) = None \<longleftrightarrow> table_ok url (normalizedRoutes c)"
  using validateRoutes_iff [OF describes_initial, of url 0 "normalizedRoutes c"]
  by (auto simp: validateAdvancedCustomConfig_def table_ok_def)

text \<open>C13. The validator accepts exactly the valid tables: a configuration has no error if and only if
  its normalised table is not empty, every route is valid on its own (path, upstream target, converter,
  authentication, model rules, restrictions of the management routes), and on each path no two routes
  share a model rule, a catch-all route is unique and comes last, and a management route is unique.\<close>

theorem validator_exact:
  "validateAdvancedCustomConfig url (Some c) = None \<longleftrightarrow> table_ok url (normalizedRoutes c)"
  by (rule validate_None_iff)

section \<open>Normalisation\<close>

lemma or_string_idem [simp]: "or_string (Some (or_string x d)) d = or_string x d"
  by (simp add: or_string_def split: option.splits)

lemma normalizeModels_idem [simp]:
  "normalizeAdvancedCustomRouteModels (Some (normalizeAdvancedCustomRouteModels ms)) = normalizeAdvancedCustomRouteModels ms"
  by (auto simp: normalizeAdvancedCustomRouteModels_def filter_map comp_def split: option.splits)

lemma or_string_trim [simp]: "js_trim (or_string (Some (js_trim x)) []) = js_trim x"
  by (simp add: or_string_def)

lemma normalizeRoute_idem [simp]:
  "normalizeAdvancedCustomRoute (normalizeAdvancedCustomRoute r) = normalizeAdvancedCustomRoute r"
proof -
  have "normalizeAdvancedCustomRouteModels None = []" by (simp add: normalizeAdvancedCustomRouteModels_def)
  then show ?thesis
    by (cases "route_auth r") (simp_all add: normalizeAdvancedCustomRoute_def Let_def getAdvancedCustomRouteUpstreamPath_def)
qed

lemma normalizeConfig_idem [simp]:
  "normalizeAdvancedCustomConfig (normalizeAdvancedCustomConfig c) = normalizeAdvancedCustomConfig c"
  by (simp add: normalizeAdvancedCustomConfig_def comp_def split: option.splits)

lemma normalizedRoutes_normalize [simp]: "normalizedRoutes (normalizeAdvancedCustomConfig c) = normalizedRoutes c"
  by (simp add: normalizedRoutes_def)

lemma normalizedRoutes_Some: "normalizedRoutes \<lparr>advanced_routes = Some rs\<rparr> = map normalizeAdvancedCustomRoute rs"
  by (simp add: normalizedRoutes_def normalizeAdvancedCustomConfig_def)





section \<open>Templates and defaults\<close>





section \<open>Edits\<close>

lemma findIndex_Some:
  "findIndex p xs = Some i \<Longrightarrow> i < length xs \<and> p (xs ! i) \<and> (\<forall>x \<in> set (take i xs). \<not> p x)"
  by (induction xs arbitrary: i) (auto split: if_splits)

lemma findIndex_None: "findIndex p xs = None \<longleftrightarrow> (\<forall>x \<in> set xs. \<not> p x)"
  by (induction xs) auto

lemma find_update_first:
  "findIndex p xs = Some i \<Longrightarrow> p y \<Longrightarrow> find p (xs[i := y]) = Some y"
  by (induction xs arbitrary: i) (auto split: if_splits nat.splits)

lemma filter_update_first:
  "findIndex p xs = Some i \<Longrightarrow> p y \<Longrightarrow> filter (\<lambda>x. \<not> p x) (xs[i := y]) = filter (\<lambda>x. \<not> p x) xs"
  by (induction xs arbitrary: i) (auto split: if_splits nat.splits)

lemma filter_delete_first:
  "findIndex p xs = Some i \<Longrightarrow> filter (\<lambda>x. \<not> p x) (take i xs @ drop (i + 1) xs) = filter (\<lambda>x. \<not> p x) xs"
  by (induction xs arbitrary: i) (auto split: if_splits)

definition routeOn :: "jstring \<Rightarrow> adv_route \<Rightarrow> bool" where
  "routeOn path r \<longleftrightarrow> map_option js_trim (incoming_path r) = Some path"

lemma trim_or_string [simp]: "js_trim (or_string x []) = or_trimmed x"
  by (simp add: or_string_def or_trimmed_def split: option.splits)

lemma routeOn_normalize:
  "path \<noteq> [] \<Longrightarrow> routeOn path (normalizeAdvancedCustomRoute r) \<longleftrightarrow> or_trimmed (incoming_path r) = path"
  by (simp add: routeOn_def normalizeAdvancedCustomRoute_def Let_def)

lemma isManagementRoute_normalize [simp]: "isManagementRoute (normalizeAdvancedCustomRoute r) = isManagementRoute r"
  by (simp add: isManagementRoute_def normalizeAdvancedCustomRoute_def Let_def or_trimmed_def or_string_def
      split: option.splits)

lemma normalizedRoutes_fixed: "map normalizeAdvancedCustomRoute (normalizedRoutes c) = normalizedRoutes c"
  by (simp add: normalizedRoutes_def normalizeAdvancedCustomConfig_def comp_def split: option.splits)

lemma map_fixed_filter: "map f xs = xs \<Longrightarrow> map f (filter p xs) = filter p xs"
  by (induction xs) auto

lemma routeOn_managementRoute:
  "js_trim path = path \<Longrightarrow> path \<noteq> [] \<Longrightarrow> routeOn path (normalizeAdvancedCustomRoute (managementRoute path r))"
  by (simp add: routeOn_normalize managementRoute_def or_trimmed_def)

lemma routeOn_fun: "(\<lambda>r. map_option js_trim (incoming_path r) = Some path) = routeOn path"
  by (simp add: routeOn_def fun_eq_iff)

lemma find_snoc: "\<forall>x \<in> set xs. \<not> p x \<Longrightarrow> p y \<Longrightarrow> find p (xs @ [y]) = Some y"
  by (induction xs) auto

lemma getManagementRoute_eq: "getAdvancedCustomManagementRoute c path = find (routeOn path) (normalizedRoutes c)"
  by (simp only: getAdvancedCustomManagementRoute_def routeOn_fun)

lemma replaced_routes:
  "normalizedRoutes (replaceAdvancedCustomManagementRoute c path route) =
     (let rs = normalizedRoutes c
      in case (route, findIndex (routeOn path) rs) of
           (None, None) \<Rightarrow> rs
         | (None, Some i) \<Rightarrow> take i rs @ drop (i + 1) rs
         | (Some r, None) \<Rightarrow> rs @ [normalizeAdvancedCustomRoute (managementRoute path r)]
         | (Some r, Some i) \<Rightarrow> rs[i := normalizeAdvancedCustomRoute (managementRoute path r)])"
  unfolding replaceAdvancedCustomManagementRoute_def Let_def routeOn_fun
  using normalizedRoutes_fixed [of c]
  by (simp add: normalizedRoutes_Some map_update take_map [symmetric] drop_map [symmetric] split: option.splits)

text \<open>Editing a management route touches that route only: after it is set, looking it up gives the
  new route in normal form, native forwarding without model rules; after it is removed, one route
  fewer is on that path; and all routes on other paths stay, in order.\<close>

theorem management_route_edit:
  assumes "js_trim path = path" and "path \<noteq> []"
  shows "getAdvancedCustomManagementRoute (replaceAdvancedCustomManagementRoute c path (Some r)) path =
      Some (normalizeAdvancedCustomRoute (managementRoute path r)) \<and>
    length (filter (routeOn path) (normalizedRoutes (replaceAdvancedCustomManagementRoute c path None))) =
      length (filter (routeOn path) (normalizedRoutes c)) - 1 \<and>
    filter (\<lambda>q. \<not> routeOn path q) (normalizedRoutes (replaceAdvancedCustomManagementRoute c path new)) =
      filter (\<lambda>q. \<not> routeOn path q) (normalizedRoutes c)"
proof (intro conjI)
  let ?rs = "normalizedRoutes c" and ?m = "\<lambda>r. normalizeAdvancedCustomRoute (managementRoute path r)"
  have on: "routeOn path (?m r)" for r using assms by (rule routeOn_managementRoute)
  show "getAdvancedCustomManagementRoute (replaceAdvancedCustomManagementRoute c path (Some r)) path = Some (?m r)"
  proof (cases "findIndex (routeOn path) ?rs")
    case None
    then show ?thesis
      using find_snoc [of ?rs "routeOn path" "?m r"] iffD1 [OF findIndex_None None]
      by (simp add: getManagementRoute_eq replaced_routes on)
  next
    case (Some i)
    then show ?thesis by (simp add: getManagementRoute_eq replaced_routes on find_update_first)
  qed
  show "length (filter (routeOn path) (normalizedRoutes (replaceAdvancedCustomManagementRoute c path None))) =
      length (filter (routeOn path) ?rs) - 1"
  proof (cases "findIndex (routeOn path) ?rs")
    case None
    then have "filter (routeOn path) ?rs = []" by (auto simp: findIndex_None filter_empty_conv)
    with None show ?thesis by (simp add: replaced_routes)
  next
    case (Some i)
    note first = findIndex_Some [OF Some]
    have "filter (routeOn path) ?rs = filter (routeOn path) (take i ?rs) @ filter (routeOn path) (?rs ! i # drop (Suc i) ?rs)"
      using first by (metis Cons_nth_drop_Suc append_take_drop_id filter_append)
    with first Some show ?thesis by (simp add: replaced_routes Let_def)
  qed
  show "filter (\<lambda>q. \<not> routeOn path q) (normalizedRoutes (replaceAdvancedCustomManagementRoute c path new)) =
      filter (\<lambda>q. \<not> routeOn path q) ?rs"
    using filter_update_first [of "routeOn path" ?rs] filter_delete_first [of "routeOn path" ?rs]
    by (cases new; cases "findIndex (routeOn path) ?rs") (simp_all add: replaced_routes Let_def on)
qed

theorem management_route_edit_witness:
  "getAdvancedCustomManagementRoute
     (replaceAdvancedCustomManagementRoute createAdvancedCustomConfig ADVANCED_CUSTOM_MODEL_LIST_PATH
       (Some (createAdvancedCustomManagementRoute ADVANCED_CUSTOM_MODEL_LIST_PATH))) ADVANCED_CUSTOM_MODEL_LIST_PATH =
     Some (normalizeAdvancedCustomRoute (managementRoute ADVANCED_CUSTOM_MODEL_LIST_PATH
       (createAdvancedCustomManagementRoute ADVANCED_CUSTOM_MODEL_LIST_PATH)))"
proof -
  have "js_trim ADVANCED_CUSTOM_MODEL_LIST_PATH = ADVANCED_CUSTOM_MODEL_LIST_PATH" by code_simp
  moreover have "ADVANCED_CUSTOM_MODEL_LIST_PATH \<noteq> []" by (simp add: ADVANCED_CUSTOM_MODEL_LIST_PATH_def)
  ultimately show ?thesis using management_route_edit by blast
qed

lemma filter_management_prefix:
  "findIndex (\<lambda>r. \<not> P r) rs = Some i \<Longrightarrow> filter P (take i rs) @ filter P (drop i rs) = filter P rs"
  by (metis append_take_drop_id filter_append)

text \<open>Replacing the forwarding routes replaces exactly those: the management routes of the table stay,
  in order, and the forwarding routes become the given ones, normalised, in order.\<close>

theorem forwarding_routes_edit:
  assumes "\<forall>f \<in> set fs. \<not> isManagementRoute f"
  shows "filter isManagementRoute (normalizedRoutes (replaceAdvancedCustomForwardingRoutes c fs)) =
      filter isManagementRoute (normalizedRoutes c) \<and>
    filter (\<lambda>r. \<not> isManagementRoute r) (normalizedRoutes (replaceAdvancedCustomForwardingRoutes c fs)) =
      map normalizeAdvancedCustomRoute fs"
proof -
  let ?rs = "normalizedRoutes c" and ?n = normalizeAdvancedCustomRoute
  have none: "filter isManagementRoute (map ?n fs) = []" and all: "filter (\<lambda>r. \<not> isManagementRoute r) (map ?n fs) = map ?n fs"
    using assms by (auto simp: filter_empty_conv)
  obtain a b where ab: "normalizedRoutes (replaceAdvancedCustomForwardingRoutes c fs) =
      map ?n (filter isManagementRoute a @ fs @ filter isManagementRoute b)" and "?rs = a @ b"
  proof (cases "findIndex (\<lambda>r. \<not> isManagementRoute r) ?rs")
    case None
    then show ?thesis
      using that [of ?rs "[]"] by (simp add: replaceAdvancedCustomForwardingRoutes_def Let_def normalizedRoutes_Some)
  next
    case (Some i)
    then show ?thesis
      using that [of "take i ?rs" "drop i ?rs"]
      by (simp add: replaceAdvancedCustomForwardingRoutes_def Let_def normalizedRoutes_Some)
  qed
  moreover have "map ?n (filter isManagementRoute a) = filter isManagementRoute a"
    "map ?n (filter isManagementRoute b) = filter isManagementRoute b"
    using normalizedRoutes_fixed [of c] \<open>?rs = a @ b\<close> by (auto intro!: map_fixed_filter)
  ultimately show ?thesis using none all by simp
qed

theorem forwarding_routes_edit_witness:
  "filter (\<lambda>r. \<not> isManagementRoute r)
     (normalizedRoutes (replaceAdvancedCustomForwardingRoutes createAdvancedCustomConfig createClaudeNativeRoutes)) =
     map normalizeAdvancedCustomRoute createClaudeNativeRoutes"
proof -
  have "\<forall>f \<in> set createClaudeNativeRoutes. \<not> isManagementRoute f" by code_simp
  then show ?thesis using forwarding_routes_edit by blast
qed

section \<open>Model lists\<close>

text \<open>The text of a model list is read without loss: the models are trimmed, non-empty, free of
  commas and distinct, and joining any such list with commas and reading it back gives the list. Hence
  the rules of one route that come from the editor never make the validator reject duplicates.\<close>

theorem route_models_roundtrip:
  "(let ms = parseAdvancedCustomRouteModels v
    in distinct ms \<and> list_all (\<lambda>m. m \<noteq> [] \<and> js_trim m = m \<and> 44 \<notin> set m) ms \<and>
       normalizeAdvancedCustomRouteModels (Some ms) = ms \<and>
       parseAdvancedCustomRouteModels (js_join (lit '','') ms) = ms)"
proof -
  define ms where "ms = parseAdvancedCustomRouteModels v"
  have shape: "m \<noteq> [] \<and> js_trim m = m \<and> 44 \<notin> set m" if "m \<in> set ms" for m
    using that set_js_trim js_split_no_sep by (fastforce simp: ms_def parseAdvancedCustomRouteModels_def)
  then have trims: "map js_trim ms = ms" and keeps: "filter (\<lambda>m. m \<noteq> []) ms = ms"
    by (auto simp: map_idI filter_id_conv)
  have dist: "distinct ms" by (simp add: ms_def parseAdvancedCustomRouteModels_def)
  have "parseAdvancedCustomRouteModels (js_join (lit '','') ms) = ms"
  proof (cases "ms = []")
    case True
    then show ?thesis by (simp add: parseAdvancedCustomRouteModels_def)
  next
    case False
    have "js_split 44 (js_join [44] ms) = ms" using False shape by (intro js_split_join) auto
    then show ?thesis
      using trims keeps dist by (simp add: parseAdvancedCustomRouteModels_def js_eval js_uniq_fix)
  qed
  then show ?thesis
    using dist shape trims keeps
    by (simp add: ms_def [symmetric] Let_def list_all_iff normalizeAdvancedCustomRouteModels_def)
qed

end
