(* ===== verification/PlaygroundMessages.thy ===== *)
theory PlaygroundMessages
  imports JSPrelude
begin

text \<open>
  \<^verbatim>\<open>web/src/features/playground/types.ts\<close>, \<^verbatim>\<open>constants.ts\<close> and \<^verbatim>\<open>lib/message/*.ts\<close>: the messages of the
  chat playground and the functions that create, edit, stream into, finish and display them.

  Times are the integers \<open>Date.now()\<close> returns and are arguments; identifiers from \<open>nanoid\<close> are
  arguments too. A member that may be \<open>undefined\<close> is an option. Texts shown to the user are passed
  through the translation function \<open>tr\<close> where the code calls \<open>t\<close>.
\<close>

section \<open>Data\<close>

datatype message_role = User | Assistant | System

datatype message_status = MLoading | MStreaming | MComplete | MError

record message_version =
  v_id :: jstring
  v_content :: jstring

record reasoning_state =
  rs_content :: jstring
  rs_duration :: int
  rs_startedAt :: "int option"
  rs_completedAt :: "int option"
  rs_durationMs :: "int option"

record message =
  m_key :: jstring
  m_from :: message_role
  m_versions :: "message_version list"
  m_createdAt :: "int option"
  m_startedAt :: "int option"
  m_completedAt :: "int option"
  m_durationMs :: "int option"
  m_sources :: "(jstring \<times> jstring) list option"
  m_reasoning :: "reasoning_state option"
  m_isReasoningStreaming :: "bool option"
  m_isReasoningComplete :: "bool option"
  m_isContentComplete :: "bool option"
  m_status :: "message_status option"
  m_errorCode :: "jstring option"

section \<open>Creating and reading messages\<close>

definition createMessageVersion :: "jstring \<Rightarrow> jstring \<Rightarrow> message_version" where
  "createMessageVersion nid content = \<lparr>v_id = nid, v_content = content\<rparr>"

definition getCurrentVersion :: "message \<Rightarrow> message_version" where
  "getCurrentVersion m =
     (case m_versions m of [] \<Rightarrow> \<lparr>v_id = lit ''default'', v_content = []\<rparr> | v # _ \<Rightarrow> v)"

definition getMessageContent :: "message \<Rightarrow> jstring" where
  "getMessageContent m = v_content (getCurrentVersion m)"

definition hasMessageContent :: "message \<Rightarrow> bool" where
  "hasMessageContent m \<longleftrightarrow> js_trim (getMessageContent m) \<noteq> []"

definition updateCurrentVersionContent :: "message \<Rightarrow> jstring \<Rightarrow> message" where
  "updateCurrentVersionContent m content =
     m\<lparr>m_versions := [(getCurrentVersion m)\<lparr>v_content := content\<rparr>]\<rparr>"

definition emptyMessage :: "jstring \<Rightarrow> message_role \<Rightarrow> message_version list \<Rightarrow> message" where
  "emptyMessage k r vs = \<lparr>m_key = k, m_from = r, m_versions = vs, m_createdAt = None, m_startedAt = None,
     m_completedAt = None, m_durationMs = None, m_sources = None, m_reasoning = None,
     m_isReasoningStreaming = None, m_isReasoningComplete = None, m_isContentComplete = None,
     m_status = None, m_errorCode = None\<rparr>"

definition createUserMessage :: "jstring \<Rightarrow> jstring \<Rightarrow> jstring \<Rightarrow> int \<Rightarrow> message" where
  "createUserMessage k vid content createdAt =
     (emptyMessage k User [createMessageVersion vid content])\<lparr>m_createdAt := Some createdAt\<rparr>"

definition createLoadingAssistantMessage :: "jstring \<Rightarrow> jstring \<Rightarrow> int \<Rightarrow> message" where
  "createLoadingAssistantMessage k vid startedAt =
     (emptyMessage k Assistant [createMessageVersion vid []])
       \<lparr>m_createdAt := Some startedAt, m_startedAt := Some startedAt, m_reasoning := None,
        m_isReasoningComplete := Some False, m_isContentComplete := Some False,
        m_isReasoningStreaming := Some False, m_status := Some MLoading\<rparr>"

datatype content_part = TextPart jstring | ImagePart jstring
datatype message_content = PlainContent jstring | PartsContent "content_part list"

definition buildMessageContent :: "jstring \<Rightarrow> jstring list \<Rightarrow> message_content" where
  "buildMessageContent txt imageUrls =
     (let validImages = filter (\<lambda>url. js_trim url \<noteq> []) imageUrls
      in if validImages = [] then PlainContent txt
         else PartsContent (TextPart txt # map (\<lambda>url. ImagePart (js_trim url)) validImages))"

fun firstText :: "content_part list \<Rightarrow> jstring" where
  "firstText [] = []"
| "firstText (TextPart s # ps) = s"
| "firstText (ImagePart u # ps) = firstText ps"

fun getTextContent :: "message_content \<Rightarrow> jstring" where
  "getTextContent (PlainContent s) = s"
| "getTextContent (PartsContent ps) = firstText ps"

definition formatMessageForAPI :: "message \<Rightarrow> message_role \<times> message_content" where
  "formatMessageForAPI m = (m_from m, PlainContent (v_content (getCurrentVersion m)))"

definition isValidMessage :: "message \<Rightarrow> bool" where
  "isValidMessage m =
     (if m_versions m = [] then False
      else if m_from m = Assistant \<and> \<not> hasMessageContent m then False
      else True)"

section \<open>Think tags\<close>

record parsed_think =
  visibleContent :: jstring
  think_reasoning :: jstring
  hasUnclosedTag :: bool

lemma js_indexOf_from_bounds:
  assumes "js_indexOf_from s p n = Some i" and "p \<noteq> []"
  shows "n \<le> i \<and> i + length p \<le> length s"
proof -
  obtain j where "js_indexOf (drop n s) p = Some j" "i = n + j"
    using assms by (auto simp: js_indexOf_from_def split: option.splits)
  with js_indexOf_bound [of "drop n s" p j] assms(2) show ?thesis by (cases p) auto
qed

text \<open>The loop of \<open>parseThinkTags\<close> from \<open>currentPos\<close>: the visible parts, the reasoning parts, and
  whether the last tag is unclosed.\<close>

function thinkLoop :: "jstring \<Rightarrow> nat \<Rightarrow> jstring list \<times> jstring list \<times> bool" where
  "thinkLoop content currentPos =
     (case js_indexOf_from content (lit ''<think>'') currentPos of
        None \<Rightarrow> (if currentPos < length content then [drop currentPos content] else [], [], False)
      | Some openPos \<Rightarrow>
          let visible = (if openPos > currentPos then [js_slice content currentPos openPos] else [])
          in case js_indexOf_from content (lit ''</think>'') (openPos + 7) of
               None \<Rightarrow> (visible, [drop (openPos + 7) content], True)
             | Some closePos \<Rightarrow>
                 let (vs, rs, u) = thinkLoop content (closePos + 8)
                 in (visible @ vs, js_slice content (openPos + 7) closePos # rs, u))"
  by pat_completeness auto
termination
proof (relation "measure (\<lambda>(content, pos). length content - pos)")
  fix content :: jstring and pos opn vis clo
  assume "js_indexOf_from content (lit ''<think>'') pos = Some opn"
    "js_indexOf_from content (lit ''</think>'') (opn + 7) = Some clo"
  then show "((content, clo + 8), content, pos) \<in> measure (\<lambda>(content, pos). length content - pos)"
    using js_indexOf_from_bounds [of content "lit ''<think>''" pos opn]
      js_indexOf_from_bounds [of content "lit ''</think>''" "opn + 7" clo] by auto
qed simp

declare thinkLoop.simps [simp del]

definition parseThinkTags :: "jstring \<Rightarrow> parsed_think" where
  "parseThinkTags content =
     (if \<not> js_includes content (lit ''<think>'') then
        \<lparr>visibleContent = content, think_reasoning = [], hasUnclosedTag = False\<rparr>
      else
        let (vs, rs, u) = thinkLoop content 0
        in \<lparr>visibleContent = js_trim (concat vs), think_reasoning = js_trim (js_join [10, 10] rs),
            hasUnclosedTag = u\<rparr>)"

section \<open>Timing\<close>

definition completeAssistantTiming :: "message \<Rightarrow> int \<Rightarrow> message" where
  "completeAssistantTiming m completedAt =
     (if m_from m \<noteq> Assistant then m
      else
        let startedAt = (case m_startedAt m of Some t \<Rightarrow> t
              | None \<Rightarrow> (case m_createdAt m of Some t \<Rightarrow> t | None \<Rightarrow> completedAt))
        in m\<lparr>m_startedAt := Some startedAt, m_completedAt := Some completedAt,
             m_durationMs := Some (max 0 (completedAt - startedAt))\<rparr>)"

definition startReasoningTiming :: "message \<Rightarrow> int \<Rightarrow> reasoning_state" where
  "startReasoningTiming m startedAt =
     (case m_reasoning m of
        None \<Rightarrow> \<lparr>rs_content = [], rs_duration = 0, rs_startedAt = Some startedAt, rs_completedAt = None,
                 rs_durationMs = None\<rparr>
      | Some r \<Rightarrow> r\<lparr>rs_startedAt := Some (case rs_startedAt r of Some t \<Rightarrow> t | None \<Rightarrow> startedAt)\<rparr>)"

text \<open>\<open>Math.ceil(durationMs / 1000)\<close> on integers.\<close>

definition ceilSeconds :: "int \<Rightarrow> int" where
  "ceilSeconds ms = - ((- ms) div 1000)"

definition completeReasoningTiming :: "message \<Rightarrow> int \<Rightarrow> message" where
  "completeReasoningTiming m completedAt =
     (case m_reasoning m of
        None \<Rightarrow> m
      | Some r \<Rightarrow>
          if rs_durationMs r \<noteq> None then m
          else
            let startedAt = (case rs_startedAt r of Some t \<Rightarrow> t
                  | None \<Rightarrow> (case m_startedAt m of Some t \<Rightarrow> t | None \<Rightarrow> completedAt));
                durationMs = max 0 (completedAt - startedAt)
            in m\<lparr>m_reasoning := Some (r\<lparr>rs_startedAt := Some startedAt, rs_completedAt := Some completedAt,
                  rs_durationMs := Some durationMs, rs_duration := ceilSeconds durationMs\<rparr>)\<rparr>)"

section \<open>Streaming\<close>

definition processStreamingContent :: "message \<Rightarrow> jstring option \<Rightarrow> int \<Rightarrow> message" where
  "processStreamingContent m contentChunk now =
     (let fullContent = (case contentChunk of
            None \<Rightarrow> getMessageContent m
          | Some c \<Rightarrow> if c = [] then getMessageContent m else getMessageContent m @ c)
      in if m_reasoning m = None \<and> \<not> js_includes fullContent (lit ''<think>'') then
           (updateCurrentVersionContent m fullContent)\<lparr>m_isReasoningStreaming := Some False\<rparr>
         else
           let parsed = parseThinkTags fullContent;
               finalReasoning = (if think_reasoning parsed \<noteq> []
                 then Some ((startReasoningTiming m now)\<lparr>rs_content := think_reasoning parsed\<rparr>)
                 else m_reasoning m)
           in (updateCurrentVersionContent m fullContent)
                \<lparr>m_reasoning := finalReasoning, m_isReasoningStreaming := Some (hasUnclosedTag parsed)\<rparr>)"

datatype chunk_type = ReasoningChunk | ContentChunk

definition getAppendableChunk :: "jstring \<Rightarrow> jstring \<Rightarrow> jstring" where
  "getAppendableChunk currentContent chunk =
     (if currentContent = [] \<or> \<not> js_startsWith chunk currentContent then chunk
      else drop (length currentContent) chunk)"

definition applyStreamingChunk :: "message \<Rightarrow> chunk_type \<Rightarrow> jstring \<Rightarrow> int \<Rightarrow> message" where
  "applyStreamingChunk m type chunk now =
     (if m_status m = Some MError then m
      else case type of
        ReasoningChunk \<Rightarrow>
          (let r = startReasoningTiming m now
           in m\<lparr>m_reasoning := Some (r\<lparr>rs_content := rs_content r @ getAppendableChunk (rs_content r) chunk\<rparr>),
                m_isReasoningStreaming := Some True, m_status := Some MStreaming\<rparr>)
      | ContentChunk \<Rightarrow>
          (let contentMessage = processStreamingContent m (Some (getAppendableChunk (getMessageContent m) chunk)) now
           in (if m_isReasoningStreaming contentMessage = Some True then contentMessage
               else completeReasoningTiming contentMessage now)\<lparr>m_status := Some MStreaming\<rparr>))"

definition finalizeMessage :: "message \<Rightarrow> jstring option \<Rightarrow> int \<Rightarrow> message" where
  "finalizeMessage m apiReasoningContent now =
     (let content = getMessageContent m;
          parsed = (if js_includes content (lit ''<think>'') then Some (parseThinkTags content) else None);
          visible = (case parsed of Some p \<Rightarrow> visibleContent p | None \<Rightarrow> content);
          candidates = filter (\<lambda>s. s \<noteq> [])
            (List.map_filter id [apiReasoningContent, map_option rs_content (m_reasoning m), map_option think_reasoning parsed]);
          finalReasoning = (case candidates of [] \<Rightarrow> [] | s # _ \<Rightarrow> s)
      in completeReasoningTiming
           ((updateCurrentVersionContent m visible)
             \<lparr>m_reasoning := (if finalReasoning \<noteq> []
                then Some ((startReasoningTiming m now)\<lparr>rs_content := finalReasoning\<rparr>) else None),
              m_isReasoningStreaming := Some False\<rparr>) now)"

definition completeAssistantMessage :: "message \<Rightarrow> int \<Rightarrow> message" where
  "completeAssistantMessage m now =
     completeAssistantTiming ((finalizeMessage m None now)\<lparr>m_status := Some MComplete\<rparr>) now"

definition isAssistantMessageFinal :: "message \<Rightarrow> bool" where
  "isAssistantMessageFinal m \<longleftrightarrow> m_status m = Some MComplete \<or> m_status m = Some MError"

definition isAssistantMessagePending :: "message \<Rightarrow> bool" where
  "isAssistantMessagePending m \<longleftrightarrow> m_status m = Some MLoading \<or> m_status m = Some MStreaming"

definition isPendingAssistantMessage :: "message option \<Rightarrow> bool" where
  "isPendingAssistantMessage m =
     (case m of None \<Rightarrow> False | Some x \<Rightarrow> m_from x = Assistant \<and> isAssistantMessagePending x)"

record completion_choice =
  ch_content :: "jstring option"
  ch_reasoning_content :: "jstring option"

definition applyChatCompletionChoice :: "message \<Rightarrow> completion_choice \<Rightarrow> int \<Rightarrow> message" where
  "applyChatCompletionChoice m choice now =
     completeAssistantTiming
       ((finalizeMessage (updateCurrentVersionContent m (case ch_content choice of None \<Rightarrow> [] | Some c \<Rightarrow> c))
          (ch_reasoning_content choice) now)\<lparr>m_status := Some MComplete\<rparr>) now"

definition hasChatCompletionChoice :: "completion_choice list option \<Rightarrow> bool" where
  "hasChatCompletionChoice choices = (case choices of Some (_ # _) \<Rightarrow> True | _ \<Rightarrow> False)"

definition applyChatCompletionResponse :: "message \<Rightarrow> completion_choice list option \<Rightarrow> int \<Rightarrow> message option" where
  "applyChatCompletionResponse m choices now =
     (case choices of Some (choice # _) \<Rightarrow> Some (applyChatCompletionChoice m choice now) | _ \<Rightarrow> None)"

text \<open>The index of the last pending assistant message.\<close>

definition lastPending :: "message list \<Rightarrow> nat option" where
  "lastPending ms = find (\<lambda>i. isPendingAssistantMessage (Some (ms ! i))) (rev [0..<length ms])"

definition interruptedText :: "(jstring \<Rightarrow> jstring) \<Rightarrow> jstring" where
  "interruptedText tr = tr (lit ''Request error occurred'') @ lit '': '' @ tr (lit ''Generation was interrupted'')"

definition sanitizePending :: "(jstring \<Rightarrow> jstring) \<Rightarrow> message \<Rightarrow> int \<Rightarrow> message" where
  "sanitizePending tr m now =
     (let finalized = finalizeMessage m None now;
          hasReasoning = (case m_reasoning finalized of None \<Rightarrow> False | Some r \<Rightarrow> js_trim (rs_content r) \<noteq> [])
      in if hasMessageContent finalized \<or> hasReasoning then
           completeAssistantTiming (finalized\<lparr>m_status := Some MComplete, m_isReasoningStreaming := Some False\<rparr>) now
         else
           completeAssistantTiming ((updateCurrentVersionContent finalized (interruptedText tr))
             \<lparr>m_status := Some MError, m_isReasoningStreaming := Some False\<rparr>) now)"

definition sanitizeMessagesOnLoad :: "(jstring \<Rightarrow> jstring) \<Rightarrow> message list \<Rightarrow> int \<Rightarrow> message list" where
  "sanitizeMessagesOnLoad tr ms now =
     (case lastPending ms of None \<Rightarrow> ms | Some i \<Rightarrow> ms[i := sanitizePending tr (ms ! i) now])"

section \<open>Updating the last message\<close>

definition updateLastAssistantMessage :: "message list \<Rightarrow> (message \<Rightarrow> message) \<Rightarrow> message list" where
  "updateLastAssistantMessage ms updater =
     (if ms = [] then ms
      else if m_from (last ms) \<noteq> Assistant then ms
      else butlast ms @ [updater (last ms)])"

definition updateAssistantMessageWithError ::
  "message list \<Rightarrow> jstring \<Rightarrow> jstring option \<Rightarrow> jstring \<Rightarrow> int \<Rightarrow> message list" where
  "updateAssistantMessageWithError ms errorMessage errorCode title now =
     updateLastAssistantMessage ms (\<lambda>m.
       completeAssistantTiming
         ((updateCurrentVersionContent m (title @ lit '': '' @ errorMessage))
           \<lparr>m_status := Some MError, m_isReasoningStreaming := Some False,
            m_errorCode := (case errorCode of None \<Rightarrow> None | Some c \<Rightarrow> if c = [] then None else Some c)\<rparr>) now)"

section \<open>The conversation\<close>

type_synonym fresh_pair = "jstring \<times> jstring" \<comment> \<open>a message key and a version identifier\<close>

definition appendUserMessagePair :: "message list \<Rightarrow> jstring \<Rightarrow> fresh_pair \<Rightarrow> fresh_pair \<Rightarrow> int \<Rightarrow> message list" where
  "appendUserMessagePair ms content u a submittedAt =
     ms @ [createUserMessage (fst u) (snd u) content submittedAt,
           createLoadingAssistantMessage (fst a) (snd a) submittedAt]"

fun indexOfKey :: "message list \<Rightarrow> jstring \<Rightarrow> nat option" where
  "indexOfKey [] k = None"
| "indexOfKey (m # ms) k = (if m_key m = k then Some 0 else map_option Suc (indexOfKey ms k))"

definition createRegeneratedMessages :: "message list \<Rightarrow> jstring \<Rightarrow> fresh_pair \<Rightarrow> int \<Rightarrow> message list option" where
  "createRegeneratedMessages ms messageKey a now =
     (case indexOfKey ms messageKey of
        None \<Rightarrow> None
      | Some i \<Rightarrow>
          if m_from (ms ! i) = User
          then Some (take (i + 1) ms @ [createLoadingAssistantMessage (fst a) (snd a) now])
          else Some (take i ms @ [createLoadingAssistantMessage (fst a) (snd a) now]))"

definition removeMessageByKey :: "message list \<Rightarrow> jstring \<Rightarrow> message list" where
  "removeMessageByKey ms messageKey = filter (\<lambda>m. m_key m \<noteq> messageKey) ms"

definition getPreviousUserMessage :: "message list \<Rightarrow> nat \<Rightarrow> message option" where
  "getPreviousUserMessage ms beforeIndex = find (\<lambda>m. m_from m = User) (rev (take beforeIndex ms))"

definition applyMessageEdit ::
  "message list \<Rightarrow> jstring \<Rightarrow> jstring \<Rightarrow> bool \<Rightarrow> fresh_pair \<Rightarrow> int \<Rightarrow> (message list \<times> bool) option" where
  "applyMessageEdit ms messageKey content shouldSubmit a submittedAt =
     (case indexOfKey ms messageKey of
        None \<Rightarrow> None
      | Some i \<Rightarrow>
          let updated = map (\<lambda>m. if m_key m = messageKey
                then (updateCurrentVersionContent m content)
                  \<lparr>m_createdAt := (if shouldSubmit then Some submittedAt else m_createdAt m)\<rparr>
                else m) ms
          in if \<not> shouldSubmit \<or> m_from (updated ! i) \<noteq> User then Some (updated, False)
             else Some (take (i + 1) updated @ [createLoadingAssistantMessage (fst a) (snd a) submittedAt], True))"

definition getEditingMessageContent :: "message list \<Rightarrow> jstring option \<Rightarrow> jstring" where
  "getEditingMessageContent ms editingKey =
     (case editingKey of
        None \<Rightarrow> []
      | Some k \<Rightarrow>
          if k = [] then []
          else (case find (\<lambda>m. m_key m = k) ms of None \<Rightarrow> [] | Some m \<Rightarrow> getMessageContent m))"

record render_state =
  alwaysShowActions :: bool
  render_content :: jstring
  isEditing :: bool

definition getChatMessageRenderState :: "message list \<Rightarrow> message \<Rightarrow> nat \<Rightarrow> jstring option \<Rightarrow> render_state" where
  "getChatMessageRenderState ms m i editingKey =
     \<lparr>alwaysShowActions = (int i = int (length ms) - 1 \<and> m_from m = Assistant),
      render_content = getMessageContent m, isEditing = (editingKey = Some (m_key m))\<rparr>"

section \<open>Display\<close>

definition isReasoningStreaming :: "message \<Rightarrow> bool" where
  "isReasoningStreaming m \<longleftrightarrow> m_isReasoningStreaming m = Some True"

definition shouldShowMessageLoader :: "message \<Rightarrow> bool \<Rightarrow> jstring \<Rightarrow> bool" where
  "shouldShowMessageLoader m isAssistant versionContent \<longleftrightarrow>
     isAssistant \<and> \<not> isReasoningStreaming m \<and>
     (m_status m = Some MLoading \<or> m_status m = Some MStreaming \<and> versionContent = [])"

definition shouldShowMessageContent :: "message \<Rightarrow> jstring \<Rightarrow> bool" where
  "shouldShowMessageContent m versionContent \<longleftrightarrow>
     (m_from m = User \<or> \<not> isReasoningStreaming m) \<and> length versionContent > 0"

definition getDisplayContent :: "message \<Rightarrow> jstring \<Rightarrow> jstring" where
  "getDisplayContent m versionContent =
     (if m_from m \<noteq> Assistant then versionContent
      else if \<not> js_includes versionContent (lit ''<think>'') then versionContent
      else visibleContent (parseThinkTags versionContent))"

record content_state =
  displayContent :: jstring
  hasSources :: bool
  isAssistant :: bool
  showLoader :: bool
  showMessageContent :: bool
  state_sources :: "(jstring \<times> jstring) list"
  reasoningContent :: "jstring option" \<comment> \<open>\<open>hasReasoning\<close> when present\<close>

definition getMessageContentState :: "message \<Rightarrow> jstring \<Rightarrow> content_state" where
  "getMessageContentState m versionContent =
     (let assistant = (m_from m = Assistant);
          srcs = (case m_sources m of None \<Rightarrow> [] | Some s \<Rightarrow> s)
      in \<lparr>displayContent = getDisplayContent m versionContent, hasSources = (length srcs > 0),
          isAssistant = assistant, showLoader = shouldShowMessageLoader m assistant versionContent,
          showMessageContent = shouldShowMessageContent m versionContent, state_sources = srcs,
          reasoningContent = (case (if assistant then map_option rs_content (m_reasoning m) else None) of
            None \<Rightarrow> None | Some c \<Rightarrow> if c = [] then None else Some c)\<rparr>)"

datatype error_kind = GenericError | ModelPriceError

record message_error_state =
  mes_content :: jstring
  mes_kind :: error_kind
  showSettingsLink :: bool

definition getMessageErrorState :: "message \<Rightarrow> bool \<Rightarrow> message_error_state option" where
  "getMessageErrorState m isAdmin =
     (if m_status m \<noteq> Some MError then None
      else
        let isModelPriceError = (m_errorCode m = Some (lit ''model_price_error''))
        in Some \<lparr>mes_content = (if getMessageContent m = [] then lit ''An unknown error occurred'' else getMessageContent m),
             mes_kind = (if isModelPriceError then ModelPriceError else GenericError),
             showSettingsLink = (isModelPriceError \<and> isAdmin)\<rparr>)"

record message_action_state =
  mas_content :: jstring
  mas_hasContent :: bool
  mas_isAssistant :: bool
  mas_isLoading :: bool
  mas_isUser :: bool

definition getMessageActionState :: "message \<Rightarrow> message_action_state" where
  "getMessageActionState m = \<lparr>mas_content = getMessageContent m, mas_hasContent = hasMessageContent m,
     mas_isAssistant = (m_from m = Assistant),
     mas_isLoading = (m_status m = Some MLoading \<or> m_status m = Some MStreaming),
     mas_isUser = (m_from m = User)\<rparr>"

record message_editor_state =
  canSave :: bool
  hasChanged :: bool
  showSaveAndSubmit :: bool

definition getMessageEditorState :: "message \<Rightarrow> jstring \<Rightarrow> jstring \<Rightarrow> message_editor_state" where
  "getMessageEditorState m editText originalText =
     \<lparr>canSave = (length (js_trim editText) > 0 \<and> editText \<noteq> originalText),
      hasChanged = (editText \<noteq> originalText), showSaveAndSubmit = (m_from m = User)\<rparr>"

datatype layout_mode = Alternating | LeftLayout
datatype alignment = LeftAligned | RightAligned

definition getMessageAlignment :: "message \<Rightarrow> layout_mode \<Rightarrow> alignment" where
  "getMessageAlignment m mode =
     (if mode = LeftLayout then LeftAligned else if m_from m = User then RightAligned else LeftAligned)"

end
