(* ===== verification/Conversation.thy ===== *)
theory Conversation
  imports PlaygroundMessages
begin

text \<open>
  What the message functions of the playground guarantee: think tags are separated without loss,
  streamed chunks add up to the answer, a finished message is final and timed, and whatever is done to
  a conversation, only its last message can be waiting for an answer.
\<close>

section \<open>Think tags\<close>

abbreviation open_tag :: jstring where "open_tag \<equiv> lit ''<think>''"
abbreviation close_tag :: jstring where "close_tag \<equiv> lit ''</think>''"

lemma length_tags [simp]: "length open_tag = 7" "length close_tag = 8"
  by simp_all

declare length_lit [simp del]

lemma startsWith_overlap:
  assumes "js_startsWith (v @ (c # q) @ w) (c # q)" and "v \<noteq> []" and "c \<notin> set q"
  shows "js_includes v (c # q)"
proof -
  obtain t where t: "v @ (c # q) @ w = (c # q) @ t"
    using assms(1) by (auto simp: js_startsWith_iff)
  show ?thesis
  proof (cases "length (c # q) \<le> length v")
    case True
    have "take (length (c # q)) v = c # q"
      using t True by (metis append_eq_conv_conj take_append diff_is_0_eq take0 append_Nil2)
    then have "v = [] @ (c # q) @ drop (length (c # q)) v" by (metis append_Nil append_take_drop_id)
    then show ?thesis unfolding js_includes_iff by blast
  next
    case False
    have "(c # q) ! length v = c"
      using t False by (metis append_Cons linorder_not_le nth_append nth_append_length)
    moreover have "length v \<noteq> 0" using assms(2) by simp
    ultimately have "c \<in> set q" using False by (cases "length v") auto
    with assms(3) show ?thesis by simp
  qed
qed

lemma indexOf_tag:
  assumes "\<not> js_includes v (c # q)" and "c \<notin> set q"
  shows "js_indexOf (v @ (c # q) @ w) (c # q) = Some (length v)"
  using assms
proof (induction v)
  case Nil
  have "js_startsWith ((c # q) @ w) (c # q)" by (rule js_startsWith_append)
  then show ?case by simp
next
  case (Cons x v)
  have "\<not> js_includes v (c # q)"
    using Cons.prems(1) unfolding js_includes_iff by (metis append_Cons)
  moreover have "\<not> js_startsWith ((x # v) @ (c # q) @ w) (c # q)"
    using startsWith_overlap [of "x # v" c q w] Cons.prems by blast
  ultimately show ?case using Cons.IH Cons.prems(2) by simp
qed

lemma open_tag_eq: "open_tag = 60 # lit ''think>''" and close_tag_eq: "close_tag = 60 # lit ''/think>''"
  by (simp_all add: js_eval)

lemma tag_tails: "60 \<notin> set (lit ''think>'')" "60 \<notin> set (lit ''/think>'')"
  by (simp_all add: js_eval)

lemma indexOf_open: "\<not> js_includes v open_tag \<Longrightarrow> js_indexOf (v @ open_tag @ w) open_tag = Some (length v)"
  using indexOf_tag [OF _ tag_tails(1)] by (simp only: open_tag_eq)

lemma indexOf_close: "\<not> js_includes v close_tag \<Longrightarrow> js_indexOf (v @ close_tag @ w) close_tag = Some (length v)"
  using indexOf_tag [OF _ tag_tails(2)] by (simp only: close_tag_eq)

lemma indexOf_absent: "\<not> js_includes v p \<Longrightarrow> js_indexOf v p = None"
  by (simp add: js_includes_def)

lemma indexOf_from_append:
  "js_indexOf_from (pre @ s) p (length pre) = map_option (\<lambda>i. length pre + i) (js_indexOf s p)"
  by (simp add: js_indexOf_from_def split: option.splits)

text \<open>A text with think blocks: visible text and reasoning in turns, then the rest.\<close>

fun thinkText :: "(jstring \<times> jstring) list \<Rightarrow> jstring \<Rightarrow> jstring" where
  "thinkText [] rest = rest"
| "thinkText ((v, r) # bs) rest = v @ open_tag @ r @ close_tag @ thinkText bs rest"

definition wf_blocks :: "(jstring \<times> jstring) list \<Rightarrow> bool" where
  "wf_blocks bs = list_all (\<lambda>(v, r). \<not> js_includes v open_tag \<and> \<not> js_includes r close_tag) bs"

definition shown :: "jstring \<Rightarrow> jstring list" where
  "shown v = (if v = [] then [] else [v])"

lemma thinkLoop_block:
  assumes "\<not> js_includes v open_tag" and "\<not> js_includes r close_tag"
    and "thinkLoop (pre @ v @ open_tag @ r @ close_tag @ w) (length (pre @ v @ open_tag @ r @ close_tag)) = (vs, rs, u)"
  shows "thinkLoop (pre @ v @ open_tag @ r @ close_tag @ w) (length pre) = (shown v @ vs, r # rs, u)"
proof -
  let ?c = "pre @ v @ open_tag @ r @ close_tag @ w"
  have "js_indexOf_from ?c open_tag (length pre) = Some (length pre + length v)"
    using indexOf_from_append [of pre "v @ open_tag @ r @ close_tag @ w" open_tag] indexOf_open [OF assms(1)] by simp
  moreover have "js_indexOf_from ?c close_tag (length pre + length v + 7) =
      Some (length pre + length v + 7 + length r)"
    using indexOf_from_append [of "pre @ v @ open_tag" "r @ close_tag @ w" close_tag] indexOf_close [OF assms(2)]
    by (simp add: add.assoc [symmetric])
  moreover have "length (pre @ v @ open_tag @ r @ close_tag) = length pre + length v + 7 + length r + 8"
    by simp
  then have "thinkLoop ?c (length pre + length v + 7 + length r + 8) = (vs, rs, u)"
    using assms(3) by (simp only: append_assoc)
  ultimately show ?thesis
    by (subst thinkLoop.simps) (simp only: option.case Let_def prod.case, simp add: shown_def js_slice_def)
qed

lemma thinkLoop_rest:
  assumes "\<not> js_includes w open_tag"
  shows "thinkLoop (pre @ w) (length pre) = (shown w, [], False)"
proof -
  have "js_indexOf_from (pre @ w) open_tag (length pre) = None"
    using indexOf_from_append [of pre w open_tag] indexOf_absent [OF assms] by simp
  then show ?thesis by (subst thinkLoop.simps) (simp add: shown_def)
qed

lemma thinkLoop_unclosed:
  assumes "\<not> js_includes v open_tag" and "\<not> js_includes r close_tag"
  shows "thinkLoop (pre @ v @ open_tag @ r) (length pre) = (shown v, [r], True)"
proof -
  have "js_indexOf_from (pre @ v @ open_tag @ r) open_tag (length pre) = Some (length pre + length v)"
    using indexOf_from_append [of pre "v @ open_tag @ r" open_tag] indexOf_open [OF assms(1)] by simp
  moreover have "js_indexOf_from (pre @ v @ open_tag @ r) close_tag (length pre + length v + 7) = None"
    using indexOf_from_append [of "pre @ v @ open_tag" r close_tag] indexOf_absent [OF assms(2)]
    by (simp add: add.assoc [symmetric])
  ultimately show ?thesis by (subst thinkLoop.simps) (simp add: shown_def js_slice_def)
qed

lemma thinkLoop_text:
  assumes "wf_blocks bs"
    and "\<And>pre. thinkLoop (pre @ w) (length pre) = (vs, rs, u)"
  shows "thinkLoop (pre @ thinkText bs w) (length pre) =
    (concat (map (shown \<circ> fst) bs) @ vs, map snd bs @ rs, u)"
  using assms(1)
proof (induction bs arbitrary: pre)
  case Nil
  then show ?case by (simp add: assms(2))
next
  case (Cons b bs)
  obtain v r where b: "b = (v, r)" by fastforce
  have wf: "\<not> js_includes v open_tag" "\<not> js_includes r close_tag" "wf_blocks bs"
    using Cons.prems b by (simp_all add: wf_blocks_def)
  show ?case
    using thinkLoop_block [OF wf(1,2)] Cons.IH [OF wf(3), of "pre @ v @ open_tag @ r @ close_tag"] b by simp
qed

lemma concat_shown: "concat (concat (map (shown \<circ> f) xs)) = concat (map f xs)"
  by (induction xs) (auto simp: shown_def)

lemma concat_shown_one [simp]: "concat (shown v) = v"
  by (simp add: shown_def)

lemma includes_append: "js_includes (a @ p @ b) p"
  unfolding js_includes_iff by blast

lemma thinkText_includes: "bs \<noteq> [] \<Longrightarrow> js_includes (thinkText bs w) open_tag"
  by (cases bs rule: list.exhaust) (auto intro: includes_append)

text \<open>Every text has this shape, with or without an unclosed block at its end.\<close>

lemma think_decomposition:
  "\<exists>bs w. wf_blocks bs \<and> (s = thinkText bs w \<and> \<not> js_includes w open_tag \<or>
     (\<exists>v r. s = thinkText bs (v @ open_tag @ r) \<and> \<not> js_includes v open_tag \<and> \<not> js_includes r close_tag))"
proof (induction s rule: length_induct)
  case (1 s)
  show ?case
  proof (cases "js_indexOf s open_tag")
    case None
    then have "wf_blocks []" "s = thinkText [] s" "\<not> js_includes s open_tag"
      by (simp_all add: wf_blocks_def js_includes_def)
    then show ?thesis by blast
  next
    case (Some i)
    define v where "v = take i s"
    define t where "t = drop (i + 7) s"
    have s: "s = v @ open_tag @ t" using js_indexOf_Some_decomp [OF Some] by (simp add: v_def t_def)
    have v: "\<not> js_includes v open_tag"
    proof
      assume "js_includes v open_tag"
      then obtain a b where ab: "v = a @ open_tag @ b" by (auto simp: js_includes_iff)
      have "length v \<le> i" by (simp add: v_def)
      with ab have "length a < i" by simp
      moreover have "js_startsWith (drop (length a) s) open_tag" using s ab by simp
      ultimately show False using js_indexOf_first [OF Some] by blast
    qed
    show ?thesis
    proof (cases "js_indexOf t close_tag")
      case None
      then have "\<not> js_includes t close_tag" by (simp add: js_includes_def)
      with v s have "wf_blocks [] \<and> s = thinkText [] (v @ open_tag @ t) \<and> \<not> js_includes v open_tag \<and> \<not> js_includes t close_tag"
        by (simp add: wf_blocks_def)
      then show ?thesis by blast
    next
      case (Some j)
      define r where "r = take j t"
      define w where "w = drop (j + 8) t"
      have t: "t = r @ close_tag @ w" using js_indexOf_Some_decomp [OF Some] by (simp add: r_def w_def)
      have r: "\<not> js_includes r close_tag"
      proof
        assume "js_includes r close_tag"
        then obtain a b where ab: "r = a @ close_tag @ b" by (auto simp: js_includes_iff)
        have "length r \<le> j" by (simp add: r_def)
        with ab have "length a < j" by simp
        moreover have "js_startsWith (drop (length a) t) close_tag" using t ab by simp
        ultimately show False using js_indexOf_first [OF Some] by blast
      qed
      have "length w < length s" using s t by simp
      with 1 obtain bs x where "wf_blocks bs" and x: "w = thinkText bs x \<and> \<not> js_includes x open_tag \<or>
          (\<exists>v r. w = thinkText bs (v @ open_tag @ r) \<and> \<not> js_includes v open_tag \<and> \<not> js_includes r close_tag)"
        by blast
      then have "wf_blocks ((v, r) # bs)" "s = thinkText ((v, r) # bs) y \<longleftrightarrow> w = thinkText bs y" for y
        using v r s t by (simp_all add: wf_blocks_def)
      with x show ?thesis by blast
    qed
  qed
qed

text \<open>C16. Think tags are separated without loss: every text is visible text and closed think blocks in
  turns, followed by visible text or by one unclosed block; the parser returns exactly the visible
  text, trimmed unless there is no tag at all, the reasoning of the blocks separated by empty lines and
  trimmed, and whether the last block is unclosed.\<close>

theorem think_tags_separated:
  "\<exists>bs w. wf_blocks bs \<and>
     (s = thinkText bs w \<and> \<not> js_includes w open_tag \<and>
        parseThinkTags s = \<lparr>visibleContent = (if bs = [] then s else js_trim (concat (map fst bs) @ w)),
          think_reasoning = js_trim (js_join [10, 10] (map snd bs)), hasUnclosedTag = False\<rparr> \<or>
      (\<exists>v r. s = thinkText bs (v @ open_tag @ r) \<and> \<not> js_includes v open_tag \<and> \<not> js_includes r close_tag \<and>
        parseThinkTags s = \<lparr>visibleContent = js_trim (concat (map fst bs) @ v),
          think_reasoning = js_trim (js_join [10, 10] (map snd bs @ [r])), hasUnclosedTag = True\<rparr>))"
proof -
  obtain bs w where wf: "wf_blocks bs" and shape: "s = thinkText bs w \<and> \<not> js_includes w open_tag \<or>
     (\<exists>v r. s = thinkText bs (v @ open_tag @ r) \<and> \<not> js_includes v open_tag \<and> \<not> js_includes r close_tag)"
    using think_decomposition by blast
  from shape show ?thesis
  proof
    assume w: "s = thinkText bs w \<and> \<not> js_includes w open_tag"
    have "parseThinkTags s = \<lparr>visibleContent = (if bs = [] then s else js_trim (concat (map fst bs) @ w)),
          think_reasoning = js_trim (js_join [10, 10] (map snd bs)), hasUnclosedTag = False\<rparr>"
    proof (cases "bs = []")
      case True
      with w show ?thesis by (simp add: parseThinkTags_def)
    next
      case False
      have "thinkLoop s 0 = (concat (map (shown \<circ> fst) bs) @ shown w, map snd bs, False)"
        using thinkLoop_text [OF wf thinkLoop_rest, of w "[]"] w by simp
      with False w thinkText_includes [OF False, of w] show ?thesis
        by (simp add: parseThinkTags_def concat_shown)
    qed
    with wf w show ?thesis by blast
  next
    assume "\<exists>v r. s = thinkText bs (v @ open_tag @ r) \<and> \<not> js_includes v open_tag \<and> \<not> js_includes r close_tag"
    then obtain v r where s: "s = thinkText bs (v @ open_tag @ r)" and vr: "\<not> js_includes v open_tag" "\<not> js_includes r close_tag"
      by blast
    have "thinkLoop s 0 = (concat (map (shown \<circ> fst) bs) @ shown v, map snd bs @ [r], True)"
      using thinkLoop_text [OF wf thinkLoop_unclosed [OF vr], of "[]"] s by simp
    moreover have "js_includes s open_tag"
      using s thinkText_includes includes_append [of v open_tag r] by (cases "bs = []") auto
    ultimately have "parseThinkTags s = \<lparr>visibleContent = js_trim (concat (map fst bs) @ v),
          think_reasoning = js_trim (js_join [10, 10] (map snd bs @ [r])), hasUnclosedTag = True\<rparr>"
      by (simp add: parseThinkTags_def concat_shown)
    with wf s vr show ?thesis by blast
  qed
qed

section \<open>Streaming\<close>

lemma content_update [simp]: "getMessageContent (updateCurrentVersionContent m c) = c"
  by (simp add: getMessageContent_def updateCurrentVersionContent_def getCurrentVersion_def)

lemma content_of_versions: "m_versions m = m_versions m' \<Longrightarrow> getMessageContent m = getMessageContent m'"
  by (simp add: getMessageContent_def getCurrentVersion_def)

lemma versions_completeReasoning [simp]: "m_versions (completeReasoningTiming m t) = m_versions m"
  by (simp add: completeReasoningTiming_def Let_def split: option.splits)

lemma content_completeReasoning [simp]: "getMessageContent (completeReasoningTiming m t) = getMessageContent m"
  by (rule content_of_versions) simp

lemma content_processStreaming:
  "getMessageContent (processStreamingContent m (Some c) now) = getMessageContent m @ c"
  by (simp add: processStreamingContent_def Let_def content_of_versions [of "_\<lparr>m_isReasoningStreaming := _\<rparr>"]
      content_of_versions [of "_\<lparr>m_reasoning := _, m_isReasoningStreaming := _\<rparr>" "updateCurrentVersionContent m _"])

lemma content_contentChunk:
  assumes "m_status m \<noteq> Some MError"
  shows "getMessageContent (applyStreamingChunk m ContentChunk c now) =
    getMessageContent m @ getAppendableChunk (getMessageContent m) c"
proof -
  let ?p = "processStreamingContent m (Some (getAppendableChunk (getMessageContent m) c)) now"
  have "m_versions (applyStreamingChunk m ContentChunk c now) = m_versions ?p"
    using assms by (simp add: applyStreamingChunk_def Let_def)
  then show ?thesis using content_processStreaming content_of_versions by metis
qed

lemma status_contentChunk:
  "m_status m \<noteq> Some MError \<Longrightarrow> m_status (applyStreamingChunk m t c now) = Some MStreaming"
  by (cases t) (simp_all add: applyStreamingChunk_def Let_def)

definition streamContent :: "message \<Rightarrow> jstring list \<Rightarrow> int \<Rightarrow> message" where
  "streamContent m cs now = fold (\<lambda>c m. applyStreamingChunk m ContentChunk c now) cs m"


fun snapshots :: "jstring \<Rightarrow> jstring list \<Rightarrow> bool" where
  "snapshots acc [] = True"
| "snapshots acc (c # cs) = (js_startsWith c acc \<and> snapshots c cs)"


lemma appendable_snapshot: "js_startsWith c acc \<Longrightarrow> acc @ getAppendableChunk acc c = c"
  using js_startsWith_drop by (auto simp: getAppendableChunk_def)


lemma stream_snapshots:
  "m_status m \<noteq> Some MError \<Longrightarrow> snapshots (getMessageContent m) cs \<Longrightarrow>
     getMessageContent (streamContent m cs now) = last (getMessageContent m # cs)"
proof (induction cs arbitrary: m)
  case Nil
  then show ?case by (simp add: streamContent_def)
next
  case (Cons c cs)
  let ?m = "applyStreamingChunk m ContentChunk c now"
  have "getMessageContent ?m = c"
    using Cons.prems appendable_snapshot by (simp add: content_contentChunk)
  moreover have "m_status ?m \<noteq> Some MError" using status_contentChunk [OF Cons.prems(1)] by simp
  moreover have "streamContent m (c # cs) now = streamContent ?m cs now" by (simp add: streamContent_def)
  ultimately show ?case using Cons by simp
qed


definition sampleAssistant :: message where
  "sampleAssistant = createLoadingAssistantMessage (lit ''k'') (lit ''v'') 5"

lemma sampleAssistant_content: "getMessageContent sampleAssistant = []"
  by (simp add: sampleAssistant_def createLoadingAssistantMessage_def getMessageContent_def getCurrentVersion_def
      emptyMessage_def createMessageVersion_def)

lemma sampleAssistant_status: "m_status sampleAssistant = Some MLoading"
  by (simp add: sampleAssistant_def createLoadingAssistantMessage_def)


text \<open>The two kinds of servers are told apart by content alone, so a repeated first increment is
  lost: when the second chunk equals all of the text so far, it is taken for a snapshot and nothing is
  appended.\<close>

theorem repeated_delta_is_lost:
  assumes "m_status m \<noteq> Some MError" and "getMessageContent m = []"
  shows "getMessageContent (streamContent m [c, c] now) = c"
  using stream_snapshots [OF assms(1), of "[c, c]"] assms(2) js_startsWith_append [of c "[]"] by simp

theorem repeated_delta_is_lost_witness:
  "getMessageContent (streamContent sampleAssistant [lit ''1'', lit ''1''] 9) = lit ''1''"
  by (rule repeated_delta_is_lost) (simp_all add: sampleAssistant_content sampleAssistant_status)

section \<open>Finished messages\<close>

lemma from_update [simp]: "m_from (updateCurrentVersionContent m c) = m_from m"
  "m_key (updateCurrentVersionContent m c) = m_key m" "m_status (updateCurrentVersionContent m c) = m_status m"
  by (simp_all add: updateCurrentVersionContent_def)

lemma from_completeReasoning [simp]: "m_from (completeReasoningTiming m t) = m_from m"
  "m_key (completeReasoningTiming m t) = m_key m" "m_status (completeReasoningTiming m t) = m_status m"
  "m_isReasoningStreaming (completeReasoningTiming m t) = m_isReasoningStreaming m"
  by (simp_all add: completeReasoningTiming_def Let_def split: option.splits)

lemma from_completeAssistant [simp]: "m_from (completeAssistantTiming m t) = m_from m"
  "m_key (completeAssistantTiming m t) = m_key m" "m_status (completeAssistantTiming m t) = m_status m"
  "m_versions (completeAssistantTiming m t) = m_versions m"
  "m_reasoning (completeAssistantTiming m t) = m_reasoning m"
  "m_isReasoningStreaming (completeAssistantTiming m t) = m_isReasoningStreaming m"
  by (simp_all add: completeAssistantTiming_def Let_def)

lemma from_finalize [simp]: "m_from (finalizeMessage m a t) = m_from m" "m_key (finalizeMessage m a t) = m_key m"
  "m_isReasoningStreaming (finalizeMessage m a t) = Some False"
  by (simp_all add: finalizeMessage_def Let_def)

lemma from_complete [simp]: "m_from (completeAssistantMessage m t) = m_from m"
  "m_key (completeAssistantMessage m t) = m_key m" "m_status (completeAssistantMessage m t) = Some MComplete"
  by (simp_all add: completeAssistantMessage_def)

lemma from_chunk [simp]: "m_from (applyStreamingChunk m ty c t) = m_from m" "m_key (applyStreamingChunk m ty c t) = m_key m"
  by (cases ty; simp add: applyStreamingChunk_def processStreamingContent_def Let_def)+

lemma from_choice [simp]: "m_from (applyChatCompletionChoice m c t) = m_from m"
  "m_status (applyChatCompletionChoice m c t) = Some MComplete"
  by (simp_all add: applyChatCompletionChoice_def)

lemma from_sanitize [simp]: "m_from (sanitizePending tr m t) = m_from m"
  by (simp add: sanitizePending_def Let_def)

lemma sanitize_not_pending: "\<not> isPendingAssistantMessage (Some (sanitizePending tr m t))"
  by (simp add: sanitizePending_def isPendingAssistantMessage_def isAssistantMessagePending_def Let_def)

lemma completeReasoning_Some:
  assumes "m_reasoning (completeReasoningTiming m t) = Some r"
  shows "rs_durationMs r \<noteq> None \<and> map_option rs_content (m_reasoning m) = Some (rs_content r)"
proof (cases "m_reasoning m")
  case None
  with assms show ?thesis by (simp add: completeReasoningTiming_def)
next
  case (Some r0)
  then show ?thesis
    using assms by (cases "rs_durationMs r0") (auto simp: completeReasoningTiming_def Let_def)
qed

lemma finalize_reasoning:
  assumes "m_reasoning (finalizeMessage m a t) = Some r"
  shows "rs_content r \<noteq> [] \<and> rs_durationMs r \<noteq> None"
  using completeReasoning_Some [OF assms [unfolded finalizeMessage_def Let_def]] by (simp split: if_splits)

text \<open>A finished answer is final and timed: completing an assistant message that was started makes
  its status complete, stops the reasoning indicator, leaves no think tag block pending in the stored
  text (the text is the visible part), records a duration that is the time since the start and never
  negative, and gives every remaining reasoning a text and a duration.\<close>

theorem completed_message_final:
  assumes "m_from m = Assistant" and "m_startedAt m = Some s"
  shows "(let m' = completeAssistantMessage m t
    in isAssistantMessageFinal m' \<and> m_isReasoningStreaming m' = Some False \<and>
       getMessageContent m' = (if js_includes (getMessageContent m) (lit ''<think>'')
         then visibleContent (parseThinkTags (getMessageContent m)) else getMessageContent m) \<and>
       m_completedAt m' = Some t \<and> m_durationMs m' = Some (max 0 (t - s)) \<and>
       (case m_reasoning m' of None \<Rightarrow> True
        | Some r \<Rightarrow> rs_content r \<noteq> [] \<and> rs_durationMs r \<noteq> None))"
proof -
  have start: "m_startedAt (finalizeMessage m None t) = Some s"
    using assms(2) by (simp add: finalizeMessage_def completeReasoningTiming_def updateCurrentVersionContent_def
        Let_def split: option.splits)
  have "m_versions (completeAssistantMessage m t) = m_versions (finalizeMessage m None t)"
    by (simp add: completeAssistantMessage_def)
  moreover have "getMessageContent (finalizeMessage m None t) =
      (if js_includes (getMessageContent m) (lit ''<think>'')
       then visibleContent (parseThinkTags (getMessageContent m)) else getMessageContent m)"
    by (simp add: finalizeMessage_def Let_def content_of_versions
        [of "_\<lparr>m_reasoning := _, m_isReasoningStreaming := _\<rparr>" "updateCurrentVersionContent m _"])
  ultimately have "getMessageContent (completeAssistantMessage m t) =
      (if js_includes (getMessageContent m) (lit ''<think>'')
       then visibleContent (parseThinkTags (getMessageContent m)) else getMessageContent m)"
    using content_of_versions by metis
  moreover have "m_reasoning (completeAssistantMessage m t) = m_reasoning (finalizeMessage m None t)"
    by (simp add: completeAssistantMessage_def)
  moreover have "m_completedAt (completeAssistantMessage m t) = Some t"
    "m_durationMs (completeAssistantMessage m t) = Some (max 0 (t - s))"
    using assms(1) start by (simp_all add: completeAssistantMessage_def completeAssistantTiming_def Let_def)
  moreover have "m_isReasoningStreaming (completeAssistantMessage m t) = Some False"
    by (simp add: completeAssistantMessage_def)
  ultimately show ?thesis
    using finalize_reasoning by (auto simp: Let_def isAssistantMessageFinal_def split: option.splits)
qed

theorem completed_message_final_witness:
  "isAssistantMessageFinal (completeAssistantMessage sampleAssistant 9) \<and>
   m_durationMs (completeAssistantMessage sampleAssistant 9) = Some (max 0 (9 - 5))"
  using completed_message_final [of sampleAssistant 5 9]
  by (simp add: Let_def sampleAssistant_def createLoadingAssistantMessage_def emptyMessage_def)

section \<open>Only the last message waits\<close>

abbreviation pending :: "message \<Rightarrow> bool" where
  "pending m \<equiv> isPendingAssistantMessage (Some m)"

definition only_last_pending :: "message list \<Rightarrow> bool" where
  "only_last_pending ms = list_all (\<lambda>m. \<not> pending m) (butlast ms)"

lemma only_last_snoc [simp]: "only_last_pending (ms @ [m]) = list_all (\<lambda>m. \<not> pending m) ms"
  by (simp add: only_last_pending_def)

lemma only_last_take: "only_last_pending ms \<Longrightarrow> i < length ms \<Longrightarrow> list_all (\<lambda>m. \<not> pending m) (take i ms)"
  by (cases ms rule: rev_cases) (auto simp: list_all_iff dest: in_set_takeD)

lemma indexOfKey_bound: "indexOfKey ms k = Some i \<Longrightarrow> i < length ms \<and> m_key (ms ! i) = k"
  by (induction ms arbitrary: i) (auto split: if_splits)

lemma pending_from: "m_from m \<noteq> Assistant \<Longrightarrow> \<not> pending m"
  by (simp add: isPendingAssistantMessage_def)

lemma only_last_take_user:
  assumes "only_last_pending ms" and "i < length ms" and "m_from (ms ! i) = User"
  shows "list_all (\<lambda>m. \<not> pending m) (take (i + 1) ms)"
  using only_last_take [OF assms(1,2)] assms(2,3) by (simp add: take_Suc_conv_app_nth pending_from)

lemma only_last_update: "only_last_pending ms \<Longrightarrow> only_last_pending (updateLastAssistantMessage ms f)"
  by (cases ms rule: rev_cases) (auto simp: updateLastAssistantMessage_def)

lemma only_last_map:
  "(\<And>m. pending (f m) = pending m) \<Longrightarrow> only_last_pending ms \<Longrightarrow> only_last_pending (map f ms)"
  by (simp add: only_last_pending_def list_all_iff map_butlast [symmetric])

lemma only_last_filter: "only_last_pending ms \<Longrightarrow> only_last_pending (filter p ms)"
  by (cases ms rule: rev_cases) (auto simp: only_last_pending_def list_all_iff dest: in_set_butlastD)

lemma find_rev_last:
  assumes "find p (rev [0..<n]) = Some i"
  shows "i < n \<and> p i \<and> (\<forall>j. i < j \<and> j < n \<longrightarrow> \<not> p j)"
  using assms
proof (induction n)
  case (Suc n)
  then show ?case by (cases "p n") (auto simp: less_Suc_eq)
qed simp

lemma sanitize_none_pending:
  assumes "only_last_pending ms"
  shows "list_all (\<lambda>m. \<not> pending m) (sanitizeMessagesOnLoad tr ms t)"
proof (cases "lastPending ms")
  case None
  then have "\<not> pending (ms ! i)" if "i < length ms" for i
    using that by (auto simp: lastPending_def find_None_iff)
  then show ?thesis using None by (auto simp: sanitizeMessagesOnLoad_def list_all_iff in_set_conv_nth)
next
  case (Some i)
  then have i: "i < length ms" "pending (ms ! i)" unfolding lastPending_def using find_rev_last by blast+
  have "\<not> pending (ms ! j)" if "j < length ms" "j \<noteq> i" for j
  proof (cases "j < length ms - 1")
    case True
    then have "ms ! j \<in> set (butlast ms)" by (metis length_butlast nth_butlast nth_mem)
    with assms show ?thesis by (auto simp: only_last_pending_def list_all_iff)
  next
    case False
    then have "j = length ms - 1" "i < length ms - 1" using that i by auto
    then have "ms ! i \<in> set (butlast ms)" by (metis length_butlast nth_butlast nth_mem)
    with assms i(2) show ?thesis by (auto simp: only_last_pending_def list_all_iff)
  qed
  then have "\<not> pending (ms[i := sanitizePending tr (ms ! i) t] ! j)" if "j < length ms" for j
    using that i sanitize_not_pending by (cases "j = i") simp_all
  then show ?thesis using Some by (simp add: sanitizeMessagesOnLoad_def list_all_length)
qed

text \<open>Everything the playground does to its list of messages. A new question is sent when no answer is
  awaited; the rest can happen at any time.\<close>

inductive conversation :: "message list \<Rightarrow> bool" where
  conv_empty: "conversation []"
| conv_submit: "conversation ms \<Longrightarrow> list_all (\<lambda>m. \<not> pending m) ms \<Longrightarrow>
     conversation (appendUserMessagePair ms content u a now)"
| conv_regenerate: "conversation ms \<Longrightarrow> createRegeneratedMessages ms k a now = Some ms' \<Longrightarrow> conversation ms'"
| conv_edit: "conversation ms \<Longrightarrow> applyMessageEdit ms k content submit a now = Some (ms', sent) \<Longrightarrow> conversation ms'"
| conv_remove: "conversation ms \<Longrightarrow> conversation (removeMessageByKey ms k)"
| conv_update: "conversation ms \<Longrightarrow> conversation (updateLastAssistantMessage ms f)"
| conv_load: "conversation ms \<Longrightarrow> conversation (sanitizeMessagesOnLoad tr ms now)"

lemma pending_edit [simp]:
  "pending ((updateCurrentVersionContent m c)\<lparr>m_createdAt := x\<rparr>) = pending m"
  by (simp add: isPendingAssistantMessage_def isAssistantMessagePending_def)

lemma only_last_regenerate:
  assumes "only_last_pending ms" and "createRegeneratedMessages ms k a now = Some ms'"
  shows "only_last_pending ms'"
proof -
  obtain i where i: "indexOfKey ms k = Some i"
    using assms(2) by (auto simp: createRegeneratedMessages_def split: option.splits)
  note b = indexOfKey_bound [OF i]
  show ?thesis
    using assms only_last_take [OF assms(1)] only_last_take_user [OF assms(1)] b
    by (auto simp: createRegeneratedMessages_def i split: if_splits)
qed

lemma only_last_edit:
  assumes "only_last_pending ms" and "applyMessageEdit ms k content submit a now = Some (ms', sent)"
  shows "only_last_pending ms'"
proof -
  obtain i where i: "indexOfKey ms k = Some i"
    using assms(2) by (auto simp: applyMessageEdit_def split: option.splits)
  let ?up = "map (\<lambda>m. if m_key m = k then (updateCurrentVersionContent m content)
    \<lparr>m_createdAt := if submit then Some now else m_createdAt m\<rparr> else m) ms"
  have up: "only_last_pending ?up" by (rule only_last_map [OF _ assms(1)]) simp
  have "i < length ?up" using indexOfKey_bound [OF i] by simp
  then show ?thesis
    using assms(2) up only_last_take_user [OF up]
    by (auto simp: applyMessageEdit_def i Let_def split: if_splits)
qed

text \<open>C18. Only the last message of a conversation can be waiting for an answer: sending, regenerating,
  editing, deleting, streaming, finishing, failing and reloading all keep it so. Hence reloading, which
  settles the last waiting message, leaves none waiting.\<close>

theorem only_last_message_waits:
  assumes "conversation ms"
  shows "only_last_pending ms \<and> list_all (\<lambda>m. \<not> pending m) (sanitizeMessagesOnLoad tr ms now)"
proof -
  have "only_last_pending ms" using assms
  proof (induction rule: conversation.induct)
    case conv_empty
    show ?case by (simp add: only_last_pending_def)
  next
    case (conv_submit ms content u a now)
    then show ?case
      by (simp add: appendUserMessagePair_def only_last_pending_def createUserMessage_def emptyMessage_def
          pending_from butlast_append)
  next
    case (conv_regenerate ms k a now ms')
    then show ?case by (blast intro: only_last_regenerate)
  next
    case (conv_edit ms k content submit a now ms' sent)
    then show ?case by (blast intro: only_last_edit)
  next
    case (conv_remove ms k)
    then show ?case by (simp add: removeMessageByKey_def only_last_filter)
  next
    case (conv_update ms f)
    then show ?case by (simp add: only_last_update)
  next
    case (conv_load ms tr now)
    then show ?case
      using sanitize_none_pending [of ms tr now] in_set_butlastD by (fastforce simp: only_last_pending_def list_all_iff)
  qed
  then show ?thesis by (simp add: sanitize_none_pending)
qed

theorem only_last_message_waits_witness:
  "only_last_pending (appendUserMessagePair [] (lit ''Hi'') (lit ''a'', lit ''b'') (lit ''c'', lit ''d'') 1) \<and>
   list_all (\<lambda>m. \<not> pending m) (sanitizeMessagesOnLoad id
     (appendUserMessagePair [] (lit ''Hi'') (lit ''a'', lit ''b'') (lit ''c'', lit ''d'') 1) 2)"
  by (rule only_last_message_waits, rule conv_submit [OF conv_empty]) simp

end
