(* ===== verification/PlaygroundStorage.thy ===== *)
theory PlaygroundStorage
  imports Conversation
begin

text \<open>
  \<^verbatim>\<open>web/src/features/playground/lib/storage/*.ts\<close>: keeping the conversation in local storage. Loading
  repairs what it reads (repeated sections, oversized texts, unfinished answers), limits the number and
  size of messages, and writes the repaired list back.

  Local storage is an association list from keys to texts. \<open>JSON.parse\<close>, \<open>JSON.stringify\<close>, the schema
  validation (the \<open>zod\<close> library) and the acceptance of a write by the browser (\<open>setItem\<close> throws when the
  quota is exceeded) are arguments, collected in \<open>storage_env\<close>. Whether a function of the source
  returns the array or object it was given or a new one is visible to the code (\<open>!==\<close>); where it
  matters the model returns a flag.
\<close>

section \<open>Limits\<close>

definition MAX_STORED_MESSAGES :: nat where "MAX_STORED_MESSAGES = 100"
definition MAX_STORED_MESSAGES_BYTES :: nat where "MAX_STORED_MESSAGES_BYTES = 1024 * 1024"
definition MAX_LOADED_MESSAGES_CHARS :: nat where "MAX_LOADED_MESSAGES_CHARS = 120000"
definition MAX_LOADED_MESSAGE_CHARS :: nat where "MAX_LOADED_MESSAGE_CHARS = 40000"
definition MIN_PREFIX_COLLAPSE_LENGTH :: nat where "MIN_PREFIX_COLLAPSE_LENGTH = 2000"
definition MIN_REPEATED_SECTION_COUNT :: nat where "MIN_REPEATED_SECTION_COUNT = 3"

definition TRUNCATED_CONTENT_SUFFIX :: jstring where
  "TRUNCATED_CONTENT_SUFFIX = [10, 10] @ lit ''[...]''"

definition messagesKey :: jstring where
  "messagesKey = lit ''playground_messages''"

section \<open>Local storage\<close>

type_synonym storage = "(jstring \<times> jstring) list"

record storage_env =
  json_parse :: "jstring \<Rightarrow> json option"
  json_stringify :: "json \<Rightarrow> jstring"
  schema_parse :: "json \<Rightarrow> message list option"
  schema_json :: "message list \<Rightarrow> json"
  accepts_write :: "jstring \<Rightarrow> bool"
  translate :: "jstring \<Rightarrow> jstring"
  clock :: int

text \<open>The text under the key of the messages: removed, with nothing read, when it is too long. \<open>Inl\<close> is
  an exception.\<close>

definition readStoredMessagesValue :: "storage_env \<Rightarrow> storage \<Rightarrow> storage \<times> (unit + json option)" where
  "readStoredMessagesValue env st =
     (case map_of st messagesKey of
        None \<Rightarrow> (st, Inr None)
      | Some saved \<Rightarrow>
          if saved = [] then (st, Inr None)
          else if length saved > MAX_STORED_MESSAGES_BYTES then (AList.delete messagesKey st, Inr None)
          else (case json_parse env saved of None \<Rightarrow> (st, Inl ()) | Some v \<Rightarrow> (st, Inr (Some v))))"

definition unwrapStoredValue :: "json \<Rightarrow> json" where
  "unwrapStoredValue v =
     (case (js_get v (lit ''version''), js_get v (lit ''data'')) of
        (Some _, Some d) \<Rightarrow> d
      | _ \<Rightarrow> v)"

definition envelope :: "json \<Rightarrow> json" where
  "envelope d = JObj [(lit ''version'', JNum (Fin 1)), (lit ''data'', d)]"

text \<open>\<open>writeStoredValue\<close> inside the \<open>try\<close> of its callers: a refused write changes nothing.\<close>

definition writeStoredValue :: "storage_env \<Rightarrow> jstring \<Rightarrow> json \<Rightarrow> storage \<Rightarrow> storage" where
  "writeStoredValue env key d st =
     (let payload = json_stringify env (envelope d)
      in if accepts_write env payload then AList.update key payload st else st)"

section \<open>Trimming\<close>

definition trimMessages :: "message list \<Rightarrow> message list" where
  "trimMessages ms =
     (if length ms \<le> MAX_STORED_MESSAGES then ms else drop (length ms - MAX_STORED_MESSAGES) ms)"

definition getMessageSize :: "message \<Rightarrow> nat" where
  "getMessageSize m =
     sum_list (map (\<lambda>v. length (v_content v)) (m_versions m)) +
     (case m_reasoning m of None \<Rightarrow> 0 | Some r \<Rightarrow> length (rs_content r))"

definition truncateText :: "jstring \<Rightarrow> nat \<Rightarrow> jstring" where
  "truncateText txt maxLength =
     (if length txt \<le> maxLength then txt
      else if maxLength \<le> length TRUNCATED_CONTENT_SUFFIX then take maxLength txt
      else take (maxLength - length TRUNCATED_CONTENT_SUFFIX) txt @ TRUNCATED_CONTENT_SUFFIX)"

text \<open>The loop runs over the reversed list; it stops before the message that would exceed the limit,
  unless it is the first.\<close>

fun sizeLoop :: "message list \<Rightarrow> nat \<Rightarrow> message list \<Rightarrow> message list" where
  "sizeLoop [] totalSize result = result"
| "sizeLoop (m # rest) totalSize result =
     (if result \<noteq> [] \<and> totalSize + getMessageSize m > MAX_LOADED_MESSAGES_CHARS then result
      else sizeLoop rest (totalSize + getMessageSize m) (m # result))"

definition trimMessagesByContentSize :: "message list \<Rightarrow> message list" where
  "trimMessagesByContentSize ms = sizeLoop (rev ms) 0 []"

section \<open>Repeated sections\<close>

definition restOfLine :: "jstring \<Rightarrow> nat" where
  "restOfLine s = length (takeWhile (\<lambda>c. \<not> line_terminator c) s)"

text \<open>The match of \<open>#{2,6}\s+\d+\.\s+.+$\<close> at the start of a text, as its length. When white space is all
  that follows the dot, the expression gives back some of it for \<open>.+\<close>: the last unit that is not a line
  terminator and has white space before it.\<close>

definition headingTail :: "jstring \<Rightarrow> nat option" where
  "headingTail s =
     (let w = length (takeWhile is_ws s)
      in if w = 0 then None
         else if w < length s then Some (w + restOfLine (drop w s))
         else
           map_option (\<lambda>k. k + restOfLine (drop k s))
             (find (\<lambda>k. \<not> line_terminator (s ! k)) (rev [1..<w])))"

definition headingLength :: "jstring \<Rightarrow> nat option" where
  "headingLength s =
     (let n = length (takeWhile (\<lambda>c. c = 35) s);
          s1 = drop n s;
          w = length (takeWhile is_ws s1);
          s2 = drop w s1;
          d = length (takeWhile is_digit s2);
          s3 = drop d s2
      in if n < 2 \<or> n > 6 \<or> w = 0 \<or> d = 0 then None
         else
           case s3 of
             [] \<Rightarrow> None
           | c # s4 \<Rightarrow> if c \<noteq> 46 then None else map_option (\<lambda>k. n + w + d + 1 + k) (headingTail s4))"

text \<open>\<open>text.matchAll(pattern)\<close> with the flags \<open>gm\<close>: the matches at starts of lines, from left to right.\<close>

function sectionScan :: "nat \<Rightarrow> bool \<Rightarrow> jstring \<Rightarrow> (nat \<times> jstring) list" where
  "sectionScan pos lineStart [] = []"
| "sectionScan pos lineStart (c # s) =
     (case (if lineStart then headingLength (c # s) else None) of
        Some k \<Rightarrow>
          if k = 0 then sectionScan (pos + 1) (line_terminator c) s
          else (pos, take k (c # s)) # sectionScan (pos + k) False (drop k (c # s))
      | None \<Rightarrow> sectionScan (pos + 1) (line_terminator c) s)"
  by pat_completeness auto
termination by (relation "measure (\<lambda>(pos, b, s). length s)") auto

definition getSectionOccurrences :: "jstring \<Rightarrow> (nat \<times> jstring) list" where
  "getSectionOccurrences txt = sectionScan 0 True txt"

definition headingCount :: "(nat \<times> jstring) list \<Rightarrow> jstring \<Rightarrow> nat" where
  "headingCount occs h = length (filter (\<lambda>x. snd x = h) occs)"

text \<open>The last positions of the headings that occur often, found from the end.\<close>

fun lastRepeated :: "(nat \<times> jstring) list \<Rightarrow> (nat \<times> jstring) list \<Rightarrow> jstring list \<Rightarrow> nat list" where
  "lastRepeated all [] seen = []"
| "lastRepeated all ((i, h) # rest) seen =
     (if headingCount all h < MIN_REPEATED_SECTION_COUNT \<or> h \<in> set seen then lastRepeated all rest seen
      else i # lastRepeated all rest (h # seen))"

definition findLastRepeatedSectionRunStart :: "jstring \<Rightarrow> nat option" where
  "findLastRepeatedSectionRunStart txt =
     (let occs = getSectionOccurrences txt
      in case lastRepeated occs (rev occs) [] of [] \<Rightarrow> None | i # rest \<Rightarrow> Some (foldl min i rest))"

definition collapseRepeatedSectionSnapshots :: "jstring \<Rightarrow> jstring" where
  "collapseRepeatedSectionSnapshots txt =
     (if length txt < MIN_PREFIX_COLLAPSE_LENGTH then txt
      else case findLastRepeatedSectionRunStart txt of None \<Rightarrow> txt | Some i \<Rightarrow> drop i txt)"

section \<open>Loading\<close>

definition normalizeVersion :: "message_version \<Rightarrow> message_version" where
  "normalizeVersion v = v\<lparr>v_content := truncateText (collapseRepeatedSectionSnapshots (v_content v)) MAX_LOADED_MESSAGE_CHARS\<rparr>"

definition versionChanged :: "message_version \<Rightarrow> bool" where
  "versionChanged v \<longleftrightarrow>
     \<not> (v_content (normalizeVersion v) = v_content v \<and> collapseRepeatedSectionSnapshots (v_content v) = v_content v)"

text \<open>The message, and whether it is a new object.\<close>

definition normalizeStoredMessageForLoad :: "int \<Rightarrow> message \<Rightarrow> message \<times> bool" where
  "normalizeStoredMessageForLoad now m =
     (let versions = map normalizeVersion (m_versions m);
          reasoning = map_option (\<lambda>r. r\<lparr>rs_content := truncateText (rs_content r) MAX_LOADED_MESSAGE_CHARS\<rparr>) (m_reasoning m);
          changed = (list_ex versionChanged (m_versions m) \<or>
            map_option rs_content reasoning \<noteq> map_option rs_content (m_reasoning m));
          normalized = (if changed then m\<lparr>m_versions := versions, m_reasoning := reasoning\<rparr> else m);
          hasReasoning = (case m_reasoning normalized of None \<Rightarrow> False | Some r \<Rightarrow> js_trim (rs_content r) \<noteq> [])
      in if \<not> isAssistantMessagePending normalized then (normalized, changed)
         else if \<not> hasMessageContent normalized \<and> \<not> hasReasoning then (normalized, changed)
         else
           let completedAt = (case m_completedAt normalized of Some t \<Rightarrow> t
                 | None \<Rightarrow> (case Option.bind (m_reasoning normalized) rs_completedAt of Some t \<Rightarrow> t
                 | None \<Rightarrow> (case m_startedAt normalized of Some t \<Rightarrow> t
                 | None \<Rightarrow> (case m_createdAt normalized of Some t \<Rightarrow> t | None \<Rightarrow> now))))
           in (completeAssistantTiming
                 ((finalizeMessage normalized None now)\<lparr>m_status := Some MComplete, m_isReasoningStreaming := Some False\<rparr>)
                 completedAt, True))"

definition saveMessages :: "storage_env \<Rightarrow> message list \<Rightarrow> storage \<Rightarrow> storage" where
  "saveMessages env ms st =
     (case schema_parse env (schema_json env (trimMessages ms)) of
        None \<Rightarrow> st
      | Some parsed \<Rightarrow> writeStoredValue env messagesKey (schema_json env parsed) st)"

text \<open>The three stages on the parsed list, with the test whether anything is a new object.\<close>

definition repairLoaded :: "storage_env \<Rightarrow> message list \<Rightarrow> message list \<times> bool" where
  "repairLoaded env parsed =
     (let normalized = map (normalizeStoredMessageForLoad (clock env)) parsed;
          trimmed = trimMessages (map fst normalized);
          sizeTrimmed = trimMessagesByContentSize trimmed;
          sanitized = sanitizeMessagesOnLoad (translate env) sizeTrimmed (clock env)
      in (sanitized,
          list_ex snd normalized \<or>
          length normalized > MAX_STORED_MESSAGES \<or> \<comment> \<open>\<open>trimmed !== normalized\<close>\<close>
          True \<or> \<comment> \<open>\<open>sizeTrimmed !== trimmed\<close>: the loop always builds a new array\<close>
          lastPending sizeTrimmed \<noteq> None)) \<comment> \<open>\<open>sanitized !== sizeTrimmed\<close>\<close>"

definition loadMessages :: "storage_env \<Rightarrow> storage \<Rightarrow> storage \<times> message list option" where
  "loadMessages env st =
     (case readStoredMessagesValue env st of
        (st', Inl _) \<Rightarrow> (st', None)
      | (st', Inr None) \<Rightarrow> (st', None)
      | (st', Inr (Some saved)) \<Rightarrow>
          if \<not> json_truthy saved then (st', None)
          else
            (case schema_parse env (unwrapStoredValue saved) of
               None \<Rightarrow> (st', None)
             | Some parsed \<Rightarrow>
                 let (sanitized, rewrite) = repairLoaded env parsed
                 in (if rewrite then saveMessages env sanitized st' else st', Some sanitized)))"

definition clearPlaygroundData :: "storage \<Rightarrow> storage" where
  "clearPlaygroundData st =
     AList.delete messagesKey (AList.delete (lit ''playground_parameter_enabled'')
       (AList.delete (lit ''playground_config'') st))"

section \<open>Limits are kept\<close>



lemma trimMessages_fix: "length ms \<le> MAX_STORED_MESSAGES \<Longrightarrow> trimMessages ms = ms"
  by (simp add: trimMessages_def)

lemma length_truncateText: "length (truncateText txt n) \<le> n"
  by (auto simp: truncateText_def)

lemma truncateText_fix: "length txt \<le> n \<Longrightarrow> truncateText txt n = txt"
  by (simp add: truncateText_def)

definition totalSize :: "message list \<Rightarrow> nat" where
  "totalSize ms = sum_list (map getMessageSize ms)"

lemma sizeLoop_spec:
  assumes "length result \<le> 1 \<or> totalSize result \<le> MAX_LOADED_MESSAGES_CHARS" and "t = totalSize result"
  shows "\<exists>k. sizeLoop rest t result = rev (take k rest) @ result \<and> (rest \<noteq> [] \<and> result = [] \<longrightarrow> 0 < k) \<and>
    (length (sizeLoop rest t result) \<le> 1 \<or> totalSize (sizeLoop rest t result) \<le> MAX_LOADED_MESSAGES_CHARS) \<and>
    (totalSize rest + t \<le> MAX_LOADED_MESSAGES_CHARS \<longrightarrow> length rest \<le> k)"
  using assms
proof (induction rest arbitrary: t result)
  case Nil
  then show ?case by auto
next
  case (Cons m rest)
  show ?case
  proof (cases "result \<noteq> [] \<and> t + getMessageSize m > MAX_LOADED_MESSAGES_CHARS")
    case True
    with Cons.prems show ?thesis by (intro exI [of _ 0]) (auto simp: totalSize_def)
  next
    case False
    have "length (m # result) \<le> 1 \<or> totalSize (m # result) \<le> MAX_LOADED_MESSAGES_CHARS"
      using False Cons.prems by (auto simp: totalSize_def)
    moreover have t: "t + getMessageSize m = totalSize (m # result)" using Cons.prems by (simp add: totalSize_def)
    ultimately obtain k where "sizeLoop rest (t + getMessageSize m) (m # result) = rev (take k rest) @ m # result"
      "length (sizeLoop rest (t + getMessageSize m) (m # result)) \<le> 1 \<or>
         totalSize (sizeLoop rest (t + getMessageSize m) (m # result)) \<le> MAX_LOADED_MESSAGES_CHARS"
      "totalSize rest + (t + getMessageSize m) \<le> MAX_LOADED_MESSAGES_CHARS \<longrightarrow> length rest \<le> k"
      using Cons.IH [of "m # result" "t + getMessageSize m"] by blast
    with False show ?thesis
      by (intro exI [of _ "Suc k"]) (auto simp: totalSize_def algebra_simps)
  qed
qed

lemma sizeTrimmed_spec:
  "\<exists>a. ms = a @ trimMessagesByContentSize ms \<and> (ms \<noteq> [] \<longrightarrow> trimMessagesByContentSize ms \<noteq> []) \<and>
    (length (trimMessagesByContentSize ms) \<le> 1 \<or>
     totalSize (trimMessagesByContentSize ms) \<le> MAX_LOADED_MESSAGES_CHARS) \<and>
    (totalSize ms \<le> MAX_LOADED_MESSAGES_CHARS \<longrightarrow> trimMessagesByContentSize ms = ms)"
proof -
  have total: "totalSize (rev ms) = totalSize ms"
    by (simp add: totalSize_def rev_map [symmetric] sum_list_rev)
  obtain k where raw: "sizeLoop (rev ms) 0 [] = rev (take k (rev ms)) @ []" "rev ms \<noteq> [] \<and> [] = ([] :: message list) \<longrightarrow> 0 < k"
      "length (sizeLoop (rev ms) 0 []) \<le> 1 \<or> totalSize (sizeLoop (rev ms) 0 []) \<le> MAX_LOADED_MESSAGES_CHARS"
      "totalSize (rev ms) + 0 \<le> MAX_LOADED_MESSAGES_CHARS \<longrightarrow> length (rev ms) \<le> k"
  proof -
    have "0 = totalSize []" "length ([] :: message list) \<le> 1 \<or> totalSize [] \<le> MAX_LOADED_MESSAGES_CHARS"
      by (simp_all add: totalSize_def)
    from sizeLoop_spec [OF this(2,1), of "rev ms"] show thesis using that by blast
  qed
  have k: "trimMessagesByContentSize ms = rev (take k (rev ms))" "ms \<noteq> [] \<longrightarrow> 0 < k"
    "length (trimMessagesByContentSize ms) \<le> 1 \<or> totalSize (trimMessagesByContentSize ms) \<le> MAX_LOADED_MESSAGES_CHARS"
    "totalSize ms \<le> MAX_LOADED_MESSAGES_CHARS \<longrightarrow> length ms \<le> k"
    using raw total unfolding trimMessagesByContentSize_def by simp_all
  have "ms = take (length ms - k) ms @ trimMessagesByContentSize ms"
    using k(1) by (simp add: take_rev)
  with k show ?thesis by (intro exI [of _ "take (length ms - k) ms"]) (auto simp: take_rev)
qed

lemma normalizeVersion_bound: "length (v_content (normalizeVersion v)) \<le> MAX_LOADED_MESSAGE_CHARS"
  by (simp add: normalizeVersion_def length_truncateText)

lemma versionChanged_fix: "\<not> versionChanged v \<Longrightarrow> normalizeVersion v = v"
  unfolding versionChanged_def normalizeVersion_def by (cases v) auto



section \<open>Saving and loading\<close>

text \<open>An environment whose printer and parser agree on what is stored.\<close>

definition agrees :: "storage_env \<Rightarrow> message list \<Rightarrow> bool" where
  "agrees env ms \<longleftrightarrow> schema_parse env (schema_json env ms) = Some ms \<and>
     json_parse env (json_stringify env (envelope (schema_json env ms))) = Some (envelope (schema_json env ms)) \<and>
     json_stringify env (envelope (schema_json env ms)) \<noteq> [] \<and>
     accepts_write env (json_stringify env (envelope (schema_json env ms)))"

lemma unwrap_envelope [simp]: "unwrapStoredValue (envelope d) = d"
  by (simp add: unwrapStoredValue_def envelope_def js_eval)

lemma envelope_truthy [simp]: "json_truthy (envelope d)"
  by (simp add: envelope_def)

lemma saved_text:
  assumes "agrees env ms" and "length ms \<le> MAX_STORED_MESSAGES"
  shows "map_of (saveMessages env ms st) messagesKey = Some (json_stringify env (envelope (schema_json env ms)))"
  using assms by (simp add: saveMessages_def trimMessages_fix agrees_def writeStoredValue_def assoc.lookup_put)

text \<open>A message that loading leaves alone.\<close>

definition settled :: "message \<Rightarrow> bool" where
  "settled m \<longleftrightarrow> list_all (\<lambda>v. length (v_content v) < MIN_PREFIX_COLLAPSE_LENGTH) (m_versions m) \<and>
     (case m_reasoning m of None \<Rightarrow> True | Some r \<Rightarrow> length (rs_content r) \<le> MAX_LOADED_MESSAGE_CHARS) \<and>
     \<not> isAssistantMessagePending m"

lemma short_version: "length (v_content v) < MIN_PREFIX_COLLAPSE_LENGTH \<Longrightarrow> \<not> versionChanged v"
  by (simp add: versionChanged_def normalizeVersion_def collapseRepeatedSectionSnapshots_def truncateText_def
      MIN_PREFIX_COLLAPSE_LENGTH_def MAX_LOADED_MESSAGE_CHARS_def)

lemma normalize_settled:
  assumes "settled m"
  shows "normalizeStoredMessageForLoad t m = (m, False)"
proof -
  have "\<not> list_ex versionChanged (m_versions m)"
    using assms short_version by (auto simp: settled_def list_ex_iff list_all_iff)
  moreover have "map_option rs_content (map_option (\<lambda>r. r\<lparr>rs_content := truncateText (rs_content r) MAX_LOADED_MESSAGE_CHARS\<rparr>) (m_reasoning m)) =
      map_option rs_content (m_reasoning m)"
    using assms by (auto simp: settled_def truncateText_fix split: option.splits)
  ultimately show ?thesis
    using assms by (simp add: normalizeStoredMessageForLoad_def Let_def settled_def)
qed

lemma repair_settled:
  assumes "list_all settled ms" and "length ms \<le> MAX_STORED_MESSAGES" and "totalSize ms \<le> MAX_LOADED_MESSAGES_CHARS"
  shows "fst (repairLoaded env ms) = ms"
proof -
  have "map fst (map (normalizeStoredMessageForLoad (clock env)) ms) = ms"
    using assms(1) normalize_settled by (simp add: list_all_iff map_idI)
  moreover have "trimMessagesByContentSize ms = ms" using sizeTrimmed_spec [of ms] assms(3) by blast
  moreover have "lastPending ms = None"
    using assms(1) by (auto simp: lastPending_def find_None_iff settled_def list_all_length isPendingAssistantMessage_def)
  ultimately show ?thesis
    using assms(2) by (simp add: repairLoaded_def Let_def trimMessages_fix sanitizeMessagesOnLoad_def)
qed

text \<open>What the limits let through unchanged, and that it comes back at any later time.\<close>

definition storable :: "storage_env \<Rightarrow> message list \<Rightarrow> bool" where
  "storable env ms \<longleftrightarrow> agrees env ms \<and> list_all settled ms \<and> length ms \<le> MAX_STORED_MESSAGES \<and>
     totalSize ms \<le> MAX_LOADED_MESSAGES_CHARS \<and>
     length (json_stringify env (envelope (schema_json env ms))) \<le> MAX_STORED_MESSAGES_BYTES"

lemma saved_comes_back:
  assumes "storable env ms"
  shows "snd (loadMessages (env\<lparr>clock := t\<rparr>) (saveMessages env ms st)) = Some ms"
proof -
  have "readStoredMessagesValue (env\<lparr>clock := t\<rparr>) (saveMessages env ms st) =
      (saveMessages env ms st, Inr (Some (envelope (schema_json env ms))))"
    using assms saved_text [of env ms st]
    by (simp add: storable_def readStoredMessagesValue_def agrees_def)
  moreover obtain rewrite where "repairLoaded (env\<lparr>clock := t\<rparr>) ms = (ms, rewrite)"
    using repair_settled [of ms "env\<lparr>clock := t\<rparr>"] assms by (metis storable_def prod.collapse)
  ultimately show ?thesis
    using assms by (simp add: loadMessages_def storable_def agrees_def)
qed

lemma loaded_is_saved:
  assumes "loadMessages env st = (st', Some ms)"
  shows "\<exists>st''. st' = saveMessages env ms st''"
  using assms by (auto simp: loadMessages_def repairLoaded_def Let_def split: prod.splits sum.splits option.splits if_splits)

lemma nothing_loaded_again:
  assumes "loadMessages env st = (st', None)"
  shows "snd (loadMessages (env\<lparr>clock := t\<rparr>) st') = None"
proof -
  have "st' = st \<or> map_of st' messagesKey = None"
    using assms by (auto simp: loadMessages_def readStoredMessagesValue_def assoc.lookup_remove Let_def
        split: prod.splits sum.splits option.splits if_splits)
  moreover have "snd (loadMessages (env\<lparr>clock := t\<rparr>) st) = None"
    using assms by (auto simp: loadMessages_def readStoredMessagesValue_def Let_def split: prod.splits sum.splits option.splits if_splits)
  ultimately show ?thesis by (auto simp: loadMessages_def readStoredMessagesValue_def)
qed

text \<open>C20. A saved conversation comes back as it was: up to one hundred settled messages with texts below
  the repair threshold and at most 120000 characters in total, whose stored form stays under the size
  limit, are loaded exactly as they were saved.\<close>

theorem history_roundtrip:
  assumes "agrees env ms" and "list_all settled ms" and "length ms \<le> 100" and "totalSize ms \<le> 120000"
    and "length (json_stringify env (envelope (schema_json env ms))) \<le> 1024 * 1024"
  shows "snd (loadMessages env (saveMessages env ms st)) = Some ms"
proof -
  have "storable env ms"
    using assms by (simp add: storable_def MAX_STORED_MESSAGES_def MAX_LOADED_MESSAGES_CHARS_def MAX_STORED_MESSAGES_BYTES_def)
  from saved_comes_back [OF this, of "clock env" st] show ?thesis by simp
qed

definition sampleUser :: message where
  "sampleUser = createUserMessage (lit ''k'') (lit ''v'') (lit ''Hi'') 5"

text \<open>Environments for one stored list, with its stored text.\<close>

definition sampleEnv :: "jstring \<Rightarrow> storage_env" where
  "sampleEnv stored = \<lparr>json_parse = (\<lambda>s. if s = stored then Some (envelope (JArr [])) else None),
     json_stringify = (\<lambda>j. stored), schema_parse = (\<lambda>j. Some [sampleUser]), schema_json = (\<lambda>ms. JArr []),
     accepts_write = (\<lambda>s. True), translate = id, clock = 7\<rparr>"

lemma sampleEnv_agrees: "stored \<noteq> [] \<Longrightarrow> agrees (sampleEnv stored) [sampleUser]"
  by (simp add: agrees_def sampleEnv_def)

lemma sampleUser_settled: "settled sampleUser" "totalSize [sampleUser] = 2"
  by (simp_all add: settled_def sampleUser_def createUserMessage_def emptyMessage_def createMessageVersion_def
      isAssistantMessagePending_def MIN_PREFIX_COLLAPSE_LENGTH_def totalSize_def getMessageSize_def js_eval)

theorem history_roundtrip_witness:
  "snd (loadMessages (sampleEnv (lit ''x'')) (saveMessages (sampleEnv (lit ''x'')) [sampleUser] [])) = Some [sampleUser]"
proof (rule history_roundtrip)
  show "length (json_stringify (sampleEnv (lit ''x'')) (envelope (schema_json (sampleEnv (lit ''x'')) [sampleUser]))) \<le> 1024 * 1024"
    by (simp add: sampleEnv_def js_eval)
qed (simp_all add: sampleEnv_agrees sampleUser_settled)


text \<open>C21. A conversation that is saved can be too large to be loaded: saving limits the number of
  messages but not their size, and loading deletes a stored text of more than 1048576 units. Such a
  conversation is written, and the next load returns nothing and removes it.\<close>

theorem oversized_history_is_deleted:
  assumes "agrees env ms" and "length ms \<le> 100"
    and "length (json_stringify env (envelope (schema_json env ms))) > 1024 * 1024"
  shows "map_of (saveMessages env ms st) messagesKey \<noteq> None \<and>
    snd (loadMessages env (saveMessages env ms st)) = None \<and>
    map_of (fst (loadMessages env (saveMessages env ms st))) messagesKey = None"
proof -
  have len: "length ms \<le> MAX_STORED_MESSAGES" using assms(2) by (simp add: MAX_STORED_MESSAGES_def)
  have "readStoredMessagesValue env (saveMessages env ms st) =
      (AList.delete messagesKey (saveMessages env ms st), Inr None)"
    using assms(1,3) saved_text [OF assms(1) len]
    by (simp add: readStoredMessagesValue_def agrees_def MAX_STORED_MESSAGES_BYTES_def)
  then show ?thesis
    using saved_text [OF assms(1) len] by (simp add: loadMessages_def assoc.lookup_remove)
qed

theorem oversized_history_is_deleted_witness:
  "snd (loadMessages (sampleEnv (replicate 1048577 120)) (saveMessages (sampleEnv (replicate 1048577 120)) [sampleUser] [])) = None"
proof -
  let ?env = "sampleEnv (replicate 1048577 120)"
  have "length (json_stringify ?env (envelope (schema_json ?env [sampleUser]))) > 1024 * 1024"
    by (simp add: sampleEnv_def)
  moreover have "agrees ?env [sampleUser]"
    by (rule sampleEnv_agrees) (metis length_0_conv length_replicate zero_neq_numeral)
  ultimately show ?thesis using oversized_history_is_deleted [of ?env "[sampleUser]" "[]"] by simp
qed

end
