(* ===== verification/StreamRequest.thy ===== *)
theory StreamRequest
  imports PlaygroundMessages
begin

text \<open>
  \<^verbatim>\<open>web/src/features/playground/lib/streaming/*.ts\<close> and \<^verbatim>\<open>hooks/use-stream-request.ts\<close>: the payload of a
  chat request, the decoding of server-sent events, and the controller that owns the event source.

  The controller's closures capture the generation of their request and their source, so an event
  carries both. What the controller tells its caller is recorded in \<open>calls\<close>, each call with the
  generation of its request; the callers do not call back into the controller. Decoding of JSON is an
  argument, and members of decoded values have their declared types.
\<close>

section \<open>Payload\<close>

record playground_config =
  cfg_model :: jstring
  cfg_group :: jstring
  cfg_temperature :: rat
  cfg_top_p :: rat
  cfg_max_tokens :: rat
  cfg_frequency_penalty :: rat
  cfg_presence_penalty :: rat
  cfg_seed :: "rat option"
  cfg_stream :: bool

record parameter_enabled =
  en_temperature :: bool
  en_top_p :: bool
  en_max_tokens :: bool
  en_frequency_penalty :: bool
  en_presence_penalty :: bool
  en_seed :: bool

record chat_request =
  req_model :: jstring
  req_group :: jstring
  req_messages :: "(message_role \<times> message_content) list"
  req_stream :: bool
  req_temperature :: "rat option"
  req_top_p :: "rat option"
  req_max_tokens :: "rat option"
  req_frequency_penalty :: "rat option"
  req_presence_penalty :: "rat option"
  req_seed :: "rat option"

definition DEFAULT_CONFIG :: playground_config where
  "DEFAULT_CONFIG = \<lparr>cfg_model = lit ''gpt-4o'', cfg_group = lit ''default'', cfg_temperature = 7 / 10, cfg_top_p = 1,
     cfg_max_tokens = 4096, cfg_frequency_penalty = 0, cfg_presence_penalty = 0, cfg_seed = None, cfg_stream = True\<rparr>"

definition DEFAULT_PARAMETER_ENABLED :: parameter_enabled where
  "DEFAULT_PARAMETER_ENABLED = \<lparr>en_temperature = True, en_top_p = True, en_max_tokens = False,
     en_frequency_penalty = True, en_presence_penalty = True, en_seed = False\<rparr>"

definition buildChatCompletionPayload :: "message list \<Rightarrow> playground_config \<Rightarrow> parameter_enabled \<Rightarrow> chat_request" where
  "buildChatCompletionPayload ms cfg en =
     \<lparr>req_model = cfg_model cfg, req_group = cfg_group cfg,
      req_messages = map formatMessageForAPI (filter isValidMessage ms), req_stream = cfg_stream cfg,
      req_temperature = (if en_temperature en then Some (cfg_temperature cfg) else None),
      req_top_p = (if en_top_p en then Some (cfg_top_p cfg) else None),
      req_max_tokens = (if en_max_tokens en then Some (cfg_max_tokens cfg) else None),
      req_frequency_penalty = (if en_frequency_penalty en then Some (cfg_frequency_penalty cfg) else None),
      req_presence_penalty = (if en_presence_penalty en then Some (cfg_presence_penalty cfg) else None),
      req_seed = (if en_seed en \<and> cfg_seed cfg \<noteq> None then cfg_seed cfg else None)\<rparr>"

section \<open>Decoding events\<close>

definition API_REQUEST_ERROR :: jstring where "API_REQUEST_ERROR = lit ''Request error occurred''"
definition PARSE_ERROR :: jstring where "PARSE_ERROR = lit ''Error parsing response data''"
definition STREAM_START_ERROR :: jstring where "STREAM_START_ERROR = lit ''Error establishing connection''"
definition CONNECTION_CLOSED :: jstring where "CONNECTION_CLOSED = lit ''Connection closed''"

definition text_member :: "json option \<Rightarrow> string \<Rightarrow> jstring option" where
  "text_member v k =
     (case as_str (js_opt_get v (lit k)) of None \<Rightarrow> None | Some s \<Rightarrow> if s = [] then None else Some s)"

definition parseStreamErrorDetails :: "(jstring \<Rightarrow> json option) \<Rightarrow> jstring option \<Rightarrow> jstring \<times> jstring option" where
  "parseStreamErrorDetails parse d =
     (let fallbackMessage = (case d of None \<Rightarrow> API_REQUEST_ERROR | Some s \<Rightarrow> if s = [] then API_REQUEST_ERROR else s)
      in case d of
           None \<Rightarrow> (fallbackMessage, None)
         | Some s \<Rightarrow>
             if s = [] then (fallbackMessage, None)
             else
               case parse s of
                 None \<Rightarrow> (fallbackMessage, None)
               | Some v \<Rightarrow>
                   let err = js_get v (lit ''error'')
                   in if \<not> js_truthy err then (fallbackMessage, None)
                      else (case text_member err ''message'' of Some m \<Rightarrow> m | None \<Rightarrow> fallbackMessage,
                            text_member err ''code''))"

fun firstElement :: "json option \<Rightarrow> json option" where
  "firstElement (Some (JArr (x # xs))) = Some x"
| "firstElement _ = None"

text \<open>\<open>None\<close> is an exception: invalid JSON, or a member access on \<open>null\<close>.\<close>

definition parseStreamMessageUpdates :: "(jstring \<Rightarrow> json option) \<Rightarrow> jstring \<Rightarrow> (chunk_type \<times> jstring) list option" where
  "parseStreamMessageUpdates parse d =
     (case parse d of
        None \<Rightarrow> None
      | Some v \<Rightarrow>
          if v = JNull then None
          else
            let delta = js_opt_get (firstElement (js_get v (lit ''choices''))) (lit ''delta'')
            in Some (if \<not> js_truthy delta then []
                 else
                   (case text_member delta ''reasoning_content'' of None \<Rightarrow> [] | Some c \<Rightarrow> [(ReasoningChunk, c)]) @
                   (case text_member delta ''content'' of None \<Rightarrow> [] | Some c \<Rightarrow> [(ContentChunk, c)])))"

definition isStreamDoneMessage :: "jstring \<Rightarrow> bool" where
  "isStreamDoneMessage d \<longleftrightarrow> d = lit ''[DONE]''"

definition isStreamClosedReadyState :: "nat option \<Rightarrow> bool" where
  "isStreamClosedReadyState r \<longleftrightarrow> r = Some 2"

definition getStreamReadyStateError :: "nat option \<Rightarrow> nat option \<Rightarrow> jstring option" where
  "getStreamReadyStateError eventReadyState sourceStatus =
     (case (eventReadyState, sourceStatus) of
        (Some r, Some s) \<Rightarrow>
          if r \<ge> 2 \<and> s \<noteq> 200 then Some (lit ''HTTP '' @ js_decimal s @ lit '': '' @ CONNECTION_CLOSED) else None
      | _ \<Rightarrow> None)"

definition parseRequestErrorDetails :: "json option \<Rightarrow> jstring \<times> jstring option" where
  "parseRequestErrorDetails e =
     (let d = js_opt_get (js_opt_get e (lit ''response'')) (lit ''data'')
      in (case text_member d ''message'' of Some m \<Rightarrow> m
          | None \<Rightarrow> (case text_member e ''message'' of Some m \<Rightarrow> m | None \<Rightarrow> API_REQUEST_ERROR),
          text_member (js_opt_get d (lit ''error'')) ''code''))"

section \<open>The controller\<close>

datatype stream_call = OnUpdate chunk_type jstring | OnComplete | OnError jstring "jstring option"

record stream_controller =
  sc_source :: "nat option" \<comment> \<open>\<open>source\<close>: the active event source\<close>
  sc_generation :: nat
  sc_completed :: "nat list" \<comment> \<open>the sources whose \<open>completed\<close> flag is set\<close>
  sc_open :: "nat list" \<comment> \<open>sources created and not closed\<close>
  sc_created :: nat
  sc_streaming :: bool
  sc_calls :: "(nat \<times> stream_call) list"

definition initialController :: stream_controller where
  "initialController = \<lparr>sc_source = None, sc_generation = 0, sc_completed = [], sc_open = [], sc_created = 0,
     sc_streaming = False, sc_calls = []\<rparr>"

definition closeSource :: "nat \<Rightarrow> stream_controller \<Rightarrow> stream_controller" where
  "closeSource n c = c\<lparr>sc_open := filter (\<lambda>x. x \<noteq> n) (sc_open c)\<rparr>"

definition closeActiveSource :: "nat \<Rightarrow> stream_controller \<Rightarrow> stream_controller" where
  "closeActiveSource target c =
     (let c' = closeSource target c
      in if sc_source c' = Some target then c'\<lparr>sc_source := None, sc_streaming := False\<rparr> else c')"

definition tell :: "nat \<Rightarrow> stream_call \<Rightarrow> stream_controller \<Rightarrow> stream_controller" where
  "tell g call c = c\<lparr>sc_calls := sc_calls c @ [(g, call)]\<rparr>"

definition closePrevious :: "stream_controller \<Rightarrow> stream_controller" where
  "closePrevious c =
     (case sc_source c of None \<Rightarrow> c | Some n \<Rightarrow> closeSource n (c\<lparr>sc_source := None\<rparr>))"

text \<open>\<open>send\<close> up to the wait for the headers.\<close>

definition sendStart :: "stream_controller \<Rightarrow> stream_controller" where
  "sendStart c = (closePrevious (c\<lparr>sc_generation := sc_generation c + 1\<rparr>))\<lparr>sc_streaming := False\<rparr>"

text \<open>The headers cannot be had: the message of the error, when it is an \<open>Error\<close>.\<close>

definition headersFailed :: "nat \<Rightarrow> jstring option \<Rightarrow> stream_controller \<Rightarrow> stream_controller" where
  "headersFailed g msg c =
     (if sc_generation c \<noteq> g then c
      else tell g (OnError (case msg of Some m \<Rightarrow> m | None \<Rightarrow> STREAM_START_ERROR) None) c)"

definition isCurrent :: "nat \<Rightarrow> nat \<Rightarrow> stream_controller \<Rightarrow> bool" where
  "isCurrent g n c \<longleftrightarrow> sc_generation c = g \<and> sc_source c = Some n"

definition handleError :: "nat \<Rightarrow> nat \<Rightarrow> jstring \<Rightarrow> jstring option \<Rightarrow> stream_controller \<Rightarrow> stream_controller" where
  "handleError g n msg code c =
     (if \<not> isCurrent g n c \<or> n \<in> set (sc_completed c) then c
      else closeActiveSource n (tell g (OnError msg code) (c\<lparr>sc_completed := n # sc_completed c\<rparr>)))"

text \<open>The headers are there: the source is created and started; \<open>starts\<close> is false when \<open>stream()\<close>
  throws.\<close>

definition headersReady :: "nat \<Rightarrow> bool \<Rightarrow> stream_controller \<Rightarrow> stream_controller" where
  "headersReady g starts c =
     (if sc_generation c \<noteq> g then c
      else
        let n = sc_created c;
            c' = c\<lparr>sc_created := n + 1, sc_source := Some n, sc_open := n # sc_open c, sc_streaming := True\<rparr>
        in if starts then c' else handleError g n STREAM_START_ERROR None c')"

definition onMessageEvent ::
  "(jstring \<Rightarrow> json option) \<Rightarrow> nat \<Rightarrow> nat \<Rightarrow> jstring option \<Rightarrow> stream_controller \<Rightarrow> stream_controller" where
  "onMessageEvent parse g n d c =
     (if \<not> isCurrent g n c \<or> n \<in> set (sc_completed c) then c
      else
        let txt = (case d of None \<Rightarrow> [] | Some s \<Rightarrow> s)
        in if isStreamDoneMessage txt then
             tell g OnComplete (closeActiveSource n (c\<lparr>sc_completed := n # sc_completed c\<rparr>))
           else
             case parseStreamMessageUpdates parse txt of
               Some updates \<Rightarrow> fold (\<lambda>(ty, chunk). tell g (OnUpdate ty chunk)) updates c
             | None \<Rightarrow> handleError g n PARSE_ERROR None c)"

definition onErrorEvent ::
  "(jstring \<Rightarrow> json option) \<Rightarrow> nat \<Rightarrow> nat \<Rightarrow> nat option \<Rightarrow> jstring option \<Rightarrow> stream_controller \<Rightarrow> stream_controller" where
  "onErrorEvent parse g n readyState d c =
     (if \<not> isCurrent g n c \<or> n \<in> set (sc_completed c) then c
      else if isStreamClosedReadyState readyState then c
      else let (msg, code) = parseStreamErrorDetails parse d in handleError g n msg code c)"

definition onReadyStateChange :: "nat \<Rightarrow> nat \<Rightarrow> nat option \<Rightarrow> nat option \<Rightarrow> stream_controller \<Rightarrow> stream_controller" where
  "onReadyStateChange g n eventReadyState sourceStatus c =
     (if \<not> isCurrent g n c \<or> n \<in> set (sc_completed c) then c
      else
        case getStreamReadyStateError eventReadyState sourceStatus of
          None \<Rightarrow> c
        | Some msg \<Rightarrow> if msg = [] then c else handleError g n msg None c)"

definition cancel :: "bool \<Rightarrow> stream_controller \<Rightarrow> stream_controller" where
  "cancel notify c =
     (let c' = closePrevious (c\<lparr>sc_generation := sc_generation c + 1\<rparr>)
      in if notify then c'\<lparr>sc_streaming := False\<rparr> else c')"

section \<open>Requests of another generation\<close>

datatype stream_event =
    HeadersFailed "jstring option"
  | HeadersReady bool
  | MessageEvent nat "jstring option"
  | ErrorEvent nat "nat option" "jstring option"
  | ReadyStateEvent nat "nat option" "nat option"

datatype stream_command = SendRequest | StopStream | DisposeStream

fun streamCallback :: "(jstring \<Rightarrow> json option) \<Rightarrow> nat \<Rightarrow> stream_event \<Rightarrow> stream_controller \<Rightarrow> stream_controller" where
  "streamCallback parse g (HeadersFailed msg) c = headersFailed g msg c"
| "streamCallback parse g (HeadersReady starts) c = headersReady g starts c"
| "streamCallback parse g (MessageEvent n d) c = onMessageEvent parse g n d c"
| "streamCallback parse g (ErrorEvent n r d) c = onErrorEvent parse g n r d c"
| "streamCallback parse g (ReadyStateEvent n r st) c = onReadyStateChange g n r st c"

fun streamCommand :: "stream_command \<Rightarrow> stream_controller \<Rightarrow> stream_controller" where
  "streamCommand SendRequest c = sendStart c"
| "streamCommand StopStream c = cancel True c"
| "streamCommand DisposeStream c = cancel False c"

fun streamRun :: "(jstring \<Rightarrow> json option) \<Rightarrow> (nat \<times> stream_event + stream_command) list \<Rightarrow>
    stream_controller \<Rightarrow> stream_controller" where
  "streamRun parse [] c = c"
| "streamRun parse (Inl (g, e) # h) c = streamRun parse h (streamCallback parse g e c)"
| "streamRun parse (Inr x # h) c = streamRun parse h (streamCommand x c)"

lemma generation_closePrevious [simp]: "sc_generation (closePrevious c) = sc_generation c"
  by (simp add: closePrevious_def closeSource_def split: option.splits)

lemma generation_handleError [simp]: "sc_generation (handleError g n m k c) = sc_generation c"
  by (simp add: handleError_def closeActiveSource_def closeSource_def tell_def Let_def)

lemma tells_eq: "fold (\<lambda>(ty, chunk). tell g (OnUpdate ty chunk)) us c =
    c\<lparr>sc_calls := sc_calls c @ map (\<lambda>(ty, chunk). (g, OnUpdate ty chunk)) us\<rparr>"
  by (induction us arbitrary: c) (auto simp: tell_def)

lemma generation_callback: "sc_generation (streamCallback parse g e c) = sc_generation c"
proof (cases e)
  case (MessageEvent n d)
  then show ?thesis
    by (auto simp: onMessageEvent_def Let_def tells_eq closeActiveSource_def closeSource_def tell_def split: option.splits)
next
  case (ReadyStateEvent n r st)
  then show ?thesis by (auto simp: onReadyStateChange_def split: option.splits)
qed (auto simp: headersFailed_def headersReady_def onErrorEvent_def tell_def Let_def split: prod.splits)

lemma callback_stale: "g \<noteq> sc_generation c \<Longrightarrow> streamCallback parse g e c = c"
  by (cases e) (auto simp: headersFailed_def headersReady_def onMessageEvent_def onErrorEvent_def
      onReadyStateChange_def isCurrent_def)

lemma generation_command: "sc_generation (streamCommand x c) = sc_generation c + 1"
  by (cases x) (simp_all add: sendStart_def cancel_def Let_def)

interpretation stream: generation_guard sc_generation "streamCallback parse" streamCommand for parse
  by unfold_locales (simp_all add: callback_stale generation_callback generation_command)

lemma streamRun_history: "streamRun parse h c = stream.history parse h c"
  by (induction parse h c rule: streamRun.induct) simp_all

text \<open>C22. A request that was stopped or replaced is silent for good: after a \<open>send\<close>, \<open>stop\<close> or \<open>dispose\<close>,
  headers and events that still arrive for earlier requests can be struck from whatever happens later
  without changing anything, neither the source nor what the caller is told.\<close>

theorem stopped_stream_is_silent:
  "streamRun parse h (streamCommand x c) =
     streamRun parse (filter (\<lambda>y. case y of Inl (g, e) \<Rightarrow> sc_generation c < g | Inr z \<Rightarrow> True) h) (streamCommand x c)"
proof -
  have "Suc (sc_generation c) \<le> sc_generation (streamCommand x c)"
    by (simp add: generation_command)
  from stream.erase_superseded [OF this, of parse h] show ?thesis
    unfolding streamRun_history Suc_le_eq .
qed

section \<open>Discipline of the callbacks\<close>

fun terminal :: "stream_call \<Rightarrow> bool" where
  "terminal (OnUpdate ty chunk) = False"
| "terminal _ = True"

text \<open>The controller with the requests whose headers are still awaited: that wait ends once.\<close>

record stream_system =
  ctl :: stream_controller
  awaiting :: "nat list"

inductive stream_step :: "(jstring \<Rightarrow> json option) \<Rightarrow> stream_system \<Rightarrow> stream_system \<Rightarrow> bool" for parse where
  step_send: "stream_step parse s \<lparr>ctl = sendStart (ctl s), awaiting = (sc_generation (ctl s) + 1) # awaiting s\<rparr>"
| step_failed: "g \<in> set (awaiting s) \<Longrightarrow>
     stream_step parse s \<lparr>ctl = headersFailed g msg (ctl s), awaiting = remove1 g (awaiting s)\<rparr>"
| step_ready: "g \<in> set (awaiting s) \<Longrightarrow>
     stream_step parse s \<lparr>ctl = headersReady g starts (ctl s), awaiting = remove1 g (awaiting s)\<rparr>"
| step_message: "stream_step parse s (s\<lparr>ctl := onMessageEvent parse g n d (ctl s)\<rparr>)"
| step_error: "stream_step parse s (s\<lparr>ctl := onErrorEvent parse g n r d (ctl s)\<rparr>)"
| step_ready_state: "stream_step parse s (s\<lparr>ctl := onReadyStateChange g n r st (ctl s)\<rparr>)"
| step_cancel: "stream_step parse s (s\<lparr>ctl := cancel notify (ctl s)\<rparr>)"

inductive stream_reachable :: "(jstring \<Rightarrow> json option) \<Rightarrow> stream_system \<Rightarrow> bool" for parse where
  stream_init: "stream_reachable parse \<lparr>ctl = initialController, awaiting = []\<rparr>"
| stream_move: "stream_reachable parse s \<Longrightarrow> stream_step parse s t \<Longrightarrow> stream_reachable parse t"

definition in_order :: "nat \<times> stream_call \<Rightarrow> nat \<times> stream_call \<Rightarrow> bool" where
  "in_order a b \<longleftrightarrow> fst a < fst b \<or> fst a = fst b \<and> \<not> terminal (snd a)"

definition ctl_inv :: "stream_controller \<Rightarrow> bool" where
  "ctl_inv c \<longleftrightarrow>
     (case sc_source c of None \<Rightarrow> sc_open c = []
      | Some n \<Rightarrow> sc_open c = [n] \<and> n \<notin> set (sc_completed c) \<and> n < sc_created c \<and> sc_streaming c) \<and>
     (\<forall>n \<in> set (sc_completed c). n < sc_created c) \<and>
     (\<forall>x \<in> set (sc_calls c). fst x \<le> sc_generation c) \<and>
     (\<forall>x \<in> set (sc_calls c). fst x = sc_generation c \<and> terminal (snd x) \<longrightarrow> sc_source c = None) \<and>
     sorted_wrt in_order (sc_calls c)"

definition sys_inv :: "stream_system \<Rightarrow> bool" where
  "sys_inv s \<longleftrightarrow> ctl_inv (ctl s) \<and> distinct (awaiting s) \<and> (\<forall>g \<in> set (awaiting s). g \<le> sc_generation (ctl s)) \<and>
     (sc_generation (ctl s) \<in> set (awaiting s) \<longrightarrow> sc_source (ctl s) = None \<and>
        (\<forall>x \<in> set (sc_calls (ctl s)). fst x < sc_generation (ctl s)))"

lemma ctl_inv_updates:
  assumes "ctl_inv c" and "sc_source c \<noteq> None"
  shows "ctl_inv (c\<lparr>sc_calls := sc_calls c @ map (\<lambda>(ty, chunk). (sc_generation c, OnUpdate ty chunk)) us\<rparr>)"
proof -
  have free: "\<not> (fst x = sc_generation c \<and> terminal (snd x))" if "x \<in> set (sc_calls c)" for x
    using assms that by (auto simp: ctl_inv_def)
  have new: "sorted_wrt in_order (map (\<lambda>(ty, chunk). (sc_generation c, OnUpdate ty chunk)) us)"
    by (induction us) (auto simp: in_order_def)
  have "sorted_wrt in_order (sc_calls c @ map (\<lambda>(ty, chunk). (sc_generation c, OnUpdate ty chunk)) us)"
    using assms(1) new free
    by (auto simp: sorted_wrt_append ctl_inv_def in_order_def)
  then show ?thesis using assms by (auto simp: ctl_inv_def split: option.splits)
qed

lemma ctl_inv_last:
  assumes "ctl_inv c" and "\<forall>x \<in> set (sc_calls c). \<not> (fst x = sc_generation c \<and> terminal (snd x))"
    and "sc_source c' = None" and "sc_open c' = []" and "sc_generation c' = sc_generation c"
    and "sc_created c' = sc_created c" and "\<forall>n \<in> set (sc_completed c'). n < sc_created c"
    and "sc_calls c' = sc_calls c @ [(sc_generation c, call)]"
  shows "ctl_inv c'"
proof -
  have "in_order x (sc_generation c, call)" if "x \<in> set (sc_calls c)" for x
    using assms(1,2) that by (auto simp: ctl_inv_def in_order_def le_less)
  then have "sorted_wrt in_order (sc_calls c')"
    using assms(1,8) by (simp add: sorted_wrt_append ctl_inv_def)
  then show ?thesis using assms by (auto simp: ctl_inv_def)
qed

lemma ctl_inv_handleError:
  assumes "ctl_inv c"
  shows "ctl_inv (handleError g n msg code c)"
proof (cases "\<not> isCurrent g n c \<or> n \<in> set (sc_completed c)")
  case True
  with assms show ?thesis by (simp add: handleError_def)
next
  case False
  then have cur: "sc_generation c = g" "sc_source c = Some n" by (simp_all add: isCurrent_def)
  show ?thesis
    by (rule ctl_inv_last [OF assms, of _ "OnError msg code"])
      (use assms cur False in \<open>auto simp: handleError_def closeActiveSource_def closeSource_def tell_def Let_def ctl_inv_def\<close>)
qed

lemma ctl_inv_message: "ctl_inv c \<Longrightarrow> ctl_inv (onMessageEvent parse g n d c)"
proof (cases "\<not> isCurrent g n c \<or> n \<in> set (sc_completed c)")
  case True
  moreover assume "ctl_inv c"
  ultimately show ?thesis by (simp add: onMessageEvent_def)
next
  case False
  assume inv: "ctl_inv c"
  from False have cur: "sc_generation c = g" "sc_source c = Some n" by (simp_all add: isCurrent_def)
  let ?txt = "case d of None \<Rightarrow> [] | Some s \<Rightarrow> s"
  show ?thesis
  proof (cases "isStreamDoneMessage ?txt")
    case True
    show ?thesis
      by (rule ctl_inv_last [OF inv, of _ OnComplete])
        (use inv cur False True in \<open>auto simp: onMessageEvent_def closeActiveSource_def closeSource_def tell_def Let_def ctl_inv_def\<close>)
  next
    case not_done: False
    show ?thesis
    proof (cases "parseStreamMessageUpdates parse ?txt")
      case None
      with False not_done inv show ?thesis by (simp add: onMessageEvent_def ctl_inv_handleError)
    next
      case (Some us)
      with False not_done inv cur ctl_inv_updates [OF inv, of us] show ?thesis
        by (simp add: onMessageEvent_def tells_eq)
    qed
  qed
qed

lemma ctl_inv_error: "ctl_inv c \<Longrightarrow> ctl_inv (onErrorEvent parse g n r d c)"
  by (simp add: onErrorEvent_def ctl_inv_handleError split: prod.splits)

lemma ctl_inv_readyState: "ctl_inv c \<Longrightarrow> ctl_inv (onReadyStateChange g n r st c)"
  by (simp add: onReadyStateChange_def ctl_inv_handleError split: option.splits)

lemma ctl_inv_next_generation:
  assumes "ctl_inv c"
  shows "ctl_inv (closePrevious (c\<lparr>sc_generation := sc_generation c + 1\<rparr>))"
    and "sc_source (closePrevious (c\<lparr>sc_generation := sc_generation c + 1\<rparr>)) = None"
    and "\<forall>x \<in> set (sc_calls (closePrevious (c\<lparr>sc_generation := sc_generation c + 1\<rparr>))). fst x < sc_generation c + 1"
  using assms
  by (auto simp: ctl_inv_def closePrevious_def closeSource_def split: option.splits dest: bspec le_imp_less_Suc)

lemma ctl_inv_streaming: "ctl_inv c \<Longrightarrow> sc_source c = None \<Longrightarrow> ctl_inv (c\<lparr>sc_streaming := b\<rparr>)"
  by (simp add: ctl_inv_def)

lemma ctl_inv_send: "ctl_inv c \<Longrightarrow> ctl_inv (sendStart c)" and ctl_inv_cancel: "ctl_inv c \<Longrightarrow> ctl_inv (cancel b c)"
  using ctl_inv_next_generation [of c] by (simp_all add: sendStart_def cancel_def ctl_inv_streaming Let_def)

lemma ctl_inv_headersFailed:
  assumes "ctl_inv c" and "sc_generation c = g \<Longrightarrow> sc_source c = None \<and> (\<forall>x \<in> set (sc_calls c). fst x < g)"
  shows "ctl_inv (headersFailed g msg c)"
proof (cases "sc_generation c = g")
  case False
  with assms show ?thesis by (simp add: headersFailed_def)
next
  case True
  show ?thesis
    by (rule ctl_inv_last [OF assms(1), of _ "OnError (case msg of Some m \<Rightarrow> m | None \<Rightarrow> STREAM_START_ERROR) None"])
      (use assms True in \<open>auto simp: headersFailed_def tell_def ctl_inv_def\<close>)
qed

lemma ctl_inv_headersReady:
  assumes "ctl_inv c" and "sc_generation c = g \<Longrightarrow> sc_source c = None \<and> (\<forall>x \<in> set (sc_calls c). fst x < g)"
  shows "ctl_inv (headersReady g starts c)"
proof (cases "sc_generation c = g")
  case False
  with assms show ?thesis by (simp add: headersReady_def)
next
  case True
  let ?c = "c\<lparr>sc_created := sc_created c + 1, sc_source := Some (sc_created c), sc_open := sc_created c # sc_open c,
      sc_streaming := True\<rparr>"
  have "ctl_inv ?c" using assms True by (auto simp: ctl_inv_def)
  with True show ?thesis by (simp add: headersReady_def ctl_inv_handleError Let_def)
qed

lemma idle_events [simp]:
  assumes "sc_source c = None"
  shows "onMessageEvent parse g n d c = c" "onErrorEvent parse g n r d c = c" "onReadyStateChange g n r st c = c"
  using assms by (simp_all add: onMessageEvent_def onErrorEvent_def onReadyStateChange_def isCurrent_def)

lemma generation_events [simp]:
  "sc_generation (onMessageEvent parse g n d c) = sc_generation c"
  "sc_generation (onErrorEvent parse g n r d c) = sc_generation c"
  "sc_generation (onReadyStateChange g n r st c) = sc_generation c"
  "sc_generation (headersFailed g msg c) = sc_generation c"
  "sc_generation (headersReady g starts c) = sc_generation c"
  using generation_callback [of parse g "MessageEvent n d" c] generation_callback [of parse g "ErrorEvent n r d" c]
    generation_callback [of parse g "ReadyStateEvent n r st" c] generation_callback [of parse g "HeadersFailed msg" c]
    generation_callback [of parse g "HeadersReady starts" c] by simp_all

lemma sys_inv_event:
  assumes "sys_inv s" and "ctl_inv c" and "sc_generation c = sc_generation (ctl s)"
    and "sc_source (ctl s) = None \<Longrightarrow> c = ctl s"
  shows "sys_inv (s\<lparr>ctl := c\<rparr>)"
  using assms by (auto simp: sys_inv_def)

lemma sys_inv_headers:
  assumes "sys_inv s" and "g \<in> set (awaiting s)" and "ctl_inv c" and "sc_generation c = sc_generation (ctl s)"
    and "g \<noteq> sc_generation (ctl s) \<Longrightarrow> c = ctl s"
  shows "sys_inv \<lparr>ctl = c, awaiting = remove1 g (awaiting s)\<rparr>"
  using assms by (cases "g = sc_generation (ctl s)") (auto simp: sys_inv_def dest: in_set_remove1 [THEN iffD1, rotated])

lemma sys_inv_step:
  assumes "stream_step parse s t" and "sys_inv s"
  shows "sys_inv t"
proof -
  have inv: "ctl_inv (ctl s)" using assms(2) by (simp add: sys_inv_def)
  have waiting: "sc_generation (ctl s) = g \<Longrightarrow> sc_source (ctl s) = None \<and> (\<forall>x \<in> set (sc_calls (ctl s)). fst x < g)"
    if "g \<in> set (awaiting s)" for g
    using assms(2) that by (auto simp: sys_inv_def)
  note next_gen = ctl_inv_next_generation [OF inv]
  from assms(1) show ?thesis
  proof (cases rule: stream_step.cases)
    case step_send
    then show ?thesis
      using assms(2) next_gen(2,3) ctl_inv_send [OF inv] by (fastforce simp: sys_inv_def sendStart_def)
  next
    case (step_failed g msg)
    have "ctl_inv (headersFailed g msg (ctl s))"
      by (rule ctl_inv_headersFailed [OF inv waiting]) (rule step_failed(2))
    from sys_inv_headers [OF assms(2) step_failed(2) this] step_failed(1) show ?thesis
      using callback_stale [of g "ctl s" parse "HeadersFailed msg"] by simp
  next
    case (step_ready g starts)
    have "ctl_inv (headersReady g starts (ctl s))"
      by (rule ctl_inv_headersReady [OF inv waiting]) (rule step_ready(2))
    from sys_inv_headers [OF assms(2) step_ready(2) this] step_ready(1) show ?thesis
      using callback_stale [of g "ctl s" parse "HeadersReady starts"] by simp
  next
    case (step_message g n d)
    then show ?thesis using ctl_inv_message [OF inv] by (simp add: sys_inv_event [OF assms(2)])
  next
    case (step_error g n r d)
    then show ?thesis using ctl_inv_error [OF inv] by (simp add: sys_inv_event [OF assms(2)])
  next
    case (step_ready_state g n r st)
    then show ?thesis using ctl_inv_readyState [OF inv] by (simp add: sys_inv_event [OF assms(2)])
  next
    case (step_cancel notify)
    then show ?thesis
      using assms(2) next_gen(2,3) ctl_inv_cancel [OF inv] by (fastforce simp: sys_inv_def cancel_def Let_def)
  qed
qed

text \<open>C23. Each request ends at most once and one connection is open at a time: in every interleaving of
  requests, stops, headers and events, the calls to the caller come in order of the requests; no call of
  a request follows its completion or error; at most one event source is open, it is the active one, it
  belongs to a request that has not ended, and the streaming flag is set while it is open.\<close>

theorem stream_callbacks_disciplined:
  assumes "stream_reachable parse s"
  shows "sorted_wrt in_order (sc_calls (ctl s)) \<and>
    (case sc_source (ctl s) of None \<Rightarrow> sc_open (ctl s) = []
     | Some n \<Rightarrow> sc_open (ctl s) = [n] \<and> n \<notin> set (sc_completed (ctl s)) \<and> sc_streaming (ctl s))"
proof -
  have "sys_inv s" using assms
  proof (induction rule: stream_reachable.induct)
    case stream_init
    show ?case by (simp add: sys_inv_def ctl_inv_def initialController_def)
  next
    case (stream_move s t)
    then show ?case by (blast intro: sys_inv_step)
  qed
  then show ?thesis by (auto simp: sys_inv_def ctl_inv_def split: option.splits)
qed

theorem stream_callbacks_disciplined_witness:
  "sorted_wrt in_order (sc_calls (headersFailed 1 None (sendStart initialController)))"
proof -
  let ?s = "\<lparr>ctl = initialController, awaiting = []\<rparr>"
  let ?t = "\<lparr>ctl = sendStart (ctl ?s), awaiting = (sc_generation (ctl ?s) + 1) # awaiting ?s\<rparr>"
  have "stream_reachable (\<lambda>_. None) ?t"
    by (rule stream_move [OF stream_init step_send])
  moreover have "1 \<in> set (awaiting ?t)" by (simp add: initialController_def)
  ultimately have "stream_reachable (\<lambda>_. None) \<lparr>ctl = headersFailed 1 None (ctl ?t), awaiting = remove1 1 (awaiting ?t)\<rparr>"
    by (rule stream_move [OF _ step_failed])
  from stream_callbacks_disciplined [OF this] show ?thesis by simp
qed

end
