(* ===== verification/ChatHandler.thy ===== *)
theory ChatHandler
  imports Conversation StreamRequest
begin

text \<open>
  \<^verbatim>\<open>web/src/features/playground/hooks/use-chat-handler.ts\<close>: sending a conversation and putting the answer
  into its last message. Chunks are buffered and flushed by a timer; every request has a generation,
  and whatever belongs to another generation is ignored.

  \<open>onMessageUpdate\<close> hands React an updater. React applies updaters in order, at the latest when it
  renders, which can be after the code that queued them went on; the model keeps them in \<open>ch_queue\<close>
  until \<open>render\<close>, together with the updates of the page's own handlers. The updaters test the generation when they run. Calls to the stream controller are
  recorded in \<open>ch_stream\<close>.
\<close>

section \<open>State\<close>

datatype chat_update =
    FlushUpdate nat jstring jstring \<comment> \<open>generation, reasoning, content\<close>
  | CompleteUpdate nat
  | ErrorUpdate nat jstring "jstring option" jstring
  | ResponseUpdate nat "completion_choice list option"
  | StopUpdate nat
  | ReplaceMessages "message list" \<comment> \<open>a list in place of an updater\<close>
  | RemoveMessage jstring
  | LoadedMessages "message list" \<comment> \<open>\<open>setMessages\<close> after loading\<close>

record chat =
  ch_generation :: nat \<comment> \<open>\<open>requestGenerationRef\<close>\<close>
  ch_pendingGeneration :: nat
  ch_pendingContent :: jstring
  ch_pendingReasoning :: jstring
  ch_timer :: "nat option" \<comment> \<open>\<open>streamFlushTimerRef\<close>: the generation the timer flushes\<close>
  ch_abort :: "nat option" \<comment> \<open>\<open>abortControllerRef\<close>: the request it belongs to\<close>
  ch_aborted :: "nat list"
  ch_requesting :: bool
  ch_messages :: "message list"
  ch_queue :: "chat_update list"
  ch_toasts :: "jstring list"
  ch_stream :: "stream_command list"
  ch_requests :: "(nat \<times> chat_request) list" \<comment> \<open>the payloads sent, with their generation\<close>

definition initialChat :: "message list \<Rightarrow> chat" where
  "initialChat ms = \<lparr>ch_generation = 0, ch_pendingGeneration = 0, ch_pendingContent = [], ch_pendingReasoning = [],
     ch_timer = None, ch_abort = None, ch_aborted = [], ch_requesting = False, ch_messages = ms, ch_queue = [],
     ch_toasts = [], ch_stream = [], ch_requests = []\<rparr>"

section \<open>Updaters\<close>

definition applyPending :: "jstring \<Rightarrow> jstring \<Rightarrow> int \<Rightarrow> message \<Rightarrow> message" where
  "applyPending reasoning content now m =
     (let m1 = (if reasoning \<noteq> [] then applyStreamingChunk m ReasoningChunk reasoning now else m)
      in if content \<noteq> [] then applyStreamingChunk m1 ContentChunk content now else m1)"

fun runUpdate :: "nat \<Rightarrow> int \<Rightarrow> chat_update \<Rightarrow> message list \<Rightarrow> message list" where
  "runUpdate current now (FlushUpdate g reasoning content) prev =
     (if g \<noteq> current then prev else updateLastAssistantMessage prev (applyPending reasoning content now))"
| "runUpdate current now (CompleteUpdate g) prev =
     (if g \<noteq> current then prev
      else updateLastAssistantMessage prev (\<lambda>m.
        if isAssistantMessageFinal m then m else completeAssistantMessage m now))"
| "runUpdate current now (ErrorUpdate g err code title) prev =
     (if g \<noteq> current then prev else updateAssistantMessageWithError prev err code title now)"
| "runUpdate current now (ResponseUpdate g choices) prev =
     (if g \<noteq> current then prev
      else updateLastAssistantMessage prev (\<lambda>m.
        case applyChatCompletionResponse m choices now of Some m' \<Rightarrow> m' | None \<Rightarrow> m))"
| "runUpdate current now (StopUpdate g) prev =
     (if g \<noteq> current then prev
      else updateLastAssistantMessage prev (\<lambda>m.
        if isAssistantMessagePending m then completeAssistantMessage m now else m))"
| "runUpdate current now (ReplaceMessages ms) prev = ms"
| "runUpdate current now (RemoveMessage k) prev = removeMessageByKey prev k"
| "runUpdate current now (LoadedMessages ms) prev = ms"

definition onMessageUpdate :: "chat_update \<Rightarrow> chat \<Rightarrow> chat" where
  "onMessageUpdate u s = s\<lparr>ch_queue := ch_queue s @ [u]\<rparr>"

definition render :: "int \<Rightarrow> chat \<Rightarrow> chat" where
  "render now s = s\<lparr>ch_messages := fold (runUpdate (ch_generation s) now) (ch_queue s) (ch_messages s), ch_queue := []\<rparr>"

section \<open>Buffering\<close>

definition mergePendingStreamChunk :: "jstring \<Rightarrow> jstring \<Rightarrow> jstring" where
  "mergePendingStreamChunk currentChunk nextChunk =
     (if currentChunk = [] \<or> \<not> js_startsWith nextChunk currentChunk then currentChunk @ nextChunk else nextChunk)"

definition discardPendingStreamUpdates :: "nat \<Rightarrow> chat \<Rightarrow> chat" where
  "discardPendingStreamUpdates g s =
     s\<lparr>ch_timer := None, ch_pendingGeneration := g, ch_pendingContent := [], ch_pendingReasoning := []\<rparr>"

definition flushStreamUpdates :: "nat \<Rightarrow> chat \<Rightarrow> chat" where
  "flushStreamUpdates g s =
     (if g \<noteq> ch_generation s then s
      else
        let s = s\<lparr>ch_timer := None\<rparr>
        in if ch_pendingGeneration s \<noteq> g then s
           else if ch_pendingReasoning s = [] \<and> ch_pendingContent s = [] then s
           else
             onMessageUpdate (FlushUpdate g (ch_pendingReasoning s) (ch_pendingContent s))
               (s\<lparr>ch_pendingGeneration := g, ch_pendingContent := [], ch_pendingReasoning := []\<rparr>))"

definition scheduleStreamFlush :: "nat \<Rightarrow> chat \<Rightarrow> chat" where
  "scheduleStreamFlush g s =
     (if g \<noteq> ch_generation s then s else if ch_timer s \<noteq> None then s else s\<lparr>ch_timer := Some g\<rparr>)"

definition handleStreamUpdate :: "nat \<Rightarrow> chunk_type \<Rightarrow> jstring \<Rightarrow> chat \<Rightarrow> chat" where
  "handleStreamUpdate g type chunk s =
     (if g \<noteq> ch_generation s then s
      else if ch_pendingGeneration s \<noteq> g then s
      else
        scheduleStreamFlush g
          (case type of
             ReasoningChunk \<Rightarrow> s\<lparr>ch_pendingReasoning := mergePendingStreamChunk (ch_pendingReasoning s) chunk\<rparr>
           | ContentChunk \<Rightarrow> s\<lparr>ch_pendingContent := mergePendingStreamChunk (ch_pendingContent s) chunk\<rparr>))"

section \<open>Endings\<close>

definition knownErrorMessages :: "jstring list" where
  "knownErrorMessages = [API_REQUEST_ERROR, lit ''Network connection failed or server not responding'', PARSE_ERROR,
     STREAM_START_ERROR, CONNECTION_CLOSED, lit ''Generation was interrupted'']"

definition getDisplayError :: "(jstring \<Rightarrow> jstring) \<Rightarrow> jstring \<Rightarrow> jstring" where
  "getDisplayError tr err =
     (if err \<in> set knownErrorMessages then tr err
      else if js_endsWith err (lit '': '' @ CONNECTION_CLOSED) then
        take (length err - length CONNECTION_CLOSED) err @ tr CONNECTION_CLOSED
      else err)"

definition handleStreamComplete :: "nat \<Rightarrow> chat \<Rightarrow> chat" where
  "handleStreamComplete g s =
     (if g \<noteq> ch_generation s then s
      else onMessageUpdate (CompleteUpdate g) ((flushStreamUpdates g s)\<lparr>ch_requesting := False\<rparr>))"

definition handleStreamError :: "(jstring \<Rightarrow> jstring) \<Rightarrow> nat \<Rightarrow> jstring \<Rightarrow> jstring option \<Rightarrow> chat \<Rightarrow> chat" where
  "handleStreamError tr g err code s =
     (if g \<noteq> ch_generation s then s
      else
        let s = (flushStreamUpdates g s)\<lparr>ch_requesting := False\<rparr>;
            displayError = getDisplayError tr err
        in onMessageUpdate (ErrorUpdate g displayError code (tr API_REQUEST_ERROR))
             (s\<lparr>ch_toasts := ch_toasts s @ [displayError]\<rparr>))"

definition abortCurrent :: "chat \<Rightarrow> chat" where
  "abortCurrent s =
     (case ch_abort s of None \<Rightarrow> s | Some a \<Rightarrow> s\<lparr>ch_aborted := a # ch_aborted s, ch_abort := None\<rparr>)"

section \<open>Requests\<close>

definition sendStreamingChat :: "playground_config \<Rightarrow> parameter_enabled \<Rightarrow> message list \<Rightarrow> chat \<Rightarrow> chat" where
  "sendStreamingChat cfg en ms s =
     (let g = ch_generation s + 1;
          s = discardPendingStreamUpdates g (abortCurrent (s\<lparr>ch_generation := g\<rparr>));
          payload = buildChatCompletionPayload ms cfg en
      in s\<lparr>ch_requesting := True, ch_stream := ch_stream s @ [SendRequest], ch_requests := ch_requests s @ [(g, payload)]\<rparr>)"

definition sendNonStreamingChat :: "playground_config \<Rightarrow> parameter_enabled \<Rightarrow> message list \<Rightarrow> chat \<Rightarrow> chat" where
  "sendNonStreamingChat cfg en ms s =
     (let payload = buildChatCompletionPayload ms cfg en;
          g = ch_generation s + 1;
          s = abortCurrent (discardPendingStreamUpdates g
                (s\<lparr>ch_generation := g, ch_stream := ch_stream s @ [StopStream]\<rparr>))
      in s\<lparr>ch_abort := Some g, ch_requesting := True, ch_requests := ch_requests s @ [(g, payload)]\<rparr>)"

text \<open>The \<open>finally\<close> block of the request without streaming.\<close>

definition requestSettled :: "nat \<Rightarrow> chat \<Rightarrow> chat" where
  "requestSettled g s = (if ch_generation s = g then s\<lparr>ch_abort := None, ch_requesting := False\<rparr> else s)"

definition completionArrived :: "(jstring \<Rightarrow> jstring) \<Rightarrow> nat \<Rightarrow> completion_choice list option \<Rightarrow> chat \<Rightarrow> chat" where
  "completionArrived tr g choices s =
     requestSettled g
       (if g \<in> set (ch_aborted s) \<or> ch_generation s \<noteq> g then s
        else if \<not> hasChatCompletionChoice choices then handleStreamError tr g API_REQUEST_ERROR None s
        else onMessageUpdate (ResponseUpdate g choices) s)"

definition completionFailed :: "(jstring \<Rightarrow> jstring) \<Rightarrow> nat \<Rightarrow> json option \<Rightarrow> chat \<Rightarrow> chat" where
  "completionFailed tr g err s =
     requestSettled g
       (if g \<in> set (ch_aborted s) \<or> ch_generation s \<noteq> g then s
        else let (msg, code) = parseRequestErrorDetails err in handleStreamError tr g msg code s)"

definition sendChat :: "playground_config \<Rightarrow> parameter_enabled \<Rightarrow> message list \<Rightarrow> chat \<Rightarrow> chat" where
  "sendChat cfg en ms s = (if cfg_stream cfg then sendStreamingChat cfg en ms s else sendNonStreamingChat cfg en ms s)"

definition stopGeneration :: "chat \<Rightarrow> chat" where
  "stopGeneration s =
     (let stopped = ch_generation s;
          s = flushStreamUpdates stopped s;
          idle = stopped + 1;
          s = discardPendingStreamUpdates idle (s\<lparr>ch_generation := idle\<rparr>);
          s = abortCurrent (s\<lparr>ch_stream := ch_stream s @ [StopStream]\<rparr>)
      in onMessageUpdate (StopUpdate idle) (s\<lparr>ch_requesting := False\<rparr>))"

definition unmountChat :: "chat \<Rightarrow> chat" where
  "unmountChat s = abortCurrent (s\<lparr>ch_generation := ch_generation s + 1\<rparr>)"

section \<open>Events and commands\<close>

datatype chat_event =
    ChunkArrived chunk_type jstring
  | StreamCompleted
  | StreamFailed jstring "jstring option"
  | FlushTimer
  | CompletionArrived "completion_choice list option"
  | CompletionFailed "json option"

datatype chat_command = SendChat playground_config parameter_enabled "message list" | StopGeneration | Unmount | Render int

fun chatCallback :: "(jstring \<Rightarrow> jstring) \<Rightarrow> nat \<Rightarrow> chat_event \<Rightarrow> chat \<Rightarrow> chat" where
  "chatCallback tr g (ChunkArrived ty chunk) s = handleStreamUpdate g ty chunk s"
| "chatCallback tr g StreamCompleted s = handleStreamComplete g s"
| "chatCallback tr g (StreamFailed err code) s = handleStreamError tr g err code s"
| "chatCallback tr g FlushTimer s = flushStreamUpdates g s"
| "chatCallback tr g (CompletionArrived choices) s = completionArrived tr g choices s"
| "chatCallback tr g (CompletionFailed err) s = completionFailed tr g err s"

fun chatCommand :: "chat_command \<Rightarrow> chat \<Rightarrow> chat" where
  "chatCommand (SendChat cfg en ms) s = sendChat cfg en ms s"
| "chatCommand StopGeneration s = stopGeneration s"
| "chatCommand Unmount s = unmountChat s"
| "chatCommand (Render now) s = render now s"

fun chatRun :: "(jstring \<Rightarrow> jstring) \<Rightarrow> (nat \<times> chat_event + chat_command) list \<Rightarrow> chat \<Rightarrow> chat" where
  "chatRun tr [] s = s"
| "chatRun tr (Inl (g, e) # h) s = chatRun tr h (chatCallback tr g e s)"
| "chatRun tr (Inr x # h) s = chatRun tr h (chatCommand x s)"

lemma generation_flush [simp]: "ch_generation (flushStreamUpdates g s) = ch_generation s"
  by (simp add: flushStreamUpdates_def onMessageUpdate_def Let_def)

lemma generation_abort [simp]: "ch_generation (abortCurrent s) = ch_generation s"
  by (simp add: abortCurrent_def split: option.splits)

lemma generation_discard [simp]: "ch_generation (discardPendingStreamUpdates g s) = ch_generation s"
  by (simp add: discardPendingStreamUpdates_def)

lemma generation_enqueue [simp]: "ch_generation (onMessageUpdate u s) = ch_generation s"
  by (simp add: onMessageUpdate_def)

lemma generation_streamError [simp]: "ch_generation (handleStreamError tr g err code s) = ch_generation s"
  by (simp add: handleStreamError_def Let_def)

lemma generation_chatCallback: "ch_generation (chatCallback tr g e s) = ch_generation s"
proof (cases e)
  case (ChunkArrived ty chunk)
  then show ?thesis by (cases ty) (simp_all add: handleStreamUpdate_def scheduleStreamFlush_def)
qed (simp_all add: handleStreamComplete_def completionArrived_def completionFailed_def requestSettled_def split: prod.splits)

lemma stale_chatCallback: "g \<noteq> ch_generation s \<Longrightarrow> chatCallback tr g e s = s"
  by (cases e) (simp_all add: handleStreamUpdate_def handleStreamComplete_def handleStreamError_def flushStreamUpdates_def
      completionArrived_def completionFailed_def requestSettled_def)

lemma generation_chatCommand:
  "ch_generation (chatCommand x s) = ch_generation s + (case x of Render now \<Rightarrow> 0 | _ \<Rightarrow> 1)"
  by (cases x) (simp_all add: sendChat_def sendStreamingChat_def sendNonStreamingChat_def stopGeneration_def
      unmountChat_def render_def Let_def)

interpretation chat: generation_guard ch_generation "chatCallback tr" chatCommand for tr
  by unfold_locales (simp_all add: stale_chatCallback generation_chatCallback generation_chatCommand)

lemma chatRun_history: "chatRun tr h s = chat.history tr h s"
  by (induction tr h s rule: chatRun.induct) simp_all

text \<open>C24. An answer that was stopped or replaced cannot come back: after a new request, a stop or an
  unmount, the chunks, endings, timers and responses that still arrive for earlier requests can be struck
  from whatever happens later without changing the conversation, the buffers, the toasts or the flags.\<close>

theorem superseded_answer_is_inert:
  assumes "\<forall>now. x \<noteq> Render now"
  shows "chatRun tr h (chatCommand x s) =
    chatRun tr (filter (\<lambda>y. case y of Inl (g, e) \<Rightarrow> ch_generation s < g | Inr z \<Rightarrow> True) h) (chatCommand x s)"
proof -
  have "Suc (ch_generation s) \<le> ch_generation (chatCommand x s)"
    using assms generation_chatCommand [of x s] by (cases x) simp_all
  from chat.erase_superseded [OF this, of tr h] show ?thesis
    unfolding chatRun_history Suc_le_eq .
qed

theorem superseded_answer_is_inert_witness:
  "chatRun id [Inl (0, StreamCompleted), Inr (Render 3)] (chatCommand StopGeneration (initialChat [])) =
   chatRun id [Inr (Render 3)] (chatCommand StopGeneration (initialChat []))"
  using superseded_answer_is_inert [of StopGeneration id "[Inl (0, StreamCompleted), Inr (Render 3)]" "initialChat []"]
  by (simp add: initialChat_def)

section \<open>Endings of an answer\<close>

text \<open>A request under way: the buffers belong to it, nothing is queued, and the last message is its
  answer.\<close>

definition answering :: "chat \<Rightarrow> message list \<Rightarrow> message \<Rightarrow> bool" where
  "answering s ms m \<longleftrightarrow> ch_queue s = [] \<and> ch_pendingGeneration s = ch_generation s \<and>
     ch_messages s = ms @ [m] \<and> m_from m = Assistant \<and> isAssistantMessagePending m"

lemma update_last [simp]: "m_from m = Assistant \<Longrightarrow> updateLastAssistantMessage (ms @ [m]) f = ms @ [f m]"
  by (simp add: updateLastAssistantMessage_def)

lemma status_applyPending:
  "m_status m \<noteq> Some MError \<Longrightarrow> reasoning \<noteq> [] \<or> content \<noteq> [] \<Longrightarrow> m_status (applyPending reasoning content now m) = Some MStreaming"
  by (auto simp: applyPending_def Let_def status_contentChunk)

lemma from_applyPending [simp]: "m_from (applyPending reasoning content now m) = m_from m"
  by (simp add: applyPending_def Let_def)

lemma pending_status: "isAssistantMessagePending m \<Longrightarrow> m_status m \<noteq> Some MError \<and> \<not> isAssistantMessageFinal m"
  by (auto simp: isAssistantMessagePending_def isAssistantMessageFinal_def)

lemma queue_flush:
  assumes "ch_pendingGeneration s = ch_generation s"
  shows "ch_queue (flushStreamUpdates (ch_generation s) s) = ch_queue s @
      (if ch_pendingReasoning s = [] \<and> ch_pendingContent s = [] then []
       else [FlushUpdate (ch_generation s) (ch_pendingReasoning s) (ch_pendingContent s)])"
    and "ch_messages (flushStreamUpdates (ch_generation s) s) = ch_messages s"
    and "ch_pendingGeneration (flushStreamUpdates (ch_generation s) s) = ch_generation s"
    and "ch_pendingReasoning (flushStreamUpdates (ch_generation s) s) = []"
    and "ch_pendingContent (flushStreamUpdates (ch_generation s) s) = []"
  using assms by (simp_all add: flushStreamUpdates_def onMessageUpdate_def Let_def)

lemma applyPending_empty [simp]: "applyPending [] [] now m = m"
  by (simp add: applyPending_def)

text \<open>C25. A completed stream leaves its whole text: when the stream of the current request completes, the
  next render appends what was still buffered and then finishes the message; other messages stay, and
  the handler is no longer requesting.\<close>

theorem completion_flushes_buffer:
  assumes "answering s ms m"
  shows "ch_messages (render now (handleStreamComplete (ch_generation s) s)) =
      ms @ [completeAssistantMessage (applyPending (ch_pendingReasoning s) (ch_pendingContent s) now m) now] \<and>
    \<not> ch_requesting (handleStreamComplete (ch_generation s) s)"
proof -
  let ?p = "applyPending (ch_pendingReasoning s) (ch_pendingContent s) now m"
  have gen: "ch_pendingGeneration s = ch_generation s" using assms by (simp add: answering_def)
  have "\<not> isAssistantMessageFinal ?p"
  proof (cases "ch_pendingReasoning s = [] \<and> ch_pendingContent s = []")
    case True
    with assms pending_status show ?thesis by (simp add: answering_def)
  next
    case False
    with assms pending_status status_applyPending [of m "ch_pendingReasoning s" "ch_pendingContent s" now] show ?thesis
      by (auto simp: answering_def isAssistantMessageFinal_def)
  qed
  then show ?thesis
    using assms queue_flush [OF gen]
    by (auto simp: answering_def render_def handleStreamComplete_def onMessageUpdate_def)
qed

definition sampleChat :: chat where
  "sampleChat = (initialChat [sampleAssistant])\<lparr>ch_pendingContent := lit ''Hi''\<rparr>"

lemma answering_sample: "answering sampleChat [] sampleAssistant"
  by (simp add: answering_def sampleChat_def initialChat_def isAssistantMessagePending_def sampleAssistant_def
      createLoadingAssistantMessage_def emptyMessage_def)

theorem completion_flushes_buffer_witness:
  "getMessageContent (last (ch_messages (render 9 (handleStreamComplete 0 sampleChat)))) = lit ''Hi''"
proof -
  have "ch_messages (render 9 (handleStreamComplete (ch_generation sampleChat) sampleChat)) =
      [] @ [completeAssistantMessage (applyPending (ch_pendingReasoning sampleChat) (ch_pendingContent sampleChat) 9 sampleAssistant) 9]"
    using completion_flushes_buffer [OF answering_sample] by blast
  then have "ch_messages (render 9 (handleStreamComplete 0 sampleChat)) =
      [completeAssistantMessage (applyStreamingChunk sampleAssistant ContentChunk (lit ''Hi'') 9) 9]"
    by (simp add: sampleChat_def initialChat_def applyPending_def)
  then show ?thesis by simp code_simp
qed

text \<open>C26. Stopping drops what is buffered: the flush at the start of the stop only queues an updater, and
  that updater tests the generation when it runs; by the next render the stop has moved on to a new
  generation, so the text received since the last flush is discarded and the message is finished
  without it. Had React rendered in between, the text would have been kept.\<close>

theorem stop_drops_buffered_text:
  assumes "answering s ms m" and "ch_pendingReasoning s \<noteq> [] \<or> ch_pendingContent s \<noteq> []"
  shows "ch_messages (render now (stopGeneration s)) = ms @ [completeAssistantMessage m now] \<and>
    ch_pendingContent (stopGeneration s) = [] \<and> ch_pendingReasoning (stopGeneration s) = [] \<and>
    ch_messages (render now (stopGeneration (render now (flushStreamUpdates (ch_generation s) s)))) =
      ms @ [completeAssistantMessage (applyPending (ch_pendingReasoning s) (ch_pendingContent s) now m) now]"
proof -
  let ?p = "applyPending (ch_pendingReasoning s) (ch_pendingContent s) now m"
  let ?f = "flushStreamUpdates (ch_generation s) s"
  have gen: "ch_pendingGeneration s = ch_generation s" using assms by (simp add: answering_def)
  have stop_queue: "ch_queue (stopGeneration x) = ch_queue (flushStreamUpdates (ch_generation x) x) @ [StopUpdate (ch_generation x + 1)]"
    and stop_messages: "ch_messages (stopGeneration x) = ch_messages (flushStreamUpdates (ch_generation x) x)"
    and stop_gen: "ch_generation (stopGeneration x) = ch_generation x + 1"
    and stop_buffers: "ch_pendingContent (stopGeneration x) = []" "ch_pendingReasoning (stopGeneration x) = []" for x
    by (simp_all add: stopGeneration_def onMessageUpdate_def abortCurrent_def discardPendingStreamUpdates_def Let_def
        split: option.splits)
  have "ch_messages (render now (stopGeneration s)) = ms @ [completeAssistantMessage m now]"
    using assms queue_flush [OF gen] by (auto simp: render_def stop_queue stop_messages stop_gen answering_def)
  moreover have "ch_messages (render now (stopGeneration (render now ?f))) = ms @ [completeAssistantMessage ?p now]"
  proof -
    let ?r = "render now ?f"
    have r: "ch_queue ?r = []" "ch_generation ?r = ch_generation s" "ch_messages ?r = ms @ [?p]"
      "ch_pendingGeneration ?r = ch_generation ?r" "ch_pendingReasoning ?r = []" "ch_pendingContent ?r = []"
      using assms queue_flush [OF gen] by (auto simp: render_def answering_def)
    have "isAssistantMessagePending ?p"
      using assms pending_status status_applyPending [of m "ch_pendingReasoning s" "ch_pendingContent s" now]
      by (simp add: answering_def isAssistantMessagePending_def)
    moreover have "m_from ?p = Assistant" using assms by (simp add: answering_def)
    ultimately show ?thesis
      using queue_flush [OF r(4)] r by (simp add: render_def [of now "stopGeneration ?r"] stop_queue stop_messages stop_gen)
  qed
  ultimately show ?thesis using stop_buffers by simp
qed

theorem stop_drops_buffered_text_witness:
  "getMessageContent (last (ch_messages (render 9 (stopGeneration sampleChat)))) = []"
proof -
  have "ch_messages (render 9 (stopGeneration sampleChat)) = [] @ [completeAssistantMessage sampleAssistant 9]"
    using stop_drops_buffered_text [OF answering_sample] by (simp add: sampleChat_def initialChat_def)
  then show ?thesis by simp code_simp
qed

end
