(* ===== verification/PlaygroundPage.thy ===== *)
theory PlaygroundPage
  imports PlaygroundStorage ChatHandler
begin

text \<open>
  The playground page: \<^verbatim>\<open>web/src/features/playground/index.tsx\<close> with its hooks
  \<^verbatim>\<open>use-playground-state.ts\<close> (the conversation, its loading and its delayed saving) and
  \<^verbatim>\<open>use-playground-conversation.ts\<close> (sending, regenerating, editing and deleting), put together with the
  chat handler and the stored history. The configuration is fixed while the page is open; changing and
  saving it is not modelled.
\<close>

section \<open>State\<close>

record page =
  pg_chat :: chat \<comment> \<open>the chat handler; \<open>messages\<close> is its \<open>ch_messages\<close>, as of the last render\<close>
  pg_latest :: "message list" \<comment> \<open>\<open>latestMessagesRef\<close>\<close>
  pg_timer :: bool \<comment> \<open>\<open>messagesSaveTimerRef\<close> holds a timer\<close>
  pg_loaded :: bool \<comment> \<open>\<open>hasLoadedMessagesRef\<close>\<close>
  pg_loading :: bool \<comment> \<open>\<open>isLoadingMessages\<close>\<close>
  pg_storage :: storage
  pg_editing :: "jstring option"
  pg_config :: playground_config
  pg_enabled :: parameter_enabled


section \<open>The conversation and its storage\<close>

definition persistMessages :: "message list \<Rightarrow> page \<Rightarrow> page" where
  "persistMessages messagesToSave p =
     (let p = p\<lparr>pg_latest := messagesToSave\<rparr>
      in if \<not> pg_loaded p then p else p\<lparr>pg_timer := True\<rparr>)"


definition updateMessages :: "chat_update \<Rightarrow> page \<Rightarrow> page" where
  "updateMessages u p = p\<lparr>pg_chat := onMessageUpdate u (pg_chat p)\<rparr>"

text \<open>Running a queued updater: those of \<open>updateMessages\<close> also persist their result.\<close>

definition runQueued :: "int \<Rightarrow> chat_update \<Rightarrow> page \<Rightarrow> page" where
  "runQueued now u p =
     (let newMessages = runUpdate (ch_generation (pg_chat p)) now u (ch_messages (pg_chat p));
          p = p\<lparr>pg_chat := (pg_chat p)\<lparr>ch_messages := newMessages\<rparr>\<rparr>
      in case u of LoadedMessages _ \<Rightarrow> p | _ \<Rightarrow> persistMessages newMessages p)"

definition renderPage :: "int \<Rightarrow> page \<Rightarrow> page" where
  "renderPage now p =
     (let p = fold (runQueued now) (ch_queue (pg_chat p)) p
      in p\<lparr>pg_chat := (pg_chat p)\<lparr>ch_queue := []\<rparr>\<rparr>)"




section \<open>Handlers\<close>

definition pageSend :: "message list \<Rightarrow> page \<Rightarrow> page" where
  "pageSend ms p = p\<lparr>pg_chat := sendChat (pg_config p) (pg_enabled p) ms (pg_chat p)\<rparr>"

definition handleSendMessage :: "jstring \<Rightarrow> fresh_pair \<Rightarrow> fresh_pair \<Rightarrow> int \<Rightarrow> page \<Rightarrow> page" where
  "handleSendMessage txt u a now p =
     (let nextMessages = appendUserMessagePair (ch_messages (pg_chat p)) txt u a now
      in pageSend nextMessages (updateMessages (ReplaceMessages nextMessages) p))"







section \<open>Runs\<close>




section \<open>Events that leave the shown conversation alone\<close>

abbreviation shown :: "page \<Rightarrow> message list" where
  "shown p \<equiv> ch_messages (pg_chat p)"

fun loads :: "chat_update \<Rightarrow> bool" where
  "loads (LoadedMessages ms) = True"
| "loads u = False"

definition waits :: "chat \<Rightarrow> bool" where
  "waits c \<longleftrightarrow> list_all (\<lambda>u. \<not> loads u) (ch_queue c)"

named_theorems page_simps

lemma chat_enqueue [page_simps]: "ch_messages (onMessageUpdate u c) = ch_messages c"
  "waits (onMessageUpdate u c) \<longleftrightarrow> waits c \<and> \<not> loads u"
  by (auto simp: onMessageUpdate_def waits_def)

lemma chat_fields [page_simps]:
  "waits (c\<lparr>ch_generation := g\<rparr>) = waits c" "waits (c\<lparr>ch_requesting := b\<rparr>) = waits c"
  "waits (c\<lparr>ch_timer := t\<rparr>) = waits c" "waits (c\<lparr>ch_pendingGeneration := g\<rparr>) = waits c"
  "waits (c\<lparr>ch_pendingContent := x\<rparr>) = waits c" "waits (c\<lparr>ch_pendingReasoning := x\<rparr>) = waits c"
  "waits (c\<lparr>ch_abort := a\<rparr>) = waits c" "waits (c\<lparr>ch_aborted := as\<rparr>) = waits c" "waits (c\<lparr>ch_toasts := ts\<rparr>) = waits c"
  "waits (c\<lparr>ch_stream := ss\<rparr>) = waits c" "waits (c\<lparr>ch_requests := rs\<rparr>) = waits c"
  by (simp_all add: waits_def)

lemma chat_abort [page_simps]: "ch_messages (abortCurrent c) = ch_messages c" "waits (abortCurrent c) = waits c"
  by (simp_all add: abortCurrent_def page_simps split: option.splits)

lemma chat_discard [page_simps]:
  "ch_messages (discardPendingStreamUpdates g c) = ch_messages c" "waits (discardPendingStreamUpdates g c) = waits c"
  by (simp_all add: discardPendingStreamUpdates_def page_simps)

lemma chat_flush [page_simps]: "ch_messages (flushStreamUpdates g c) = ch_messages c"
  "waits (flushStreamUpdates g c) = waits c"
  by (simp_all add: flushStreamUpdates_def Let_def page_simps)

lemma chat_error [page_simps]: "ch_messages (handleStreamError tr g err code c) = ch_messages c"
  "waits (handleStreamError tr g err code c) = waits c"
  by (simp_all add: handleStreamError_def Let_def page_simps)

lemma chat_settled [page_simps]: "ch_messages (requestSettled g c) = ch_messages c" "waits (requestSettled g c) = waits c"
  by (simp_all add: requestSettled_def page_simps)

lemma chat_stream_update [page_simps]: "ch_messages (handleStreamUpdate g ty chunk c) = ch_messages c"
  "waits (handleStreamUpdate g ty chunk c) = waits c"
  by (cases ty; simp add: handleStreamUpdate_def scheduleStreamFlush_def page_simps)+

lemma chat_callback [page_simps]: "ch_messages (chatCallback tr g e c) = ch_messages c"
  "waits (chatCallback tr g e c) = waits c"
  by (cases e; simp add: page_simps handleStreamComplete_def completionArrived_def completionFailed_def split: prod.splits)+

lemma chat_send [page_simps]: "ch_messages (sendChat cfg en ms c) = ch_messages c" "waits (sendChat cfg en ms c) = waits c"
  by (simp_all add: sendChat_def sendStreamingChat_def sendNonStreamingChat_def Let_def page_simps)

lemma chat_stop [page_simps]: "ch_messages (stopGeneration c) = ch_messages c" "waits (stopGeneration c) = waits c"
  by (simp_all add: stopGeneration_def Let_def page_simps)



section \<open>Leaving the page\<close>

lemma save_any_time [simp]: "saveMessages (env\<lparr>clock := t\<rparr>) ms st = saveMessages env ms st"
  by (simp add: saveMessages_def writeStoredValue_def cong: option.case_cong)















section \<open>What is sent\<close>

lemma sendChat_fields:
  "ch_queue (sendChat cfg en ms c) = ch_queue c" "ch_generation (sendChat cfg en ms c) = ch_generation c + 1"
  "ch_pendingGeneration (sendChat cfg en ms c) = ch_generation c + 1" "ch_pendingContent (sendChat cfg en ms c) = []"
  "ch_pendingReasoning (sendChat cfg en ms c) = []" "ch_requesting (sendChat cfg en ms c)"
  "ch_requests (sendChat cfg en ms c) = ch_requests c @ [(ch_generation c + 1, buildChatCompletionPayload ms cfg en)]"
  by (simp_all add: sendChat_def sendStreamingChat_def sendNonStreamingChat_def abortCurrent_def
      discardPendingStreamUpdates_def Let_def split: option.splits)

lemma shown_run_replace: "shown (fold (runQueued t) (us @ [ReplaceMessages ms]) p) = ms"
  by (simp add: runQueued_def persistMessages_def Let_def)

lemma payload_of_pair:
  "req_messages (buildChatCompletionPayload (appendUserMessagePair ms txt u a now) cfg en) =
     map formatMessageForAPI (filter isValidMessage ms) @ [(User, PlainContent txt)]"
  by (simp add: buildChatCompletionPayload_def appendUserMessagePair_def isValidMessage_def formatMessageForAPI_def
      createUserMessage_def createLoadingAssistantMessage_def emptyMessage_def createMessageVersion_def hasMessageContent_def
      getMessageContent_def getCurrentVersion_def js_trim_def js_trimEnd_def js_trimStart_def)

text \<open>The page sends what it shows: submitting a text queues the conversation with the text and an
  empty answer, which the next render shows whatever was queued before, and the request carries the
  valid messages shown before, then the text, and nothing for the empty answer, under a new generation
  with empty buffers.\<close>

theorem submitted_text_is_sent:
  "let p' = handleSendMessage txt u a now p; g = ch_generation (pg_chat p) + 1 in
   ch_messages (pg_chat (renderPage t p')) = appendUserMessagePair (ch_messages (pg_chat p)) txt u a now \<and>
   ch_generation (pg_chat p') = g \<and> ch_pendingGeneration (pg_chat p') = g \<and>
   ch_pendingContent (pg_chat p') = [] \<and> ch_pendingReasoning (pg_chat p') = [] \<and> ch_requesting (pg_chat p') \<and>
   (\<exists>r. ch_requests (pg_chat p') = ch_requests (pg_chat p) @ [(g, r)] \<and> req_stream r = cfg_stream (pg_config p) \<and>
     req_messages r = map formatMessageForAPI (filter isValidMessage (ch_messages (pg_chat p))) @ [(User, PlainContent txt)])"
  using shown_run_replace [of t "ch_queue (pg_chat p)"]
  by (simp add: handleSendMessage_def pageSend_def updateMessages_def onMessageUpdate_def sendChat_fields renderPage_def
      payload_of_pair Let_def) (simp add: buildChatCompletionPayload_def)

end
