(* ===== verification/ExprText.thy ===== *)
theory ExprText
  imports JSPrelude "HOL-Library.Log_Nat"
begin

text \<open>
  Text shared by the billing expressions: reading numerals, quoting strings and splitting at top
  level.

  \<open>numberOf\<close> is \<open>Number(s)\<close> for decimal text, rounded to the nearest double with ties to even;
  \<open>isNumericLiteral\<close> is \<open>NUMERIC_LITERAL_REGEX\<close>. \<open>json_quote\<close> and \<open>json_unquote\<close> are
  \<open>JSON.stringify\<close> and \<open>JSON.parse\<close> on strings, lone surrogates included. \<open>splitTop\<close> is the loop of
  \<open>splitTopLevelMultiply\<close> and \<open>splitTopLevelAnd\<close> of \<^verbatim>\<open>web/src/features/pricing/lib/billing-expr.ts\<close>,
  which differ in their separator only.
\<close>

section \<open>Numerals\<close>

definition round_even :: "rat \<Rightarrow> int" where
  "round_even q =
     (let f = \<lfloor>q\<rfloor>; r = q - of_int f
      in if r < 1 / 2 then f else if r > 1 / 2 then f + 1 else if even f then f else f + 1)"

definition exponent_of :: "rat \<Rightarrow> int" where
  "exponent_of q =
     (let (n, d) = quotient_of q;
          e = int (floorlog 2 (nat n)) - int (floorlog 2 (nat d))
      in if 2 powi e \<le> q then e else e - 1)"

text \<open>The nearest double: 53 significant bits, subnormals, overflow to infinity.\<close>

definition double_limit :: rat where
  "double_limit = 2 ^ 1024"

definition js_round :: "rat \<Rightarrow> jsnum" where
  "js_round q =
     (if q = 0 then Fin 0
      else
        let e = max (- 1074) (exponent_of \<bar>q\<bar> - 52);
            v = of_int (round_even (q / 2 powi e)) * 2 powi e
        in if v \<ge> double_limit then PosInf else if v \<le> - double_limit then NegInf else Fin v)"

definition readExponent :: "jstring \<Rightarrow> int option" where
  "readExponent s =
     (case s of
        [] \<Rightarrow> Some 0
      | c # r \<Rightarrow>
          if c \<noteq> 101 \<and> c \<noteq> 69 then None
          else
            let (sign, ds) = (case r of
                  [] \<Rightarrow> (1, [])
                | x # r' \<Rightarrow> if x = 43 then (1, r') else if x = 45 then (- 1, r') else (1, r))
            in if ds \<noteq> [] \<and> list_all is_digit ds then Some (sign * int (js_parseInt ds)) else None)"

definition unsignedDecimal :: "jstring \<Rightarrow> rat option" where
  "unsignedDecimal s =
     (let ip = takeWhile is_digit s;
          r = dropWhile is_digit s;
          (fp, r) = (case r of
              [] \<Rightarrow> ([], [])
            | c # r' \<Rightarrow> if c = 46 then (takeWhile is_digit r', dropWhile is_digit r') else ([], r))
      in if ip = [] \<and> fp = [] then None
         else map_option (\<lambda>e. of_nat (js_parseInt (ip @ fp)) * 10 powi (e - int (length fp))) (readExponent r))"

definition isNumericLiteral :: "jstring \<Rightarrow> bool" where
  "isNumericLiteral s \<longleftrightarrow>
     unsignedDecimal (case s of [] \<Rightarrow> [] | c # r \<Rightarrow> if c = 45 then r else s) \<noteq> None"

definition numberOf :: "jstring \<Rightarrow> jsnum" where
  "numberOf s =
     (let t = js_trim s;
          (neg, u) = (case t of [] \<Rightarrow> (False, []) | c # r \<Rightarrow> if c = 45 then (True, r) else if c = 43 then (False, r) else (False, t))
      in if t = [] then Fin 0
         else if u = lit ''Infinity'' then (if neg then NegInf else PosInf)
         else case unsignedDecimal u of
           None \<Rightarrow> NaN
         | Some q \<Rightarrow> js_round (if neg then - q else q))"

text \<open>The character class \<open>[\d.eE+-]\<close>.\<close>

definition num_unit :: "code_unit \<Rightarrow> bool" where
  "num_unit c \<longleftrightarrow> is_digit c \<or> c \<in> {46, 101, 69, 43, 45}"

text \<open>\<open>Number.prototype.toString\<close>: the shortest digits that read back as the number, as \<open>k\<close> digits \<open>s\<close>
  with the decimal point after the first \<open>n\<close>. Seventeen digits are always enough for a double.\<close>

definition decimal_point :: "rat \<Rightarrow> int" where
  "decimal_point q =
     (let (n, d) = quotient_of q;
          e = int (floorlog 10 (nat n)) - int (floorlog 10 (nat d))
      in if 10 powi e \<le> q then e + 1 else e)"

definition shortest_digits :: "rat \<Rightarrow> (nat \<times> int) option" where
  "shortest_digits q =
     (let n = decimal_point q;
          reads = (\<lambda>k s. js_round (of_nat s * 10 powi (n - int k)) = Fin q);
          best = (\<lambda>k. let x = q * 10 powi (int k - n); lo = nat \<lfloor>x\<rfloor>; hi = lo + 1
                in if reads k lo \<and> (\<not> reads k hi \<or> x - of_nat lo \<le> of_nat hi - x) then Some lo
                   else if reads k hi then Some hi else None)
      in case List.find (\<lambda>k. best k \<noteq> None) [1..<18] of
           None \<Rightarrow> None
         | Some k \<Rightarrow>
             (case best k of
                None \<Rightarrow> None
              | Some s \<Rightarrow> if s = 10 ^ k then Some (10 ^ (k - 1), n + 1) else Some (s, n)))"

definition format_digits :: "jstring \<Rightarrow> int \<Rightarrow> jstring" where
  "format_digits ds n =
     (let k = int (length ds)
      in if k \<le> n \<and> n \<le> 21 then ds @ replicate (nat (n - k)) 48
         else if 0 < n \<and> n \<le> 21 then take (nat n) ds @ [46] @ drop (nat n) ds
         else if - 6 < n \<and> n \<le> 0 then [48, 46] @ replicate (nat (- n)) 48 @ ds
         else
           let e = n - 1; ex = [101, if e < 0 then 45 else 43] @ js_decimal (nat \<bar>e\<bar>)
           in if k = 1 then ds @ ex else hd ds # 46 # tl ds @ ex)"

definition js_positiveText :: "rat \<Rightarrow> jstring" where
  "js_positiveText q =
     (case shortest_digits q of None \<Rightarrow> [] | Some (s, n) \<Rightarrow> format_digits (js_decimal s) n)"

fun js_numberText :: "jsnum \<Rightarrow> jstring" where
  "js_numberText NaN = lit ''NaN''"
| "js_numberText PosInf = lit ''Infinity''"
| "js_numberText NegInf = 45 # lit ''Infinity''"
| "js_numberText (Fin q) =
     (if q = 0 then [48] else if q < 0 then 45 # js_positiveText (- q) else js_positiveText q)"

lemma readExponent_units: "readExponent s = Some e \<Longrightarrow> list_all num_unit s"
  by (auto simp: readExponent_def num_unit_def list_all_iff Let_def split: list.splits if_splits prod.splits)

lemma unsignedDecimal_units:
  assumes "unsignedDecimal s = Some q"
  shows "list_all num_unit s \<and> s \<noteq> []"
proof -
  define ip where "ip = takeWhile is_digit s"
  define r where "r = dropWhile is_digit s"
  have s: "s = ip @ r" by (simp add: ip_def r_def)
  have ip: "list_all num_unit ip" by (auto simp: ip_def num_unit_def list_all_iff dest: set_takeWhileD)
  have "list_all num_unit r \<and> (ip = [] \<longrightarrow> r \<noteq> [])"
  proof (cases r)
    case Nil
    then show ?thesis using assms by (auto simp: unsignedDecimal_def ip_def [symmetric] r_def [symmetric] Let_def)
  next
    case (Cons c r')
    show ?thesis
    proof (cases "c = 46")
      case True
      with assms Cons obtain e where "readExponent (dropWhile is_digit r') = Some e"
        by (auto simp: unsignedDecimal_def ip_def [symmetric] r_def [symmetric] Let_def split: if_splits)
      moreover have "set r' = set (takeWhile is_digit r') \<union> set (dropWhile is_digit r')"
        by (metis set_append takeWhile_dropWhile_id)
      ultimately have "list_all num_unit r'"
        using readExponent_units by (auto simp: num_unit_def list_all_iff dest: set_takeWhileD)
      with Cons True show ?thesis by (simp add: num_unit_def)
    next
      case False
      with assms Cons obtain e where "readExponent r = Some e"
        by (auto simp: unsignedDecimal_def ip_def [symmetric] r_def [symmetric] Let_def split: if_splits)
      from readExponent_units [OF this] Cons show ?thesis by simp
    qed
  qed
  with s ip show ?thesis by auto
qed

lemma numericLiteral_units:
  assumes "isNumericLiteral s"
  shows "list_all num_unit s \<and> s \<noteq> []"
proof (cases s)
  case Nil
  with assms show ?thesis using unsignedDecimal_units [of "[]"] by (auto simp: isNumericLiteral_def)
next
  case (Cons c r)
  show ?thesis
  proof (cases "c = 45")
    case True
    with assms Cons obtain q where "unsignedDecimal r = Some q" by (auto simp: isNumericLiteral_def)
    from unsignedDecimal_units [OF this] Cons True show ?thesis by (simp add: num_unit_def)
  next
    case False
    with assms Cons obtain q where "unsignedDecimal s = Some q" by (auto simp: isNumericLiteral_def)
    from unsignedDecimal_units [OF this] show ?thesis .
  qed
qed

lemma num_unit_not_ws: "num_unit c \<Longrightarrow> \<not> is_ws c"
  using is_digit_not_ws by (auto simp: num_unit_def is_ws_def)

lemma numericLiteral_trim: "isNumericLiteral s \<Longrightarrow> js_trim s = s"
  using numericLiteral_units num_unit_not_ws by (intro js_trim_no_ws) (auto simp: list_all_iff)

text \<open>Whole numbers below \<open>2\<^sup>53\<close> are doubles.\<close>

lemma round_even_int [simp]: "round_even (of_int n) = n"
  by (simp add: round_even_def)

lemma exponent_of_int:
  assumes "0 < n"
  shows "exponent_of (of_int n) = int (floorlog 2 (nat n)) - 1"
proof -
  have "2 ^ (floorlog 2 (nat n) - 1) \<le> nat n" and "0 < floorlog 2 (nat n)"
    using assms floorlog_bounds [of "nat n" 2] floorlog_eq_zero_iff [of 2 "nat n"] by linarith+
  moreover have "floorlog 2 1 = 1" by (simp add: compute_floorlog)
  moreover have "(2::rat) powi (int (floorlog 2 (nat n)) - 1) = of_nat (2 ^ (floorlog 2 (nat n) - 1))"
    using calculation(2) by (simp add: power_int_def nat_diff_distrib)
  ultimately show ?thesis
    using assms by (simp add: exponent_of_def quotient_of_int Let_def)
qed

lemma js_round_int:
  assumes "\<bar>n\<bar> < 2 ^ 53"
  shows "js_round (of_int n) = Fin (of_int n)"
proof (cases "n = 0")
  case True
  then show ?thesis by (simp add: js_round_def)
next
  case False
  define k where "k = floorlog 2 (nat \<bar>n\<bar>)"
  have k: "0 < k" "k \<le> 53"
  proof -
    show "0 < k" using False floorlog_eq_zero_iff [of 2 "nat \<bar>n\<bar>"] by (auto simp: k_def)
    have "nat \<bar>n\<bar> < 2 ^ 53" using assms by (simp add: nat_less_iff)
    then show "k \<le> 53" unfolding k_def by (intro floorlog_leI) auto
  qed
  have e: "max (- 1074) (exponent_of \<bar>of_int n\<bar> - 52) = int k - 53"
    using exponent_of_int [of "\<bar>n\<bar>"] False k by (simp add: k_def)
  have p: "(2::rat) powi (int k - 53) = 1 / 2 ^ (53 - k)"
  proof -
    have "int k - 53 = - int (53 - k)" using k by simp
    then show ?thesis by (simp only: power_int_minus power_int_of_nat inverse_eq_divide)
  qed
  have "of_int (round_even ((of_int n :: rat) / 2 powi (int k - 53))) * 2 powi (int k - 53) = (of_int n :: rat)"
  proof -
    have "(of_int n :: rat) / 2 powi (int k - 53) = of_int (n * 2 ^ (53 - k))" using p by simp
    then have "round_even ((of_int n :: rat) / 2 powi (int k - 53)) = n * 2 ^ (53 - k)"
      by (simp only: round_even_int)
    then show ?thesis using p by simp
  qed
  moreover have "\<bar>of_int n :: rat\<bar> < double_limit"
  proof -
    have "\<bar>of_int n :: rat\<bar> < 2 ^ 53" using assms by (metis of_int_abs of_int_less_iff of_int_numeral of_int_power)
    also have "(2::rat) ^ 53 \<le> 2 ^ 1024" by (rule power_increasing) auto
    finally show ?thesis by (simp only: double_limit_def)
  qed
  ultimately show ?thesis
    using False unfolding js_round_def e Let_def by auto
qed

section \<open>Quoting\<close>

definition high_surrogate :: "code_unit \<Rightarrow> bool" where
  "high_surrogate c \<longleftrightarrow> 55296 \<le> c \<and> c \<le> 56319"

definition low_surrogate :: "code_unit \<Rightarrow> bool" where
  "low_surrogate c \<longleftrightarrow> 56320 \<le> c \<and> c \<le> 57343"

definition hex_unit :: "nat \<Rightarrow> code_unit" where
  "hex_unit d = (if d < 10 then 48 + d else 87 + d)"

definition hex4 :: "code_unit \<Rightarrow> jstring" where
  "hex4 c = [hex_unit (c div 4096 mod 16), hex_unit (c div 256 mod 16), hex_unit (c div 16 mod 16), hex_unit (c mod 16)]"

definition unhex :: "code_unit \<Rightarrow> nat option" where
  "unhex c =
     (if is_digit c then Some (c - 48)
      else if 97 \<le> c \<and> c \<le> 102 then Some (c - 87)
      else if 65 \<le> c \<and> c \<le> 70 then Some (c - 55)
      else None)"

text \<open>\<open>QuoteJSONString\<close> without its outer quotes.\<close>

definition quote_unit :: "code_unit \<Rightarrow> jstring" where
  "quote_unit c =
     (if c = 34 then [92, 34] else if c = 92 then [92, 92]
      else if c = 8 then [92, 98] else if c = 9 then [92, 116] else if c = 10 then [92, 110]
      else if c = 12 then [92, 102] else if c = 13 then [92, 114]
      else if c < 32 \<or> high_surrogate c \<or> low_surrogate c then [92, 117] @ hex4 c
      else [c])"

fun quote_units :: "jstring \<Rightarrow> jstring" where
  "quote_units [] = []"
| "quote_units [c] = quote_unit c"
| "quote_units (c # d # s) =
     (if high_surrogate c \<and> low_surrogate d then c # d # quote_units s else quote_unit c @ quote_units (d # s))"

definition json_quote :: "jstring \<Rightarrow> jstring" where
  "json_quote s = 34 # quote_units s @ [34]"

text \<open>The string literals of JSON, up to the closing quote; \<open>None\<close> is a syntax error.\<close>

fun unescape :: "code_unit \<Rightarrow> code_unit option" where
  "unescape c =
     (if c = 34 \<or> c = 92 \<or> c = 47 then Some c
      else if c = 98 then Some 8 else if c = 116 then Some 9 else if c = 110 then Some 10
      else if c = 102 then Some 12 else if c = 114 then Some 13 else None)"

fun unquote_units :: "jstring \<Rightarrow> (jstring \<times> jstring) option" where
  "unquote_units [] = None"
| "unquote_units (c # s) =
     (if c = 34 then Some ([], s)
      else if c < 32 then None
      else if c \<noteq> 92 then map_option (\<lambda>(t, r). (c # t, r)) (unquote_units s)
      else case s of
        [] \<Rightarrow> None
      | e # s' \<Rightarrow>
          if e = 117 then
            (case s' of
               h1 # h2 # h3 # h4 # s'' \<Rightarrow>
                 (case (unhex h1, unhex h2, unhex h3, unhex h4) of
                    (Some d1, Some d2, Some d3, Some d4) \<Rightarrow>
                      map_option (\<lambda>(t, r). ((4096 * d1 + 256 * d2 + 16 * d3 + d4) # t, r)) (unquote_units s'')
                  | _ \<Rightarrow> None)
             | _ \<Rightarrow> None)
          else
            (case unescape e of
               None \<Rightarrow> None
             | Some d \<Rightarrow> map_option (\<lambda>(t, r). (d # t, r)) (unquote_units s')))"

text \<open>JSON white space around the literal is skipped.\<close>

definition json_ws :: "code_unit \<Rightarrow> bool" where
  "json_ws c \<longleftrightarrow> c \<in> {32, 9, 10, 13}"

definition json_unquote :: "jstring \<Rightarrow> jstring option" where
  "json_unquote s =
     (case dropWhile json_ws s of
        [] \<Rightarrow> None
      | c # r \<Rightarrow>
          if c \<noteq> 34 then None
          else (case unquote_units r of
                  Some (t, r') \<Rightarrow> if list_all json_ws r' then Some t else None
                | None \<Rightarrow> None))"

lemma unhex_hex_unit: "d < 16 \<Longrightarrow> unhex (hex_unit d) = Some d"
  by (auto simp: unhex_def hex_unit_def is_digit_def)

lemma hex4_value: "4096 * (c div 4096) + 256 * (c div 256 mod 16) + 16 * (c div 16 mod 16) + c mod 16 = (c::nat)"
proof -
  have "16 * (x div 16) + x mod 16 = x" for x :: nat by simp
  from this [of "c div 16"] this [of "c div 256"]
  have "16 * (c div 256) + c div 16 mod 16 = c div 16" "16 * (c div 4096) + c div 256 mod 16 = c div 256"
    by (simp_all add: div_mult2_eq [symmetric])
  moreover have "16 * (c div 16) + c mod 16 = c" by simp
  ultimately show ?thesis by linarith
qed

lemma unquote_quote_unit:
  "unquote_units (quote_unit c @ s) = map_option (\<lambda>(t, r). (c # t, r)) (unquote_units s)"
proof (cases "c < 32 \<or> high_surrogate c \<or> low_surrogate c")
  case True
  then have "c < 65536" by (auto simp: high_surrogate_def low_surrogate_def)
  with True show ?thesis
    by (auto simp: quote_unit_def hex4_def unhex_hex_unit hex4_value [simplified] less_mult_imp_div_less)
next
  case False
  then show ?thesis by (auto simp: quote_unit_def)
qed

lemma unquote_quote_units: "unquote_units (quote_units s @ 34 # r) = Some (s, r)"
proof (induction s rule: quote_units.induct)
  case (3 c d s)
  then show ?case
    by (auto simp: unquote_quote_unit high_surrogate_def low_surrogate_def simp del: append_assoc simp: append_assoc)
qed (simp_all add: unquote_quote_unit)

lemma json_unquote_quote [simp]: "json_unquote (json_quote s) = Some s"
  by (simp add: json_unquote_def json_quote_def json_ws_def unquote_quote_units)

section \<open>Splitting at top level\<close>

text \<open>The nesting depth after a code unit; a quoted parenthesis counts like any other.\<close>

definition depth_step :: "code_unit \<Rightarrow> int \<Rightarrow> int" where
  "depth_step c d = (if c = 40 then d + 1 else if c = 41 then d - 1 else d)"

function splitTop :: "jstring \<Rightarrow> int \<Rightarrow> jstring \<Rightarrow> jstring \<Rightarrow> jstring list" where
  "splitTop sep d acc [] = [js_trim acc]"
| "splitTop sep d acc (c # s) =
     (let d = depth_step c d
      in if d = 0 \<and> sep \<noteq> [] \<and> js_startsWith (c # s) sep
         then js_trim acc # splitTop sep d [] (drop (length sep) (c # s))
         else splitTop sep d (acc @ [c]) s)"
  by pat_completeness auto
termination
  by (relation "measure (\<lambda>(sep, d, acc, s). length s)") auto

definition splitTopLevel :: "jstring \<Rightarrow> jstring \<Rightarrow> jstring list" where
  "splitTopLevel sep s = filter (\<lambda>p. p \<noteq> []) (splitTop sep 0 [] s)"

definition depth_after :: "int \<Rightarrow> jstring \<Rightarrow> int" where
  "depth_after d s = fold depth_step s d"

text \<open>No separator starts at depth zero inside the text.\<close>

fun no_split :: "jstring \<Rightarrow> int \<Rightarrow> jstring \<Rightarrow> bool" where
  "no_split sep d [] = True"
| "no_split sep d (c # s) =
     (let d = depth_step c d in \<not> (d = 0 \<and> js_startsWith (c # s) sep) \<and> no_split sep d s)"

text \<open>The depth stays at or above a bound.\<close>

fun above :: "int \<Rightarrow> int \<Rightarrow> jstring \<Rightarrow> bool" where
  "above k d [] \<longleftrightarrow> k \<le> d"
| "above k d (c # s) \<longleftrightarrow> k \<le> d \<and> above k (depth_step c d) s"

definition parens_ok :: "jstring \<Rightarrow> bool" where
  "parens_ok s \<longleftrightarrow> above 0 0 s \<and> depth_after 0 s = 0"

lemma depth_after_simps [simp]:
  "depth_after d [] = d" "depth_after d (c # s) = depth_after (depth_step c d) s"
  "depth_after d (s @ t) = depth_after (depth_after d s) t"
  by (simp_all add: depth_after_def)

lemma depth_step_shift: "depth_step c (d + e) = depth_step c d + e"
  by (simp add: depth_step_def)

lemma depth_after_shift: "depth_after (d + e) s = depth_after d s + e"
  by (induction s arbitrary: d) (simp_all add: depth_step_shift)

lemma depth_after_ok: "parens_ok s \<Longrightarrow> depth_after d s = d"
  using depth_after_shift [of 0 d s] by (simp add: parens_ok_def)

lemma above_shift: "above (k + e) (d + e) s = above k d s"
  by (induction s arbitrary: d) (simp_all add: depth_step_shift)

lemma above_append: "above k d (s @ t) \<longleftrightarrow> above k d s \<and> above k (depth_after d s) t"
  by (induction s arbitrary: d) (auto, (cases t; simp)+)

lemma above_mono: "k' \<le> k \<Longrightarrow> above k d s \<Longrightarrow> above k' d s"
  by (induction s arbitrary: d) auto

lemma above_ok: "parens_ok s \<Longrightarrow> k \<le> d \<Longrightarrow> above k d s"
  using above_shift [of 0 d 0 s] above_mono [of k d d s] by (simp add: parens_ok_def)

lemma parens_ok_Nil [simp]: "parens_ok []"
  by (simp add: parens_ok_def)

lemma parens_ok_append: "parens_ok a \<Longrightarrow> parens_ok b \<Longrightarrow> parens_ok (a @ b)"
  by (simp add: parens_ok_def above_append)

lemma parens_ok_free: "40 \<notin> set s \<Longrightarrow> 41 \<notin> set s \<Longrightarrow> parens_ok s"
proof (induction s)
  case (Cons c s)
  then have "parens_ok s" "depth_step c 0 = 0" by (auto simp: depth_step_def)
  then show ?case by (simp add: parens_ok_def)
qed simp

lemma parens_ok_wrap: "parens_ok s \<Longrightarrow> parens_ok (40 # s @ [41])"
proof -
  assume "parens_ok s"
  then have "above 0 1 s" "depth_after 1 s = 1" by (simp_all add: above_ok depth_after_ok)
  then show ?thesis by (simp add: parens_ok_def above_append depth_step_def)
qed

lemma no_split_append:
  "no_split sep d (a @ b) \<Longrightarrow> no_split sep (depth_after d a) b"
  by (induction a arbitrary: d) (auto simp: Let_def)

lemma startsWith_straddle:
  "js_startsWith (x @ r) sep \<Longrightarrow> \<not> js_startsWith x sep \<Longrightarrow> x \<noteq> [] \<Longrightarrow> last x \<in> set sep"
  unfolding js_startsWith_iff by (metis append_eq_append_conv2 in_set_conv_decomp last_in_set set_append Un_iff)

lemma no_splitI:
  assumes "no_split sep d a" and "a = [] \<or> last a \<notin> set sep" and "no_split sep (depth_after d a) b"
  shows "no_split sep d (a @ b)"
  using assms
proof (induction a arbitrary: d)
  case (Cons c a)
  have "\<not> (depth_step c d = 0 \<and> js_startsWith ((c # a) @ b) sep)"
    using Cons.prems startsWith_straddle [of "c # a" b sep] by (auto simp: Let_def)
  then show ?case using Cons by (cases a) (auto simp: Let_def)
qed simp

lemma no_split_above: "above 1 (depth_after d [c]) s \<Longrightarrow> no_split sep d (c # s)"
  by (induction s arbitrary: c d) (auto simp: Let_def)

lemma splitTop_part:
  assumes "no_split sep d p" and "p = [] \<or> last p \<notin> set sep"
  shows "splitTop sep d acc (p @ r) = splitTop sep (depth_after d p) (acc @ p) r"
  using assms
proof (induction p arbitrary: d acc)
  case (Cons c p)
  have "\<not> (depth_step c d = 0 \<and> js_startsWith ((c # p) @ r) sep)"
    using Cons.prems startsWith_straddle [of "c # p" r sep] by (auto simp: Let_def)
  then show ?case using Cons by (cases p) (auto simp: Let_def)
qed simp

text \<open>A text that stands alone between separators.\<close>

definition top_part :: "jstring \<Rightarrow> jstring \<Rightarrow> bool" where
  "top_part sep p \<longleftrightarrow> no_split sep 0 p \<and> p \<noteq> [] \<and> last p \<notin> set sep \<and> depth_after 0 p = 0 \<and> js_trim p = p"

lemma splitTop_join:
  assumes "ps \<noteq> []" and "list_all (top_part sep) ps" and "sep \<noteq> []" and "depth_step (hd sep) 0 = 0"
  shows "splitTop sep 0 [] (js_join sep ps) = ps"
  using assms
proof (induction sep ps rule: js_join.induct)
  case (2 sep w)
  then show ?case using splitTop_part [of sep 0 w "[]" "[]"] by (simp add: top_part_def)
next
  case (3 sep w v ws)
  obtain c t where sep: "sep = c # t" using 3 by (cases sep) auto
  have "splitTop sep 0 [] (w @ sep @ js_join sep (v # ws)) = splitTop sep 0 w (sep @ js_join sep (v # ws))"
    using 3 splitTop_part [of sep 0 w "[]"] by (simp add: top_part_def)
  also have "\<dots> = w # splitTop sep 0 [] (js_join sep (v # ws))"
    using 3 sep js_startsWith_append [of sep "js_join sep (v # ws)"] by (simp add: top_part_def Let_def del: js_startsWith_append)
  finally show ?case using 3 by simp
qed simp

lemma splitTopLevel_join:
  assumes "list_all (top_part sep) ps" and "ps \<noteq> []" and "sep \<noteq> []" and "depth_step (hd sep) 0 = 0"
  shows "splitTopLevel sep (js_join sep ps) = ps"
proof -
  have "filter (\<lambda>p. p \<noteq> []) ps = ps" using assms(1) by (intro filter_True) (auto simp: list_all_iff top_part_def)
  then show ?thesis using splitTop_join [OF assms(2,1,3,4)] by (simp add: splitTopLevel_def)
qed

section \<open>Anchored patterns\<close>

text \<open>The pieces the anchored regular expressions of the sources are made of.\<close>

definition stripPrefix :: "jstring \<Rightarrow> jstring \<Rightarrow> jstring option" where
  "stripPrefix p s = (if js_startsWith s p then Some (drop (length p) s) else None)"

definition stripSuffix :: "jstring \<Rightarrow> jstring \<Rightarrow> jstring option" where
  "stripSuffix p s = (if js_endsWith s p then Some (take (length s - length p) s) else None)"

lemma stripPrefix_append [simp]: "stripPrefix p (p @ s) = Some s"
  by (simp add: stripPrefix_def)

lemma stripSuffix_append [simp]: "stripSuffix p (s @ p) = Some s"
  by (simp add: stripSuffix_def js_endsWith_iff)

text \<open>\<open>[^"]+\<close> up to the closing quote, which is consumed.\<close>

definition quotedName :: "jstring \<Rightarrow> (jstring \<times> jstring) option" where
  "quotedName s =
     (let n = takeWhile (\<lambda>c. c \<noteq> 34) s; r = dropWhile (\<lambda>c. c \<noteq> 34) s
      in if n = [] \<or> r = [] then None else Some (n, tl r))"

lemma quotedName_append:
  assumes "34 \<notin> set n" and "n \<noteq> []"
  shows "quotedName (n @ 34 # r) = Some (n, r)"
proof -
  have "\<forall>c \<in> set n. c \<noteq> 34" using assms(1) by auto
  then show ?thesis using assms(2) by (simp add: quotedName_def takeWhile_append2 dropWhile_append2)
qed

end
