(* ===== verification/RequestRules.thy ===== *)
theory RequestRules
  imports ExprText "HOL-Library.Monad_Syntax"
begin

text \<open>
  The request rules of \<^verbatim>\<open>web/src/features/pricing/lib/billing-expr.ts\<close>: conditional multipliers such as
  \<open>(header("x") != "" ? 2 : 1)\<close> that the editor builds from groups of conditions and reads back, and
  the billing expression they are appended to.

  The regular expressions of the source are anchored and deterministic; each is written as the
  prefixes, names and runs it consists of. \<open>JSON.parse\<close> of a quoted text is \<open>json_unquote\<close>; on any other
  text \<open>parseExprLiteral\<close> takes what it gives, as a string, from the argument \<open>other\<close>. An exception of
  \<open>JSON.parse\<close> that the source does not catch is \<open>Threw\<close>.
\<close>

section \<open>Constants and data\<close>

definition MATCH_EQ :: jstring where "MATCH_EQ = lit ''eq''"
definition MATCH_CONTAINS :: jstring where "MATCH_CONTAINS = lit ''contains''"
definition MATCH_GT :: jstring where "MATCH_GT = lit ''gt''"
definition MATCH_GTE :: jstring where "MATCH_GTE = lit ''gte''"
definition MATCH_LT :: jstring where "MATCH_LT = lit ''lt''"
definition MATCH_LTE :: jstring where "MATCH_LTE = lit ''lte''"
definition MATCH_EXISTS :: jstring where "MATCH_EXISTS = lit ''exists''"
definition MATCH_RANGE :: jstring where "MATCH_RANGE = lit ''range''"

lemmas match_defs = MATCH_EQ_def MATCH_CONTAINS_def MATCH_GT_def MATCH_GTE_def MATCH_LT_def MATCH_LTE_def
  MATCH_EXISTS_def MATCH_RANGE_def

definition TIME_FUNCS :: "jstring list" where
  "TIME_FUNCS = [lit ''hour'', lit ''minute'', lit ''weekday'', lit ''month'', lit ''day'']"

record time_condition =
  timeFunc :: jstring
  timezone :: jstring
  tc_mode :: jstring
  tc_value :: jstring
  rangeStart :: jstring
  rangeEnd :: jstring

datatype rule_source = Param | Header

record param_header_condition =
  ph_source :: rule_source
  ph_path :: jstring
  ph_mode :: jstring
  ph_value :: jstring

datatype request_condition = TimeC time_condition | ParamHeaderC param_header_condition

record request_rule_group =
  conditions :: "request_condition list"
  multiplier :: jstring
  conditionText :: "jstring option"
  matched :: "bool option"

record request_rule_trace =
  tr_cond :: jstring
  tr_multiplier :: jsnum
  tr_matched :: bool

datatype 'a attempt = Threw | Gave 'a

section \<open>Splitting and literals\<close>

definition splitTopLevelMultiply :: "jstring \<Rightarrow> jstring list" where
  "splitTopLevelMultiply expr = splitTopLevel (lit '' * '') expr"

definition splitTopLevelAnd :: "jstring \<Rightarrow> jstring list" where
  "splitTopLevelAnd expr = splitTopLevel (lit '' && '') expr"

definition parseExprLiteral :: "(jstring \<Rightarrow> jstring option) \<Rightarrow> jstring \<Rightarrow> jstring option" where
  "parseExprLiteral other raw =
     (let t = js_trim raw
      in if t = lit ''true'' \<or> t = lit ''false'' then Some t
         else if isNumericLiteral t then Some t
         else if t \<noteq> [] \<and> hd t = 34 then json_unquote t
         else other t)"

definition TIME_FUNC_RANGES :: "(jstring \<times> int \<times> int) list" where
  "TIME_FUNC_RANGES =
     [(lit ''hour'', 0, 23), (lit ''minute'', 0, 59), (lit ''weekday'', 0, 6), (lit ''month'', 1, 12), (lit ''day'', 1, 31)]"

definition isTimeValueInRange :: "jstring \<Rightarrow> jstring \<Rightarrow> bool" where
  "isTimeValueInRange f t =
     (if \<not> isNumericLiteral t then False
      else
        let v = numberOf t
        in if \<not> num_isInteger v then False
           else case map_of TIME_FUNC_RANGES f of
             None \<Rightarrow> False
           | Some (lo, hi) \<Rightarrow> num_gt v (lo - 1) \<and> num_le v hi)"

section \<open>Reading conditions\<close>

text \<open>\<open>(hour|minute|weekday|month|day)\("([^"]+)"\)\<close> at the start of a text.\<close>

definition timeCall :: "jstring \<Rightarrow> (jstring \<times> jstring \<times> jstring) option" where
  "timeCall s =
     do {
       f \<leftarrow> List.find (\<lambda>f. js_startsWith s (f @ [40, 34])) TIME_FUNCS;
       (tz, r) \<leftarrow> quotedName (drop (length f + 2) s);
       r \<leftarrow> stripPrefix [41] r;
       Some (f, tz, r)
     }"

text \<open>A run of \<open>[\d.eE+-]+\<close>.\<close>

definition numberRun :: "jstring \<Rightarrow> (jstring \<times> jstring) option" where
  "numberRun s =
     (let n = takeWhile num_unit s in if n = [] then None else Some (n, dropWhile num_unit s))"

definition timeRange :: "jstring \<Rightarrow> (jstring \<times> jstring \<times> jstring \<times> jstring) option" where
  "timeRange s =
     do {
       (f, tz, r) \<leftarrow> timeCall s;
       r \<leftarrow> stripPrefix (lit '' >= '') r;
       (a, r) \<leftarrow> numberRun r;
       r \<leftarrow> (case stripPrefix (lit '' && '') r of Some r' \<Rightarrow> Some r' | None \<Rightarrow> stripPrefix (lit '' || '') r);
       r \<leftarrow> stripPrefix (f @ [40, 34] @ tz @ [34, 41] @ lit '' < '') r;
       (b, r) \<leftarrow> numberRun r;
       if r = [] then Some (f, tz, a, b) else None
     }"

definition timeScalar :: "jstring \<Rightarrow> (jstring \<times> jstring \<times> jstring \<times> jstring) option" where
  "timeScalar s =
     do {
       (f, tz, r) \<leftarrow> timeCall s;
       (op, m) \<leftarrow> List.find (\<lambda>(op, m). js_startsWith r (lit '' '' @ op @ lit '' ''))
         [(lit ''=='', MATCH_EQ), (lit ''>='', MATCH_GTE), (lit ''<'', MATCH_LT)];
       (v, r) \<leftarrow> numberRun (drop (length op + 2) r);
       if r = [] then Some (f, tz, m, v) else None
     }"

definition tryParseTimeCondition :: "jstring \<Rightarrow> time_condition option" where
  "tryParseTimeCondition expr =
     (case (case timeRange expr of
              Some m \<Rightarrow> Some m
            | None \<Rightarrow> do { s \<leftarrow> stripPrefix [40] expr; s \<leftarrow> stripSuffix [41] s; timeRange s }) of
        Some (f, tz, a, b) \<Rightarrow>
          if \<not> isTimeValueInRange f a \<or> \<not> isTimeValueInRange f b then None
          else Some \<lparr>timeFunc = f, timezone = tz, tc_mode = MATCH_RANGE, tc_value = [], rangeStart = a, rangeEnd = b\<rparr>
      | None \<Rightarrow>
          (case timeScalar expr of
             None \<Rightarrow> None
           | Some (f, tz, m, v) \<Rightarrow>
               if \<not> isTimeValueInRange f v then None
               else Some \<lparr>timeFunc = f, timezone = tz, tc_mode = m, tc_value = v, rangeStart = [], rangeEnd = []\<rparr>))"

text \<open>\<open>"(?:[^"\\]|\\.)*"\<close> up to the end of the text, after its opening quote.\<close>

fun quotedBody :: "jstring \<Rightarrow> bool" where
  "quotedBody [] = False"
| "quotedBody (c # s) =
     (if c = 34 then s = []
      else if c = 92 then (case s of [] \<Rightarrow> False | e # s' \<Rightarrow> \<not> line_terminator e \<and> quotedBody s')
      else quotedBody s)"

definition isQuoted :: "jstring \<Rightarrow> bool" where
  "isQuoted s \<longleftrightarrow> (case s of [] \<Rightarrow> False | c # r \<Rightarrow> c = 34 \<and> quotedBody r)"

text \<open>\<open>param("...")\<close> and \<open>header("...")\<close> at the start of a text.\<close>

definition sourceName :: "rule_source \<Rightarrow> jstring" where
  "sourceName src = (case src of Param \<Rightarrow> lit ''param'' | Header \<Rightarrow> lit ''header'')"

definition sourceCall :: "rule_source \<Rightarrow> jstring \<Rightarrow> (jstring \<times> jstring) option" where
  "sourceCall src s =
     do { r \<leftarrow> stripPrefix (sourceName src @ [40, 34]) s; (p, r) \<leftarrow> quotedName r; r \<leftarrow> stripPrefix [41] r; Some (p, r) }"

text \<open>\<open>has(param("..."), "...")\<close> as a whole text.\<close>

definition hasCall :: "rule_source \<Rightarrow> jstring \<Rightarrow> (jstring \<times> jstring) option" where
  "hasCall src s =
     do {
       r \<leftarrow> stripPrefix (lit ''has('') s;
       (p, r) \<leftarrow> sourceCall src r;
       r \<leftarrow> stripPrefix (lit '', '') r;
       q \<leftarrow> stripSuffix [41] r;
       if isQuoted q then Some (p, q) else None
     }"

definition compareCall :: "jstring \<Rightarrow> (jstring \<times> jstring \<times> jstring) option" where
  "compareCall s =
     do {
       (p, r) \<leftarrow> sourceCall Param s;
       (op, m) \<leftarrow> List.find (\<lambda>(op, m). js_startsWith r (lit '' '' @ op @ lit '' ''))
         [(lit ''>'', MATCH_GT), (lit ''>='', MATCH_GTE), (lit ''<'', MATCH_LT), (lit ''<='', MATCH_LTE)];
       (v, r) \<leftarrow> numberRun (drop (length op + 2) r);
       if r = [] then Some (p, m, v) else None
     }"

definition eqCall :: "rule_source \<Rightarrow> jstring \<Rightarrow> (jstring \<times> jstring) option" where
  "eqCall src s =
     do {
       (p, r) \<leftarrow> sourceCall src s;
       v \<leftarrow> stripPrefix (lit '' == '') r;
       if v \<noteq> [] \<and> list_all (\<lambda>c. \<not> line_terminator c) v then Some (p, v) else None
     }"

definition phCondition :: "rule_source \<Rightarrow> jstring \<Rightarrow> jstring \<Rightarrow> jstring \<Rightarrow> request_condition" where
  "phCondition src p m v = ParamHeaderC \<lparr>ph_source = src, ph_path = p, ph_mode = m, ph_value = v\<rparr>"

definition existsCall :: "rule_source \<Rightarrow> jstring \<Rightarrow> jstring option" where
  "existsCall src s =
     do {
       (p, r) \<leftarrow> sourceCall src s;
       if r = (case src of Header \<Rightarrow> lit '' != '' @ [34, 34] | Param \<Rightarrow> lit '' != nil'') then Some p else None
     }"

text \<open>\<open>param("...") != nil && \<close> at the start of a text.\<close>

definition nilGuard :: "jstring \<Rightarrow> (jstring \<times> jstring) option" where
  "nilGuard s = do { (p, r) \<leftarrow> sourceCall Param s; r \<leftarrow> stripPrefix (lit '' != nil && '') r; Some (p, r) }"

definition guardedHas :: "jstring \<Rightarrow> (jstring \<times> jstring) option" where
  "guardedHas s = do { (p, r) \<leftarrow> nilGuard s; (p', q) \<leftarrow> hasCall Param r; if p = p' then Some (p, q) else None }"

definition guardedCompare :: "jstring \<Rightarrow> (jstring \<times> jstring \<times> jstring) option" where
  "guardedCompare s = do { (p, r) \<leftarrow> nilGuard s; (p', m, v) \<leftarrow> compareCall r; if p = p' then Some (p, m, v) else None }"

definition containsCondition :: "rule_source \<Rightarrow> jstring \<Rightarrow> jstring \<Rightarrow> request_condition option attempt" where
  "containsCondition src p q =
     (case json_unquote q of None \<Rightarrow> Threw | Some v \<Rightarrow> Gave (Some (phCondition src p MATCH_CONTAINS v)))"

definition eqCondition :: "(jstring \<Rightarrow> jstring option) \<Rightarrow> jstring \<Rightarrow> request_condition option" where
  "eqCondition other s =
     (case eqCall Param s of
        Some (p, v) \<Rightarrow> map_option (phCondition Param p MATCH_EQ) (parseExprLiteral other v)
      | None \<Rightarrow>
          (case eqCall Header s of
             Some (p, v) \<Rightarrow> map_option (phCondition Header p MATCH_EQ) (parseExprLiteral other v)
           | None \<Rightarrow> None))"

definition tryParseRequestCondition ::
  "(jstring \<Rightarrow> jstring option) \<Rightarrow> jstring \<Rightarrow> request_condition option attempt" where
  "tryParseRequestCondition other expr =
     (case tryParseTimeCondition expr of
        Some t \<Rightarrow> Gave (Some (TimeC t))
      | None \<Rightarrow> (case existsCall Header expr of
        Some p \<Rightarrow> Gave (Some (phCondition Header p MATCH_EXISTS []))
      | None \<Rightarrow> (case existsCall Param expr of
        Some p \<Rightarrow> Gave (Some (phCondition Param p MATCH_EXISTS []))
      | None \<Rightarrow> (case hasCall Header expr of
        Some (p, q) \<Rightarrow> containsCondition Header p q
      | None \<Rightarrow> (case guardedHas expr of
        Some (p, q) \<Rightarrow> containsCondition Param p q
      | None \<Rightarrow> (case guardedCompare expr of
        Some (p, m, v) \<Rightarrow> Gave (Some (phCondition Param p m v))
      | None \<Rightarrow> Gave (eqCondition other expr)))))))"

definition tryParseTimeRangePair :: "jstring \<Rightarrow> jstring \<Rightarrow> request_condition option" where
  "tryParseTimeRangePair lower upper =
     do {
       a \<leftarrow> tryParseTimeCondition lower;
       b \<leftarrow> tryParseTimeCondition upper;
       if timeFunc a \<noteq> timeFunc b \<or> timezone a \<noteq> timezone b then None
       else if tc_mode a \<noteq> MATCH_GTE \<or> tc_mode b \<noteq> MATCH_LT then None
       else Some (TimeC \<lparr>timeFunc = timeFunc a, timezone = timezone a, tc_mode = MATCH_RANGE, tc_value = [],
              rangeStart = tc_value a, rangeEnd = tc_value b\<rparr>)
     }"

fun consResult :: "'a \<Rightarrow> 'a list option attempt \<Rightarrow> 'a list option attempt" where
  "consResult x Threw = Threw"
| "consResult x (Gave r) = Gave (map_option (\<lambda>xs. x # xs) r)"

text \<open>The loop over the parts of a conjunction; two adjacent time bounds are read as one range.\<close>

definition rangeWithNext :: "jstring \<Rightarrow> jstring list \<Rightarrow> request_condition option" where
  "rangeWithNext part ps =
     (case ps of
        [] \<Rightarrow> None
      | next # _ \<Rightarrow> if js_trim next = [] then None else tryParseTimeRangePair (js_trim part) (js_trim next))"

fun parseParts :: "(jstring \<Rightarrow> jstring option) \<Rightarrow> jstring list \<Rightarrow> request_condition list option attempt" where
  "parseParts other [] = Gave (Some [])"
| "parseParts other (part # ps) =
     (case rangeWithNext part ps of
        Some c \<Rightarrow> consResult c (parseParts other (tl ps))
      | None \<Rightarrow>
          (case tryParseRequestCondition other (js_trim part) of
             Threw \<Rightarrow> Threw
           | Gave None \<Rightarrow> Gave None
           | Gave (Some c) \<Rightarrow> consResult c (parseParts other ps)))"

definition tryParseRequestConditions ::
  "(jstring \<Rightarrow> jstring option) \<Rightarrow> jstring \<Rightarrow> request_condition list option attempt" where
  "tryParseRequestConditions other conditionStr =
     (case tryParseTimeCondition (js_trim conditionStr) of
        Some t \<Rightarrow> Gave (Some [TimeC t])
      | None \<Rightarrow>
          (case parseParts other (splitTopLevelAnd conditionStr) of
             Gave (Some []) \<Rightarrow> Gave None
           | r \<Rightarrow> r))"

section \<open>Reading rules\<close>

text \<open>\<open>^\((.+) \? ([\d.eE+-]+) : 1\)$\<close>: the multiplier is the run before the end, so the condition is
  everything before the last \<open>?\<close>.\<close>

definition ruleFactor :: "jstring \<Rightarrow> (jstring \<times> jstring) option" where
  "ruleFactor part =
     do {
       s \<leftarrow> stripPrefix [40] part;
       s \<leftarrow> stripSuffix (lit '' : 1)'') s;
       (let m = rev (takeWhile num_unit (rev s)); r = rev (dropWhile num_unit (rev s))
        in if m = [] then None
           else do { c \<leftarrow> stripSuffix (lit '' ? '') r; if c = [] then None else Some (c, m) })
     }"

definition tryParseRuleGroupFactor ::
  "(jstring \<Rightarrow> jstring option) \<Rightarrow> jstring \<Rightarrow> request_rule_group option attempt" where
  "tryParseRuleGroupFactor other part =
     (case ruleFactor part of
        None \<Rightarrow> Gave None
      | Some (c, m) \<Rightarrow>
          (case tryParseRequestConditions other c of
             Threw \<Rightarrow> Threw
           | Gave None \<Rightarrow> Gave None
           | Gave (Some cs) \<Rightarrow>
               Gave (Some \<lparr>conditions = cs, multiplier = m, conditionText = None, matched = None\<rparr>)))"

definition groupFromTrace ::
  "(jstring \<Rightarrow> jstring option) \<Rightarrow> request_rule_trace \<Rightarrow> request_rule_group attempt" where
  "groupFromTrace other rule =
     (let t = js_trim (tr_cond rule)
      in case tryParseRequestConditions other t of
           Threw \<Rightarrow> Threw
         | Gave cs \<Rightarrow>
             Gave \<lparr>conditions = (case cs of None \<Rightarrow> [] | Some cs \<Rightarrow> cs), multiplier = js_numberText (tr_multiplier rule),
                   conditionText = Some t, matched = Some (tr_matched rule)\<rparr>)"

fun collect :: "'a attempt list \<Rightarrow> 'a list attempt" where
  "collect [] = Gave []"
| "collect (Threw # xs) = Threw"
| "collect (Gave x # xs) = (case collect xs of Threw \<Rightarrow> Threw | Gave ys \<Rightarrow> Gave (x # ys))"

definition requestRuleGroupsFromTrace ::
  "(jstring \<Rightarrow> jstring option) \<Rightarrow> request_rule_trace list \<Rightarrow> request_rule_group list attempt" where
  "requestRuleGroupsFromTrace other rules = collect (map (groupFromTrace other) rules)"

fun parseFactors :: "(jstring \<Rightarrow> jstring option) \<Rightarrow> jstring list \<Rightarrow> request_rule_group list option attempt" where
  "parseFactors other [] = Gave (Some [])"
| "parseFactors other (part # ps) =
     (case tryParseRuleGroupFactor other part of
        Threw \<Rightarrow> Threw
      | Gave None \<Rightarrow> Gave None
      | Gave (Some g) \<Rightarrow> consResult g (parseFactors other ps))"

definition tryParseRequestRuleExpr ::
  "(jstring \<Rightarrow> jstring option) \<Rightarrow> jstring \<Rightarrow> request_rule_group list option attempt" where
  "tryParseRequestRuleExpr other expr =
     (let t = js_trim expr in if t = [] then Gave (Some []) else parseFactors other (splitTopLevelMultiply t))"

section \<open>The billing expression and its rules\<close>

fun fullParens :: "int \<Rightarrow> jstring \<Rightarrow> bool" where
  "fullParens d [] \<longleftrightarrow> d = 0"
| "fullParens d (c # s) \<longleftrightarrow> (let d = depth_step c d in \<not> (d = 0 \<and> s \<noteq> []) \<and> fullParens d s)"

definition hasFullOuterParens :: "jstring \<Rightarrow> bool" where
  "hasFullOuterParens expr \<longleftrightarrow> js_startsWith expr [40] \<and> js_endsWith expr [41] \<and> fullParens 0 expr"

function unwrapLoop :: "jstring \<Rightarrow> jstring" where
  "unwrapLoop current =
     (if hasFullOuterParens current then unwrapLoop (js_trim (butlast (tl current))) else current)"
  by pat_completeness auto
termination
proof (relation "measure length")
  fix current :: jstring
  assume "hasFullOuterParens current"
  then have "current \<noteq> []" by (auto simp: hasFullOuterParens_def)
  then have "length (butlast (tl current)) < length current" by (cases current) auto
  then show "(js_trim (butlast (tl current)), current) \<in> measure length"
    using length_js_trim [of "butlast (tl current)"] by simp
qed simp

declare unwrapLoop.simps [simp del]

definition unwrapOuterParens :: "jstring \<Rightarrow> jstring" where
  "unwrapOuterParens expr = unwrapLoop (js_trim expr)"

text \<open>The \<open>forEach\<close> that sorts the factors into rules and bases.\<close>

fun sortFactors :: "(jstring \<Rightarrow> jstring option) \<Rightarrow> jstring list \<Rightarrow> (jstring list \<times> jstring list) attempt" where
  "sortFactors other [] = Gave ([], [])"
| "sortFactors other (part # ps) =
     (case tryParseRequestRuleExpr other part of
        Threw \<Rightarrow> Threw
      | Gave parsed \<Rightarrow>
          (case sortFactors other ps of
             Threw \<Rightarrow> Threw
           | Gave (rules, bases) \<Rightarrow>
               Gave (case parsed of
                       Some (g # gs) \<Rightarrow> (part # rules, bases)
                     | _ \<Rightarrow> (rules, part # bases))))"

definition splitBillingExprAndRequestRules ::
  "(jstring \<Rightarrow> jstring option) \<Rightarrow> jstring \<Rightarrow> (jstring \<times> jstring) attempt" where
  "splitBillingExprAndRequestRules other expr =
     (let trimmed = js_trim expr; parts = splitTopLevelMultiply trimmed
      in if trimmed = [] then Gave ([], [])
         else if length parts \<le> 1 then Gave (trimmed, [])
         else case sortFactors other parts of
           Threw \<Rightarrow> Threw
         | Gave (rules, bases) \<Rightarrow>
             if rules = [] \<or> length bases \<noteq> 1 then Gave (trimmed, [])
             else Gave (unwrapOuterParens (hd bases), js_join (lit '' * '') rules))"

definition combineBillingExpr :: "jstring \<Rightarrow> jstring \<Rightarrow> jstring" where
  "combineBillingExpr baseExpr requestRuleExpr =
     (let base = js_trim baseExpr; rules = js_trim requestRuleExpr
      in if base = [] then [] else if rules = [] then base else [40] @ base @ lit '') * '' @ rules)"

section \<open>Editing\<close>

text \<open>A condition the editor hands over may lack fields.\<close>

record partial_condition =
  pc_source :: "jstring option"
  pc_timeFunc :: "jstring option"
  pc_timezone :: "jstring option"
  pc_path :: "jstring option"
  pc_mode :: "jstring option"
  pc_value :: "jstring option"
  pc_rangeStart :: "jstring option"
  pc_rangeEnd :: "jstring option"

definition createEmptyCondition :: request_condition where
  "createEmptyCondition = phCondition Param [] MATCH_EQ []"

definition createEmptyTimeCondition :: request_condition where
  "createEmptyTimeCondition = TimeC \<lparr>timeFunc = lit ''hour'', timezone = lit ''Asia/Shanghai'', tc_mode = MATCH_GTE,
     tc_value = [], rangeStart = [], rangeEnd = []\<rparr>"

definition createEmptyRuleGroup :: request_rule_group where
  "createEmptyRuleGroup = \<lparr>conditions = [createEmptyCondition], multiplier = [], conditionText = None, matched = None\<rparr>"

definition createEmptyTimeRuleGroup :: request_rule_group where
  "createEmptyTimeRuleGroup =
     \<lparr>conditions = [createEmptyTimeCondition], multiplier = [], conditionText = None, matched = None\<rparr>"

definition getRequestRuleMatchOptions :: "jstring \<Rightarrow> (jstring \<times> jstring) list" where
  "getRequestRuleMatchOptions source =
     (if source = lit ''time'' then
        [(MATCH_EQ, lit ''Equals''), (MATCH_GTE, lit ''Greater than or equal''), (MATCH_LT, lit ''Less than''),
         (MATCH_RANGE, lit ''Overnight range'')]
      else
        let base = [(MATCH_EQ, lit ''Equals''), (MATCH_CONTAINS, lit ''Contains''), (MATCH_EXISTS, lit ''Exists'')]
        in if source = lit ''header'' then base
           else base @ [(MATCH_GT, lit ''Greater than''), (MATCH_GTE, lit ''Greater than or equal''),
                        (MATCH_LT, lit ''Less than''), (MATCH_LTE, lit ''Less than or equal'')])"

definition isTimeFunc :: "jstring option \<Rightarrow> bool" where
  "isTimeFunc v \<longleftrightarrow> (case v of None \<Rightarrow> False | Some f \<Rightarrow> f \<in> set TIME_FUNCS)"

definition orEmpty :: "jstring option \<Rightarrow> jstring" where
  "orEmpty v = (case v of None \<Rightarrow> [] | Some t \<Rightarrow> t)"

definition offeredMode :: "jstring \<Rightarrow> jstring option \<Rightarrow> jstring \<Rightarrow> jstring" where
  "offeredMode source m def =
     (case m of None \<Rightarrow> def | Some x \<Rightarrow> if x \<in> fst ` set (getRequestRuleMatchOptions source) then x else def)"

definition normalizeCondition :: "partial_condition \<Rightarrow> request_condition" where
  "normalizeCondition cond =
     (if pc_source cond = Some (lit ''time'') then
        TimeC \<lparr>timeFunc = (if isTimeFunc (pc_timeFunc cond) then orEmpty (pc_timeFunc cond) else lit ''hour''),
          timezone = (if orEmpty (pc_timezone cond) = [] then lit ''Asia/Shanghai'' else orEmpty (pc_timezone cond)),
          tc_mode = offeredMode (lit ''time'') (pc_mode cond) MATCH_GTE,
          tc_value = orEmpty (pc_value cond), rangeStart = orEmpty (pc_rangeStart cond), rangeEnd = orEmpty (pc_rangeEnd cond)\<rparr>
      else
        let src = (if pc_source cond = Some (lit ''header'') then Header else Param)
        in phCondition src (orEmpty (pc_path cond)) (offeredMode (sourceName src) (pc_mode cond) MATCH_EQ) (orEmpty (pc_value cond)))"

text \<open>A complete condition as \<open>normalizeCondition\<close> sees it.\<close>

definition toPartial :: "request_condition \<Rightarrow> partial_condition" where
  "toPartial c =
     (case c of
        TimeC t \<Rightarrow> \<lparr>pc_source = Some (lit ''time''), pc_timeFunc = Some (timeFunc t), pc_timezone = Some (timezone t),
          pc_path = None, pc_mode = Some (tc_mode t), pc_value = Some (tc_value t), pc_rangeStart = Some (rangeStart t),
          pc_rangeEnd = Some (rangeEnd t)\<rparr>
      | ParamHeaderC h \<Rightarrow> \<lparr>pc_source = Some (sourceName (ph_source h)), pc_timeFunc = None, pc_timezone = None,
          pc_path = Some (ph_path h), pc_mode = Some (ph_mode h), pc_value = Some (ph_value h), pc_rangeStart = None,
          pc_rangeEnd = None\<rparr>)"

section \<open>Building expressions\<close>

definition buildExprLiteral :: "jstring \<Rightarrow> jstring \<Rightarrow> jstring" where
  "buildExprLiteral m v =
     (let t = js_trim v
      in if m = MATCH_CONTAINS then json_quote t
         else if t = lit ''true'' \<or> t = lit ''false'' then t
         else if isNumericLiteral t then t
         else json_quote t)"

fun num_less :: "jsnum \<Rightarrow> jsnum \<Rightarrow> bool" where
  "num_less NaN y = False"
| "num_less x NaN = False"
| "num_less (Fin a) (Fin b) = (a < b)"
| "num_less NegInf y = (y \<noteq> NegInf)"
| "num_less x PosInf = (x \<noteq> PosInf)"
| "num_less x y = False"

definition timeText :: "time_condition \<Rightarrow> jstring" where
  "timeText t =
     (let fn = timeFunc t @ [40] @ json_quote (timezone t) @ [41]
      in if tc_mode t = MATCH_RANGE then
           (let s = js_trim (rangeStart t); e = js_trim (rangeEnd t)
            in if \<not> isTimeValueInRange (timeFunc t) s \<or> \<not> isTimeValueInRange (timeFunc t) e then []
               else if num_less (numberOf e) (numberOf s) then fn @ lit '' >= '' @ s @ lit '' || '' @ fn @ lit '' < '' @ e
               else fn @ lit '' >= '' @ s @ lit '' && '' @ fn @ lit '' < '' @ e)
         else
           let v = js_trim (tc_value t)
           in if \<not> isTimeValueInRange (timeFunc t) v then []
              else fn @ lit '' '' @
                (if tc_mode t = MATCH_GTE then lit ''>='' else if tc_mode t = MATCH_LT then lit ''<'' else lit ''=='') @
                lit '' '' @ v)"

definition buildTimeConditionExpr :: "time_condition \<Rightarrow> jstring" where
  "buildTimeConditionExpr cond =
     (case normalizeCondition (toPartial (TimeC cond)) of TimeC t \<Rightarrow> timeText t | ParamHeaderC h \<Rightarrow> [])"

definition compareOp :: "jstring \<Rightarrow> jstring option" where
  "compareOp m = map_of [(MATCH_GT, lit ''>''), (MATCH_GTE, lit ''>=''), (MATCH_LT, lit ''<''), (MATCH_LTE, lit ''<='')] m"

definition paramHeaderText :: "param_header_condition \<Rightarrow> jstring" where
  "paramHeaderText h =
     (let path = js_trim (ph_path h);
          sourceExpr = sourceName (ph_source h) @ [40] @ json_quote path @ [41];
          literal = buildExprLiteral (ph_mode h) (ph_value h)
      in if path = [] then []
         else if ph_mode h = MATCH_EXISTS then
           (case ph_source h of Header \<Rightarrow> sourceExpr @ lit '' != '' @ [34, 34] | Param \<Rightarrow> sourceExpr @ lit '' != nil'')
         else if ph_mode h = MATCH_CONTAINS then
           (case ph_source h of
              Header \<Rightarrow> lit ''has('' @ sourceExpr @ lit '', '' @ literal @ [41]
            | Param \<Rightarrow> sourceExpr @ lit '' != nil && has('' @ sourceExpr @ lit '', '' @ literal @ [41])
         else (case compareOp (ph_mode h) of
           Some op \<Rightarrow>
             (let numText = js_trim (ph_value h)
              in if \<not> isNumericLiteral numText then []
                 else sourceExpr @ lit '' != nil && '' @ sourceExpr @ lit '' '' @ op @ lit '' '' @ numText)
         | None \<Rightarrow> sourceExpr @ lit '' == '' @ literal))"

definition buildRequestConditionExpr :: "request_condition \<Rightarrow> jstring" where
  "buildRequestConditionExpr cond =
     (case cond of
        TimeC t \<Rightarrow> buildTimeConditionExpr t
      | ParamHeaderC h \<Rightarrow>
          (case normalizeCondition (toPartial cond) of ParamHeaderC h \<Rightarrow> paramHeaderText h | TimeC t \<Rightarrow> []))"

definition buildRuleGroupFactor :: "request_rule_group \<Rightarrow> jstring" where
  "buildRuleGroupFactor g =
     (let m = js_trim (multiplier g);
          condExprs = filter (\<lambda>e. e \<noteq> []) (map buildRequestConditionExpr (conditions g));
          combined = (case condExprs of
              [e] \<Rightarrow> e
            | _ \<Rightarrow> js_join (lit '' && '') (map (\<lambda>e. if js_includes e (lit '' || '') then [40] @ e @ [41] else e) condExprs))
      in if \<not> isNumericLiteral m then []
         else if condExprs = [] then []
         else [40] @ combined @ lit '' ? '' @ m @ lit '' : 1)'')"

definition buildRequestRuleExpr :: "request_rule_group list \<Rightarrow> jstring" where
  "buildRequestRuleExpr gs = js_join (lit '' * '') (filter (\<lambda>e. e \<noteq> []) (map buildRuleGroupFactor gs))"

end
