(* ===== verification/RuleRoundtrip.thy ===== *)
theory RuleRoundtrip
  imports RequestRules
begin

text \<open>
  Building request rules and reading them back. The rules the editor can build fall into three kinds:
  readable conditions, whose text parses to themselves; within-day time ranges, whose text is a
  conjunction of two bounds that the reader joins again; and guarded conditions on a parameter, whose
  text the reader splits and then does not recognise.
\<close>

section \<open>Names and calls\<close>

definition plain_unit :: "code_unit \<Rightarrow> bool" where
  "plain_unit c \<longleftrightarrow> 32 \<le> c \<and> c \<noteq> 34 \<and> c \<noteq> 40 \<and> c \<noteq> 41 \<and> c \<noteq> 92 \<and> c \<noteq> 124 \<and>
     \<not> high_surrogate c \<and> \<not> low_surrogate c"

definition plain_name :: "jstring \<Rightarrow> bool" where
  "plain_name s \<longleftrightarrow> s \<noteq> [] \<and> list_all plain_unit s"

lemma quote_units_plain: "list_all plain_unit s \<Longrightarrow> quote_units s = s"
  by (induction s rule: quote_units.induct) (auto simp: plain_unit_def quote_unit_def)

lemma json_quote_plain: "plain_name s \<Longrightarrow> json_quote s = 34 # s @ [34]"
  by (simp add: json_quote_def quote_units_plain plain_name_def)

lemma plain_name_quote: "plain_name s \<Longrightarrow> 34 \<notin> set s \<and> s \<noteq> []"
  by (auto simp: plain_name_def plain_unit_def list_all_iff)

text \<open>\<open>f("name")\<close>\<close>

definition callText :: "jstring \<Rightarrow> jstring \<Rightarrow> jstring" where
  "callText f n = f @ [40] @ (34 # n @ [34]) @ [41]"

named_theorems call_simps

lemma quotedName_call [call_simps]: "plain_name n \<Longrightarrow> quotedName (n @ 34 # 41 # r) = Some (n, 41 # r)"
  using plain_name_quote quotedName_append by blast

lemma stripPrefix_Cons [call_simps]: "stripPrefix [41] (41 # r) = Some r"
  by (simp add: stripPrefix_def)

lemma sourceCall_same [call_simps]:
  "plain_name n \<Longrightarrow> sourceCall src (callText (sourceName src) n @ r) = Some (n, r)"
  using stripPrefix_append [of "sourceName src @ [40, 34]" "n @ 34 # 41 # r"]
  by (simp add: sourceCall_def callText_def call_simps)

lemma sourceCall_other [call_simps]:
  "sourceCall Header (callText (sourceName Param) n @ r) = None"
  "sourceCall Param (callText (sourceName Header) n @ r) = None"
  by (simp_all add: sourceCall_def callText_def sourceName_def stripPrefix_def js_eval)

lemma sourceCall_has [call_simps]: "sourceCall src (lit ''has('' @ r) = None" "sourceCall src (40 # r) = None"
  by (cases src; simp add: sourceCall_def sourceName_def stripPrefix_def js_eval)+

lemma time_funcs: "TIME_FUNCS = [[104, 111, 117, 114], [109, 105, 110, 117, 116, 101],
    [119, 101, 101, 107, 100, 97, 121], [109, 111, 110, 116, 104], [100, 97, 121]]"
  by (simp add: TIME_FUNCS_def js_eval)

lemma source_names: "sourceName Param = [112, 97, 114, 97, 109]" "sourceName Header = [104, 101, 97, 100, 101, 114]"
  by (simp_all add: sourceName_def js_eval)

lemma timeCall_same [call_simps]:
  assumes "f \<in> set TIME_FUNCS" and "plain_name n"
  shows "timeCall (callText f n @ r) = Some (f, n, r)"
proof -
  have "List.find (\<lambda>f'. js_startsWith (callText f n @ r) (f' @ [40, 34])) TIME_FUNCS = Some f"
    using assms(1) unfolding time_funcs callText_def by simp (elim disjE; simp)
  moreover have "drop (length f + 2) (callText f n @ r) = n @ 34 # 41 # r"
    by (simp add: callText_def)
  ultimately show ?thesis using assms(2) by (simp add: timeCall_def call_simps)
qed

lemma timeCall_other [call_simps]:
  "timeCall (callText (sourceName src) n @ r) = None" "timeCall (lit ''has('' @ r) = None" "timeCall (40 # r) = None"
  by (cases src; simp add: timeCall_def callText_def source_names time_funcs)
    (simp_all add: timeCall_def time_funcs js_eval)

lemma numberRun_append [call_simps]:
  assumes "list_all num_unit s" and "s \<noteq> []" and "r = [] \<or> \<not> num_unit (hd r)"
  shows "numberRun (s @ r) = Some (s, r)"
proof -
  have "takeWhile num_unit r = []" "dropWhile num_unit r = r" using assms(3) by (cases r; simp)+
  then show ?thesis using assms by (simp add: numberRun_def list_all_iff takeWhile_append2 dropWhile_append2)
qed

lemma numberRun_all: "list_all num_unit s \<Longrightarrow> s \<noteq> [] \<Longrightarrow> numberRun s = Some (s, [])"
  using numberRun_append [of s "[]"] by simp

section \<open>Conditions the reader knows\<close>

definition wf_time :: "time_condition \<Rightarrow> bool" where
  "wf_time t \<longleftrightarrow> timeFunc t \<in> set TIME_FUNCS \<and> plain_name (timezone t) \<and>
     (if tc_mode t = MATCH_RANGE
      then tc_value t = [] \<and> isTimeValueInRange (timeFunc t) (rangeStart t) \<and> isTimeValueInRange (timeFunc t) (rangeEnd t)
      else tc_mode t \<in> {MATCH_EQ, MATCH_GTE, MATCH_LT} \<and> isTimeValueInRange (timeFunc t) (tc_value t) \<and>
        rangeStart t = [] \<and> rangeEnd t = [])"

definition readable_literal :: "jstring \<Rightarrow> bool" where
  "readable_literal l \<longleftrightarrow> parens_ok l \<and> no_split (lit '' && '') 0 l \<and> 124 \<notin> set l \<and> list_all (\<lambda>c. \<not> line_terminator c) l"

definition wf_param_header :: "param_header_condition \<Rightarrow> bool" where
  "wf_param_header h \<longleftrightarrow> plain_name (ph_path h) \<and> js_trim (ph_path h) = ph_path h \<and>
     (ph_mode h = MATCH_EXISTS \<and> ph_value h = [] \<or>
      ph_mode h = MATCH_CONTAINS \<and> ph_source h = Header \<and> js_trim (ph_value h) = ph_value h \<and>
        readable_literal (json_quote (ph_value h)) \<or>
      ph_mode h = MATCH_EQ \<and> js_trim (ph_value h) = ph_value h \<and> readable_literal (buildExprLiteral MATCH_EQ (ph_value h)))"

fun wf_condition :: "request_condition \<Rightarrow> bool" where
  "wf_condition (TimeC t) = wf_time t"
| "wf_condition (ParamHeaderC h) = wf_param_header h"

lemma match_distinct [simp]:
  "MATCH_EQ \<noteq> MATCH_RANGE" "MATCH_GTE \<noteq> MATCH_RANGE" "MATCH_LT \<noteq> MATCH_RANGE" "MATCH_EQ \<noteq> MATCH_GTE" "MATCH_EQ \<noteq> MATCH_LT"
  "MATCH_GTE \<noteq> MATCH_LT" "MATCH_CONTAINS \<noteq> MATCH_EXISTS" "MATCH_EQ \<noteq> MATCH_EXISTS" "MATCH_EQ \<noteq> MATCH_CONTAINS"
  "MATCH_GT \<noteq> MATCH_EXISTS" "MATCH_GTE \<noteq> MATCH_EXISTS" "MATCH_LT \<noteq> MATCH_EXISTS" "MATCH_LTE \<noteq> MATCH_EXISTS"
  "MATCH_GT \<noteq> MATCH_CONTAINS" "MATCH_GTE \<noteq> MATCH_CONTAINS" "MATCH_LT \<noteq> MATCH_CONTAINS" "MATCH_LTE \<noteq> MATCH_CONTAINS"
  "MATCH_GT \<noteq> MATCH_GTE" "MATCH_GT \<noteq> MATCH_LT" "MATCH_GT \<noteq> MATCH_LTE" "MATCH_GTE \<noteq> MATCH_LTE" "MATCH_LT \<noteq> MATCH_LTE"
  "MATCH_EQ \<noteq> MATCH_GT" "MATCH_EQ \<noteq> MATCH_LTE"
  by (simp_all add: match_defs js_eval)

lemmas match_distinct_sym [simp] = match_distinct [symmetric]

lemma source_distinct [simp]: "sourceName src \<noteq> lit ''time''" "lit ''time'' \<noteq> sourceName src"
  "sourceName src = lit ''header'' \<longleftrightarrow> src = Header"
  by (cases src; simp add: sourceName_def js_eval)+

lemma compareOp_modes [simp]: "compareOp MATCH_EQ = None" "compareOp MATCH_GT = Some (lit ''>'')"
  "compareOp MATCH_GTE = Some (lit ''>='')" "compareOp MATCH_LT = Some (lit ''<'')" "compareOp MATCH_LTE = Some (lit ''<='')"
  by (simp_all add: compareOp_def)

lemma normalize_time:
  assumes "wf_time t"
  shows "normalizeCondition (toPartial (TimeC t)) = TimeC t"
  using assms
  by (auto simp: normalizeCondition_def toPartial_def wf_time_def isTimeFunc_def orEmpty_def offeredMode_def
      getRequestRuleMatchOptions_def plain_name_def split: if_splits)

lemma normalize_param_header:
  assumes "ph_mode h \<in> {MATCH_EQ, MATCH_CONTAINS, MATCH_EXISTS} \<or>
    ph_source h = Param \<and> ph_mode h \<in> {MATCH_GT, MATCH_GTE, MATCH_LT, MATCH_LTE}"
  shows "normalizeCondition (toPartial (ParamHeaderC h)) = ParamHeaderC h"
proof -
  have "offeredMode (sourceName (ph_source h)) (Some (ph_mode h)) MATCH_EQ = ph_mode h"
    using assms by (cases "ph_source h") (auto simp: offeredMode_def getRequestRuleMatchOptions_def Let_def)
  then show ?thesis
    by (cases "ph_source h") (simp_all add: normalizeCondition_def toPartial_def orEmpty_def phCondition_def)
qed

lemma timeValue_run:
  assumes "isTimeValueInRange f v"
  shows "list_all num_unit v" "v \<noteq> []" "js_trim v = v"
  using assms numericLiteral_units numericLiteral_trim by (auto simp: isTimeValueInRange_def split: if_splits)

section \<open>Time conditions\<close>

definition boundText :: "jstring \<Rightarrow> jstring \<Rightarrow> jstring \<Rightarrow> jstring \<Rightarrow> jstring" where
  "boundText f tz op v = callText f tz @ op @ v"

definition modeText :: "jstring \<Rightarrow> jstring" where
  "modeText m = (if m = MATCH_GTE then lit '' >= '' else if m = MATCH_LT then lit '' < '' else lit '' == '')"

definition rangeText :: "jstring \<Rightarrow> time_condition \<Rightarrow> jstring" where
  "rangeText sep t = boundText (timeFunc t) (timezone t) (lit '' >= '') (rangeStart t) @ sep @
     boundText (timeFunc t) (timezone t) (lit '' < '') (rangeEnd t)"

definition overnight :: "time_condition \<Rightarrow> bool" where
  "overnight t \<longleftrightarrow> num_less (numberOf (rangeEnd t)) (numberOf (rangeStart t))"

lemma op_units: "lit '' >= '' = [32, 62, 61, 32]" "lit '' < '' = [32, 60, 32]" "lit '' == '' = [32, 61, 61, 32]"
  "lit '' && '' = [32, 38, 38, 32]" "lit '' || '' = [32, 124, 124, 32]" "lit '' '' = [32]" "lit ''>='' = [62, 61]"
  "lit ''<'' = [60]" "lit ''=='' = [61, 61]" "lit ''>'' = [62]" "lit ''<='' = [60, 61]" "lit '' * '' = [32, 42, 32]"
  "lit '' ? '' = [32, 63, 32]" "lit '' : 1)'' = [32, 58, 32, 49, 41]" "lit ''has('' = [104, 97, 115, 40]"
  "lit '', '' = [44, 32]" "lit '' != nil'' = [32, 33, 61, 32, 110, 105, 108]" "lit '' != '' = [32, 33, 61, 32]"
  "lit '' != nil && '' = [32, 33, 61, 32, 110, 105, 108, 32, 38, 38, 32]"
  "lit '' != nil && has('' = [32, 33, 61, 32, 110, 105, 108, 32, 38, 38, 32, 104, 97, 115, 40]" "lit '') * '' = [41, 32, 42, 32]"
  by (simp_all add: js_eval)

lemma build_time:
  assumes "wf_time t"
  shows "buildTimeConditionExpr t =
    (if tc_mode t = MATCH_RANGE then rangeText (if overnight t then lit '' || '' else lit '' && '') t
     else boundText (timeFunc t) (timezone t) (modeText (tc_mode t)) (tc_value t))"
proof -
  have "json_quote (timezone t) = 34 # timezone t @ [34]"
    using assms by (simp add: wf_time_def json_quote_plain)
  then show ?thesis
    using assms timeValue_run [of "timeFunc t"]
    by (auto simp: buildTimeConditionExpr_def normalize_time timeText_def wf_time_def Let_def rangeText_def boundText_def
        callText_def overnight_def modeText_def op_units split: if_splits)
qed

lemma stripPrefix_units: "stripPrefix [] s = Some s" "stripPrefix (c # p) (d # s) = (if c = d then stripPrefix p s else None)"
  "stripPrefix (c # p) [] = None"
  by (simp_all add: stripPrefix_def)

lemma not_num_unit [simp]: "\<not> num_unit 32" "\<not> num_unit 41" "\<not> num_unit 34"
  by (simp_all add: num_unit_def is_digit_def)

lemma timeRange_range [call_simps]:
  assumes "wf_time t" and "tc_mode t = MATCH_RANGE" and "sep = lit '' && '' \<or> sep = lit '' || ''" and "rest = [] \<or> \<not> num_unit (hd rest)"
  shows "timeRange (rangeText sep t @ rest) =
    (if rest = [] then Some (timeFunc t, timezone t, rangeStart t, rangeEnd t) else None)"
proof -
  let ?f = "timeFunc t" and ?tz = "timezone t"
  have t: "?f \<in> set TIME_FUNCS" "plain_name ?tz" using assms by (auto simp: wf_time_def)
  have run: "list_all num_unit (rangeStart t)" "rangeStart t \<noteq> []" "list_all num_unit (rangeEnd t)" "rangeEnd t \<noteq> []"
    using assms(1,2) timeValue_run [of ?f] by (simp_all add: wf_time_def)
  define tail where "tail = sep @ boundText ?f ?tz (lit '' < '') (rangeEnd t) @ rest"
  have start: "numberRun (rangeStart t @ tail) = Some (rangeStart t, tail)"
    using run assms(3) by (intro numberRun_append) (auto simp: tail_def op_units)
  have sep: "(case stripPrefix (lit '' && '') tail of Some r' \<Rightarrow> Some r' | None \<Rightarrow> stripPrefix (lit '' || '') tail) =
      Some (boundText ?f ?tz (lit '' < '') (rangeEnd t) @ rest)"
    using assms(3) by (auto simp: tail_def op_units stripPrefix_units)
  have second: "stripPrefix (?f @ [40, 34] @ ?tz @ [34, 41] @ lit '' < '') (boundText ?f ?tz (lit '' < '') (rangeEnd t) @ rest) =
      Some (rangeEnd t @ rest)"
    using stripPrefix_append [of "?f @ [40, 34] @ ?tz @ [34, 41] @ lit '' < ''" "rangeEnd t @ rest"]
    by (simp add: boundText_def callText_def)
  have stop: "numberRun (rangeEnd t @ rest) = Some (rangeEnd t, rest)"
    using run assms(4) by (intro numberRun_append)
  have "rangeText sep t @ rest = callText ?f ?tz @ lit '' >= '' @ rangeStart t @ tail"
    by (simp add: rangeText_def boundText_def tail_def)
  then show ?thesis
    unfolding timeRange_def
    by (simp only: timeCall_same [OF t] stripPrefix_append start sep second stop Option.bind.simps prod.case)
qed

lemma timeRange_scalar:
  assumes "f \<in> set TIME_FUNCS" and "plain_name tz" and "list_all num_unit v" and "v \<noteq> []"
    and "rest = [] \<or> \<not> num_unit (hd rest)"
    and "rest = [] \<or> (\<exists>x. rest = lit '' && '' @ x \<and> (m \<noteq> MATCH_GTE \<or> \<not> js_startsWith x (callText f tz @ lit '' < '')))"
  shows "timeRange (boundText f tz (modeText m) v @ rest) = None"
proof (cases "m = MATCH_GTE")
  case True
  have run: "numberRun (v @ rest) = Some (v, rest)" using assms(3-5) by (intro numberRun_append)
  have fn: "f @ [40, 34] @ tz @ [34, 41] @ lit '' < '' = callText f tz @ lit '' < ''" by (simp add: callText_def)
  show ?thesis
  proof (cases "rest = []")
    case rest: True
    with True run show ?thesis
      by (simp add: timeRange_def boundText_def modeText_def timeCall_same [OF assms(1,2)] stripPrefix_def op_units)
  next
    case False
    with assms(6) True obtain x where x: "rest = lit '' && '' @ x" "\<not> js_startsWith x (callText f tz @ lit '' < '')" by blast
    have none: "stripPrefix (callText f tz @ lit '' < '') x = None" using x(2) by (simp add: stripPrefix_def)
    have "timeRange (callText f tz @ lit '' >= '' @ v @ lit '' && '' @ x) = None"
      unfolding timeRange_def
      by (simp only: timeCall_same [OF assms(1,2)] stripPrefix_append run [unfolded x(1)] Option.bind.simps prod.case
          option.case fn none)
    then have "timeRange (callText f tz @ lit '' >= '' @ v @ rest) = None" using x(1) by simp
    with True show ?thesis by (simp add: boundText_def modeText_def)
  qed
next
  case False
  then show ?thesis
    by (simp add: timeRange_def boundText_def modeText_def timeCall_same [OF assms(1,2)] stripPrefix_units op_units)
qed

lemma timeScalar_bound:
  assumes "f \<in> set TIME_FUNCS" and "plain_name tz" and "list_all num_unit v" and "v \<noteq> []"
    and "rest = [] \<or> \<not> num_unit (hd rest)" and "m \<in> {MATCH_EQ, MATCH_GTE, MATCH_LT}"
  shows "timeScalar (boundText f tz (modeText m) v @ rest) = (if rest = [] then Some (f, tz, m, v) else None)"
proof -
  have "numberRun (v @ rest) = Some (v, rest)" using assms(3-5) by (intro numberRun_append)
  then show ?thesis
    using assms(6)
    by (auto simp: timeScalar_def boundText_def modeText_def timeCall_same [OF assms(1,2)] op_units)
qed

lemma timeScalar_range:
  assumes "wf_time t" and "tc_mode t = MATCH_RANGE" and "sep = lit '' && '' \<or> sep = lit '' || ''"
  shows "timeScalar (rangeText sep t @ rest) = None"
proof -
  have "sep @ x \<noteq> []" "\<not> num_unit (hd (sep @ x))" for x using assms(3) by (auto simp: op_units)
  then show ?thesis
    using timeScalar_bound [of "timeFunc t" "timezone t" "rangeStart t" _ MATCH_GTE] assms timeValue_run [of "timeFunc t"]
    by (simp add: rangeText_def modeText_def wf_time_def del: append_is_Nil_conv)
qed

lemma call_not_paren:
  assumes "f \<in> set TIME_FUNCS"
  shows "stripPrefix [40] (callText f n @ r) = None"
  using assms unfolding time_funcs callText_def by simp (elim disjE; simp add: stripPrefix_def)

lemma read_scalar:
  assumes "wf_time t" and "tc_mode t \<noteq> MATCH_RANGE"
  shows "tryParseTimeCondition (boundText (timeFunc t) (timezone t) (modeText (tc_mode t)) (tc_value t)) = Some t"
proof -
  have t: "timeFunc t \<in> set TIME_FUNCS" "plain_name (timezone t)" "list_all num_unit (tc_value t)" "tc_value t \<noteq> []"
    "tc_mode t \<in> {MATCH_EQ, MATCH_GTE, MATCH_LT}"
    using assms timeValue_run [of "timeFunc t"] by (simp_all add: wf_time_def)
  show ?thesis
    using assms timeRange_scalar [OF t(1-4), of "[]" "tc_mode t"] timeScalar_bound [OF t(1-4) _ t(5), of "[]"]
      call_not_paren [OF t(1)]
    by (simp add: tryParseTimeCondition_def wf_time_def) (simp add: boundText_def)
qed

lemma read_range:
  assumes "wf_time t" and "tc_mode t = MATCH_RANGE" and "sep = lit '' && '' \<or> sep = lit '' || ''"
  shows "tryParseTimeCondition (rangeText sep t) = Some t"
    and "tryParseTimeCondition ([40] @ rangeText sep t @ [41]) = Some t"
proof -
  have eq: "\<lparr>timeFunc = timeFunc t, timezone = timezone t, tc_mode = MATCH_RANGE, tc_value = [], rangeStart = rangeStart t,
      rangeEnd = rangeEnd t\<rparr> = t"
    using assms by (simp add: wf_time_def)
  have "timeRange (rangeText sep t) = Some (timeFunc t, timezone t, rangeStart t, rangeEnd t)"
    using timeRange_range [OF assms, of "[]"] by simp
  moreover have "timeRange (40 # rangeText sep t @ [41]) = None"
    by (simp add: timeRange_def timeCall_other)
  moreover have "stripPrefix [40] (40 # rangeText sep t @ [41]) = Some (rangeText sep t @ [41])"
    by (simp add: stripPrefix_units)
  ultimately show "tryParseTimeCondition (rangeText sep t) = Some t"
    and "tryParseTimeCondition ([40] @ rangeText sep t @ [41]) = Some t"
    using assms eq by (simp_all add: tryParseTimeCondition_def wf_time_def)
qed

section \<open>Conditions on parameters and headers\<close>

lemma hex_unit_plain: "d < 16 \<Longrightarrow> hex_unit d \<noteq> 34 \<and> hex_unit d \<noteq> 92"
  by (auto simp: hex_unit_def)

lemma quotedBody_unit: "quotedBody (quote_unit c @ s) = quotedBody s"
  by (auto simp: quote_unit_def hex4_def hex_unit_plain line_terminator_def)

lemma quotedBody_quote: "quotedBody (quote_units v @ [34])"
  by (induction v rule: quote_units.induct) (auto simp: quotedBody_unit high_surrogate_def low_surrogate_def)

lemma isQuoted_quote [simp]: "isQuoted (json_quote v)"
  by (simp add: isQuoted_def json_quote_def quotedBody_quote)

lemma json_quote_ends: "hd (json_quote v) = 34" "last (json_quote v) = 34" "json_quote v \<noteq> []"
  by (simp_all add: json_quote_def)

lemma quote_trim: "js_trim (json_quote v) = json_quote v"
  by (rule js_trim_fix) (simp add: json_quote_ends is_ws_def)

lemma quote_no_number: "\<not> isNumericLiteral (json_quote v)"
  using numericLiteral_units [of "json_quote v"] by (auto simp: json_quote_def)

lemma quote_no_word: "json_quote v \<noteq> lit ''true''" "json_quote v \<noteq> lit ''false''"
  by (simp_all add: json_quote_def js_eval)

lemma literal_reads: "js_trim v = v \<Longrightarrow> parseExprLiteral other (buildExprLiteral MATCH_EQ v) = Some v"
  by (auto simp: buildExprLiteral_def parseExprLiteral_def quote_trim quote_no_number quote_no_word json_quote_ends Let_def)

lemma literal_ends: "buildExprLiteral m v \<noteq> []" "\<not> is_ws (last (buildExprLiteral m v))" "last (buildExprLiteral m v) \<noteq> 38"
proof -
  have num: "\<not> is_ws (last (js_trim v)) \<and> last (js_trim v) \<noteq> 38" if "isNumericLiteral (js_trim v)"
  proof -
    have "num_unit (last (js_trim v))"
      using numericLiteral_units [OF that] last_in_set [of "js_trim v"] by (auto simp: list_all_iff)
    moreover have "num_unit c \<Longrightarrow> c \<noteq> 38" for c by (auto simp: num_unit_def is_digit_def)
    ultimately show ?thesis using num_unit_not_ws by blast
  qed
  have "js_trim v \<noteq> []" if "isNumericLiteral (js_trim v)" using numericLiteral_units [OF that] by simp
  then show "buildExprLiteral m v \<noteq> []" by (auto simp: buildExprLiteral_def Let_def json_quote_ends js_eval)
  show "\<not> is_ws (last (buildExprLiteral m v))" "last (buildExprLiteral m v) \<noteq> 38"
    using num by (auto simp: buildExprLiteral_def Let_def json_quote_ends js_eval is_ws_def)
qed

definition existsText :: "rule_source \<Rightarrow> jstring" where
  "existsText src = (case src of Header \<Rightarrow> lit '' != '' @ [34, 34] | Param \<Rightarrow> lit '' != nil'')"

definition paramHeaderBody :: "param_header_condition \<Rightarrow> jstring" where
  "paramHeaderBody h =
     (if ph_mode h = MATCH_EXISTS then callText (sourceName (ph_source h)) (ph_path h) @ existsText (ph_source h)
      else if ph_mode h = MATCH_CONTAINS then
        lit ''has('' @ callText (sourceName Header) (ph_path h) @ lit '', '' @ json_quote (ph_value h) @ [41]
      else callText (sourceName (ph_source h)) (ph_path h) @ lit '' == '' @ buildExprLiteral MATCH_EQ (ph_value h))"

lemma build_param_header:
  assumes "wf_param_header h"
  shows "buildRequestConditionExpr (ParamHeaderC h) = paramHeaderBody h"
proof -
  have "normalizeCondition (toPartial (ParamHeaderC h)) = ParamHeaderC h"
    using assms by (intro normalize_param_header) (auto simp: wf_param_header_def)
  moreover have "ph_path h \<noteq> []" "json_quote (ph_path h) = 34 # ph_path h @ [34]" "js_trim (ph_path h) = ph_path h"
    using assms json_quote_plain by (auto simp: wf_param_header_def plain_name_def)
  ultimately show ?thesis
    using assms
    by (auto simp: buildRequestConditionExpr_def paramHeaderText_def wf_param_header_def paramHeaderBody_def existsText_def
        callText_def buildExprLiteral_def Let_def split: rule_source.splits)
qed

lemma time_none:
  "tryParseTimeCondition (callText (sourceName src) n @ r) = None" "tryParseTimeCondition (lit ''has('' @ r) = None"
proof -
  have "stripPrefix [40] (callText (sourceName src) n @ r) = None"
    by (cases src) (simp_all add: callText_def source_names stripPrefix_units)
  then show "tryParseTimeCondition (callText (sourceName src) n @ r) = None"
    by (simp add: tryParseTimeCondition_def timeRange_def timeScalar_def timeCall_other)
  have "stripPrefix [40] (lit ''has('' @ r) = None" by (simp add: stripPrefix_units op_units)
  then show "tryParseTimeCondition (lit ''has('' @ r) = None"
    by (simp add: tryParseTimeCondition_def timeRange_def timeScalar_def timeCall_other)
qed

lemma hasCall_none [call_simps]: "hasCall src (callText (sourceName src') n @ r) = None"
  by (cases src') (simp_all add: hasCall_def callText_def source_names stripPrefix_units op_units)

lemma eqCall_has [call_simps]: "eqCall src (lit ''has('' @ r) = None"
  by (simp add: eqCall_def sourceCall_has)

lemma read_exists:
  assumes "plain_name n"
  shows "tryParseRequestCondition other (callText (sourceName src) n @ existsText src) =
    Gave (Some (phCondition src n MATCH_EXISTS []))"
proof -
  have "existsCall src (callText (sourceName src) n @ existsText src) = Some n"
    using assms by (simp add: existsCall_def sourceCall_same existsText_def)
  moreover have "existsCall Header (callText (sourceName Param) n @ r) = None" for r
    by (simp add: existsCall_def sourceCall_other)
  ultimately show ?thesis by (cases src) (simp_all add: tryParseRequestCondition_def time_none)
qed

lemma read_contains:
  assumes "plain_name n"
  shows "tryParseRequestCondition other (lit ''has('' @ callText (sourceName Header) n @ lit '', '' @ json_quote v @ [41]) =
    Gave (Some (phCondition Header n MATCH_CONTAINS v))"
proof -
  have "hasCall Header (lit ''has('' @ callText (sourceName Header) n @ lit '', '' @ json_quote v @ [41]) = Some (n, json_quote v)"
    unfolding hasCall_def
    by (simp only: stripPrefix_append sourceCall_same [OF assms] stripSuffix_append Option.bind.simps prod.case isQuoted_quote if_True)
  then show ?thesis
    by (simp add: tryParseRequestCondition_def time_none existsCall_def sourceCall_has containsCondition_def)
qed

lemma read_eq:
  assumes "plain_name n" and "js_trim v = v" and "readable_literal (buildExprLiteral MATCH_EQ v)"
  shows "tryParseRequestCondition other (callText (sourceName src) n @ lit '' == '' @ buildExprLiteral MATCH_EQ v) =
    Gave (Some (phCondition src n MATCH_EQ v))"
proof -
  let ?l = "buildExprLiteral MATCH_EQ v"
  let ?t = "callText (sourceName src) n @ lit '' == '' @ ?l"
  have call: "sourceCall src ?t = Some (n, lit '' == '' @ ?l)" using assms(1) by (rule sourceCall_same)
  have other: "src' \<noteq> src \<Longrightarrow> sourceCall src' ?t = None" for src'
    using sourceCall_other by (cases src; cases src') auto
  have eq: "eqCall src ?t = Some (n, ?l)" unfolding eqCall_def
    using assms(3) literal_ends(1) by (simp only: call stripPrefix_append Option.bind.simps prod.case readable_literal_def) simp
  have "existsCall src' ?t = None" for src'
    using call other by (cases "src' = src") (auto simp: existsCall_def op_units split: rule_source.splits)
  moreover have "nilGuard ?t = None"
    using call other by (cases src) (auto simp: nilGuard_def op_units stripPrefix_units)
  moreover have "eqCondition other ?t = Some (phCondition src n MATCH_EQ v)"
  proof (cases src)
    case Param
    with eq literal_reads [OF assms(2)] show ?thesis by (simp add: eqCondition_def)
  next
    case Header
    then have "eqCall Param ?t = None" using other [of Param] by (simp add: eqCall_def)
    with Header eq literal_reads [OF assms(2)] show ?thesis by (simp add: eqCondition_def)
  qed
  ultimately show ?thesis
    by (simp add: tryParseRequestCondition_def time_none hasCall_none guardedHas_def guardedCompare_def)
qed

lemma read_param_header:
  assumes "wf_param_header h"
  shows "tryParseRequestCondition other (paramHeaderBody h) = Gave (Some (ParamHeaderC h))"
proof -
  have "phCondition (ph_source h) (ph_path h) (ph_mode h) (ph_value h) = ParamHeaderC h" by (simp add: phCondition_def)
  then show ?thesis
    using assms read_exists read_contains read_eq by (auto simp: wf_param_header_def paramHeaderBody_def)
qed

section \<open>Pieces of a conjunction\<close>

text \<open>What a condition contributes to the conjunction of its group: a within-day range two bounds, an
  overnight range a text in parentheses, any other condition its text.\<close>

fun pieces :: "request_condition \<Rightarrow> jstring list" where
  "pieces (TimeC t) =
     (if tc_mode t \<noteq> MATCH_RANGE then [boundText (timeFunc t) (timezone t) (modeText (tc_mode t)) (tc_value t)]
      else if overnight t then [[40] @ rangeText (lit '' || '') t @ [41]]
      else [boundText (timeFunc t) (timezone t) (lit '' >= '') (rangeStart t), boundText (timeFunc t) (timezone t) (lit '' < '') (rangeEnd t)])"
| "pieces (ParamHeaderC h) = [paramHeaderBody h]"

definition letters :: "jstring \<Rightarrow> bool" where
  "letters f \<longleftrightarrow> f \<noteq> [] \<and> list_all (\<lambda>c. 97 \<le> c \<and> c \<le> 122) f"

lemma letters_names: "f \<in> set TIME_FUNCS \<Longrightarrow> letters f" "letters (sourceName src)"
  by (auto simp: time_funcs letters_def) (cases src; simp add: source_names)+

lemma no_split_free: "38 \<notin> set s \<Longrightarrow> no_split (lit '' && '') d s"
proof (induction s arbitrary: d)
  case (Cons c s)
  have "\<not> js_startsWith (c # s) (lit '' && '')"
    using Cons.prems unfolding op_units js_startsWith_iff by auto
  with Cons show ?case by (simp add: Let_def)
qed simp

lemma no_split_deep:
  "above 1 d s \<Longrightarrow> no_split sep (depth_after d s) r \<Longrightarrow> no_split sep d (s @ r)"
proof (induction s arbitrary: d)
  case (Cons c s)
  have "1 \<le> depth_step c d" using Cons.prems(1) by (cases s) auto
  with Cons show ?case by (auto simp: Let_def)
qed simp

lemma no_split_wrap:
  assumes "parens_ok s" and "sep \<noteq> []" and "hd sep = 32"
  shows "no_split sep 0 (40 # s @ [41])"
proof -
  have "no_split sep 1 [41]" using assms(2,3) by (cases sep) (auto simp: depth_step_def)
  then have "no_split sep 1 (s @ [41])"
    using assms(1) by (intro no_split_deep) (simp_all add: above_ok depth_after_ok)
  then show ?thesis by (simp add: depth_step_def)
qed

lemma call_shape:
  assumes "letters f" and "parens_ok s"
  shows "parens_ok (f @ 40 # s @ [41])" "no_split (lit '' && '') 0 (f @ 40 # s @ [41])"
proof -
  have f: "40 \<notin> set f" "41 \<notin> set f" "38 \<notin> set f" "32 \<notin> set f" using assms(1) by (auto simp: letters_def list_all_iff)
  then have ok: "parens_ok f" by (simp add: parens_ok_free)
  then show "parens_ok (f @ 40 # s @ [41])" using parens_ok_append parens_ok_wrap [OF assms(2)] by blast
  have "last f \<noteq> 32" "last f \<noteq> 38" using f assms(1) by (metis last_in_set letters_def)+
  then have "last f \<notin> set (lit '' && '')" by (simp add: op_units)
  moreover have "no_split (lit '' && '') 0 (40 # s @ [41])" by (rule no_split_wrap [OF assms(2)]) (simp_all add: op_units)
  ultimately show "no_split (lit '' && '') 0 (f @ 40 # s @ [41])"
    using f(3) ok by (intro no_splitI) (simp_all add: no_split_free depth_after_ok)
qed

lemma quoted_ok: "plain_name n \<Longrightarrow> parens_ok (34 # n @ [34])"
  by (rule parens_ok_free) (auto simp: plain_name_def plain_unit_def list_all_iff)

lemma call_top:
  assumes "letters f" and "plain_name n" and "no_split (lit '' && '') 0 r" and "parens_ok r"
  shows "parens_ok (callText f n @ r)" "no_split (lit '' && '') 0 (callText f n @ r)" "hd (callText f n @ r) = hd f"
proof -
  have eq: "callText f n = f @ 40 # (34 # n @ [34]) @ [41]" by (simp add: callText_def)
  note shape = call_shape [OF assms(1) quoted_ok [OF assms(2)], folded eq]
  show "parens_ok (callText f n @ r)" using shape(1) assms(4) by (rule parens_ok_append)
  have "last (callText f n) \<notin> set (lit '' && '')" by (simp add: callText_def op_units)
  then show "no_split (lit '' && '') 0 (callText f n @ r)"
    using shape assms(3) by (intro no_splitI) (simp_all add: depth_after_ok)
  show "hd (callText f n @ r) = hd f" using assms(1) by (simp add: callText_def letters_def)
qed

text \<open>A text that stands alone in a conjunction and inside parentheses.\<close>

definition and_part :: "jstring \<Rightarrow> bool" where
  "and_part s \<longleftrightarrow> top_part (lit '' && '') s \<and> parens_ok s"

lemma top_partI:
  assumes "no_split (lit '' && '') 0 s" and "parens_ok s" and "s \<noteq> []" and "\<not> is_ws (hd s)" and "\<not> is_ws (last s)" and "last s \<noteq> 38"
  shows "and_part s"
  using assms js_trim_fix [of s] by (auto simp: and_part_def top_part_def depth_after_ok op_units is_ws_def)

lemma letters_hd: "letters f \<Longrightarrow> \<not> is_ws (hd f)"
  by (cases f) (auto simp: letters_def is_ws_def)

lemma top_call:
  assumes "letters f" and "plain_name n" and "no_split (lit '' && '') 0 r" and "parens_ok r"
    and "r \<noteq> []" and "\<not> is_ws (last r)" and "last r \<noteq> 38"
  shows "and_part (callText f n @ r)"
  using call_top [OF assms(1-4)] assms(5-7) letters_hd [OF assms(1)] by (intro top_partI) auto

lemma num_text:
  assumes "list_all num_unit v" and "v \<noteq> []"
  shows "38 \<notin> set v" "40 \<notin> set v" "41 \<notin> set v" "124 \<notin> set v" "\<not> is_ws (last v)" "last v \<noteq> 38"
proof -
  have "\<not> num_unit 38" "\<not> num_unit 40" "\<not> num_unit 41" "\<not> num_unit 124" by (simp_all add: num_unit_def is_digit_def)
  then show "38 \<notin> set v" "40 \<notin> set v" "41 \<notin> set v" "124 \<notin> set v" using assms(1) by (auto simp: list_all_iff)
  have "num_unit (last v)" using assms by (simp add: list_all_iff)
  then show "\<not> is_ws (last v)" "last v \<noteq> 38" using num_unit_not_ws \<open>\<not> num_unit 38\<close> by auto
qed

lemma top_bound:
  assumes "f \<in> set TIME_FUNCS" and "plain_name tz" and "list_all num_unit v" and "v \<noteq> []"
    and "op \<in> {lit '' >= '', lit '' < '', lit '' == ''}"
  shows "and_part (boundText f tz op v)"
  unfolding boundText_def
proof (rule top_call [OF letters_names(1) [OF assms(1)] assms(2)])
  note v = num_text [OF assms(3,4)]
  have op: "38 \<notin> set op" "40 \<notin> set op" "41 \<notin> set op" using assms(5) by (auto simp: op_units)
  show "no_split (lit '' && '') 0 (op @ v)" using op v by (intro no_split_free) auto
  show "parens_ok (op @ v)" using op v by (intro parens_ok_free) auto
  show "op @ v \<noteq> []" "\<not> is_ws (last (op @ v))" "last (op @ v) \<noteq> 38" using assms(4) v by auto
qed

lemma modeText_op: "modeText m \<in> {lit '' >= '', lit '' < '', lit '' == ''}"
  by (simp add: modeText_def)

lemma parens_ok_range:
  assumes "wf_time t" and "tc_mode t = MATCH_RANGE" and "sep = lit '' && '' \<or> sep = lit '' || ''"
  shows "parens_ok (rangeText sep t)"
proof -
  have "parens_ok (boundText (timeFunc t) (timezone t) op v)"
    if "list_all num_unit v" "v \<noteq> []" "op \<in> {lit '' >= '', lit '' < ''}" for op v
  proof -
    have "38 \<notin> set (op @ v)" "40 \<notin> set (op @ v)" "41 \<notin> set (op @ v)"
      using that num_text [OF that(1,2)] by (auto simp: op_units)
    then show ?thesis unfolding boundText_def
      using call_top(1) assms letters_names(1) by (intro call_top(1)) (auto simp: wf_time_def no_split_free parens_ok_free)
  qed
  moreover have "parens_ok sep" using assms(3) by (auto intro!: parens_ok_free simp: op_units)
  ultimately show ?thesis
    using assms(1,2) timeValue_run [of "timeFunc t"] unfolding rangeText_def by (intro parens_ok_append) (auto simp: wf_time_def)
qed

lemma literal_hd: "hd (buildExprLiteral m v) \<noteq> 38"
proof -
  have "num_unit (hd (js_trim v))" if "isNumericLiteral (js_trim v)"
    using numericLiteral_units [OF that] by (cases "js_trim v") auto
  moreover have "\<not> num_unit 38" by (simp add: num_unit_def is_digit_def)
  ultimately show ?thesis by (auto simp: buildExprLiteral_def Let_def json_quote_ends js_eval)
qed

lemma has_part:
  assumes "plain_name n" and "readable_literal (json_quote v)"
  shows "and_part (lit ''has('' @ callText (sourceName src) n @ lit '', '' @ json_quote v @ [41])"
proof -
  let ?inner = "callText (sourceName src) n @ lit '', '' @ json_quote v"
  have "parens_ok (lit '', '' @ json_quote v)"
    using assms(2) by (intro parens_ok_append) (auto simp: readable_literal_def op_units intro: parens_ok_free)
  then have "parens_ok ?inner"
    using parens_ok_append call_top(1) [OF letters_names(2) assms(1), of "[]" src] by fastforce
  moreover have "letters (lit ''has'')" by (simp add: letters_def js_eval)
  ultimately have "parens_ok (lit ''has'' @ 40 # ?inner @ [41])" "no_split (lit '' && '') 0 (lit ''has'' @ 40 # ?inner @ [41])"
    by (rule call_shape [rotated])+
  moreover have "lit ''has('' @ ?inner @ [41] = lit ''has'' @ 40 # ?inner @ [41]" by (simp add: js_eval)
  ultimately have "and_part (lit ''has('' @ ?inner @ [41])"
    by (simp only:) (rule top_partI, simp_all add: js_eval is_ws_def)
  then show ?thesis by simp
qed

lemma exists_part:
  assumes "plain_name n"
  shows "and_part (callText (sourceName src) n @ existsText src)"
proof -
  have "38 \<notin> set (existsText src)" "40 \<notin> set (existsText src)" "41 \<notin> set (existsText src)" "existsText src \<noteq> []"
    "\<not> is_ws (last (existsText src))" "last (existsText src) \<noteq> 38"
    by (cases src; simp add: existsText_def op_units is_ws_def)+
  then show ?thesis using assms letters_names(2) by (simp add: top_call no_split_free parens_ok_free)
qed

lemma top_param_header:
  assumes "wf_param_header h"
  shows "and_part (paramHeaderBody h)"
proof -
  let ?n = "ph_path h"
  have n: "plain_name ?n" using assms by (simp add: wf_param_header_def)
  consider "ph_mode h = MATCH_EXISTS" | "ph_mode h = MATCH_CONTAINS" "readable_literal (json_quote (ph_value h))"
    | "ph_mode h = MATCH_EQ" "readable_literal (buildExprLiteral MATCH_EQ (ph_value h))"
    using assms by (auto simp: wf_param_header_def)
  then show ?thesis
  proof cases
    case 1
    then show ?thesis using exists_part [OF n] by (simp add: paramHeaderBody_def)
  next
    case 2
    then show ?thesis using has_part [OF n] by (simp add: paramHeaderBody_def)
  next
    case 3
    let ?l = "buildExprLiteral MATCH_EQ (ph_value h)"
    obtain c l where l: "?l = c # l" using literal_ends(1) by (cases ?l) auto
    have "no_split (lit '' && '') 0 (lit '' == '' @ ?l)"
      using 3 literal_hd [of MATCH_EQ "ph_value h"] l by (simp add: op_units depth_step_def readable_literal_def Let_def)
    moreover have "parens_ok (lit '' == '' @ ?l)"
      using 3 by (intro parens_ok_append) (auto simp: readable_literal_def op_units intro: parens_ok_free)
    ultimately show ?thesis
      using 3 n letters_names(2) literal_ends by (simp add: paramHeaderBody_def top_call)
  qed
qed

lemma pieces_top: "wf_condition c \<Longrightarrow> list_all (and_part) (pieces c)"
proof (cases c)
  case (TimeC t)
  assume "wf_condition c"
  with TimeC have t: "wf_time t" by simp
  then have f: "timeFunc t \<in> set TIME_FUNCS" "plain_name (timezone t)" by (simp_all add: wf_time_def)
  show ?thesis
  proof (cases "tc_mode t = MATCH_RANGE")
    case True
    note run = timeValue_run [of "timeFunc t"]
    have "and_part ([40] @ rangeText (lit '' || '') t @ [41])"
      using parens_ok_range [OF t True, of "lit '' || ''"] parens_ok_wrap no_split_wrap [of "rangeText (lit '' || '') t" "lit '' && ''"]
      by (intro top_partI) (simp_all add: is_ws_def op_units)
    then show ?thesis
      using TimeC True t run top_bound [OF f, of "rangeStart t" "lit '' >= ''"] top_bound [OF f, of "rangeEnd t" "lit '' < ''"]
      by (auto simp: wf_time_def)
  next
    case False
    with TimeC t timeValue_run [of "timeFunc t"] top_bound [OF f _ _ modeText_op] show ?thesis
      by (simp add: wf_time_def)
  qed
next
  case (ParamHeaderC h)
  assume "wf_condition c"
  with ParamHeaderC top_param_header show ?thesis by simp
qed

end
