(* ===== verification/RuleGroups.thy ===== *)
theory RuleGroups
  imports RuleRoundtrip
begin

text \<open>
  Groups of conditions and whole rule expressions: building and reading back, the rules that cannot be
  read back, and separating the rules from the billing expression they were appended to.
\<close>

section \<open>Joining pieces\<close>

lemma js_join_append:
  "xs \<noteq> [] \<Longrightarrow> ys \<noteq> [] \<Longrightarrow> js_join sep (xs @ ys) = js_join sep xs @ sep @ js_join sep ys"
proof (induction sep xs rule: js_join.induct)
  case (2 sep w)
  then show ?case by (cases ys) auto
qed auto

lemma js_join_concat:
  "\<forall>xs \<in> set xss. xs \<noteq> [] \<Longrightarrow> js_join sep (map (js_join sep) xss) = js_join sep (concat xss)"
proof (induction xss)
  case (Cons xs xss)
  show ?case
  proof (cases xss)
    case (Cons ys yss)
    then have "concat xss \<noteq> []" using Cons.prems by auto
    with Cons Cons.IH Cons.prems show ?thesis
      by (simp add: js_join_append del: concat.simps) (simp add: js_join_append)
  qed simp
qed simp

lemma pieces_not_Nil [simp]: "pieces c \<noteq> []"
  by (cases c) auto

lemma range_join: "js_join (lit '' && '') (pieces (TimeC t)) = rangeText (lit '' && '') t"
  if "tc_mode t = MATCH_RANGE" "\<not> overnight t"
  using that by (simp add: rangeText_def)

lemma bar_free_call:
  assumes "letters f" and "plain_name n" and "124 \<notin> set r"
  shows "124 \<notin> set (callText f n @ r)"
  using assms by (auto simp: callText_def letters_def plain_name_def plain_unit_def list_all_iff)

lemma bar_free_bound:
  assumes "f \<in> set TIME_FUNCS" and "plain_name tz" and "list_all num_unit v" and "v \<noteq> []"
    and "op \<in> {lit '' >= '', lit '' < '', lit '' == ''}"
  shows "124 \<notin> set (boundText f tz op v)"
  using assms num_text(4) [OF assms(3,4)] unfolding boundText_def
  by (intro bar_free_call letters_names) (auto simp: op_units)

lemma bar_free_param_header:
  assumes "wf_param_header h"
  shows "124 \<notin> set (paramHeaderBody h)"
proof -
  have n: "plain_name (ph_path h)" using assms by (simp add: wf_param_header_def)
  have "124 \<notin> set (callText (sourceName src) (ph_path h))" for src
    using bar_free_call [OF letters_names(2) n, of "[]"] by simp
  moreover have "124 \<notin> set (existsText src)" for src by (cases src; simp add: existsText_def op_units)
  ultimately show ?thesis
    using assms by (auto simp: wf_param_header_def paramHeaderBody_def readable_literal_def op_units)
qed

lemma no_bars: "124 \<notin> set s \<Longrightarrow> \<not> js_includes s (lit '' || '')"
  by (auto simp: js_includes_iff op_units)

text \<open>The text of a condition inside a conjunction of several.\<close>

lemma wrapped_pieces:
  assumes "wf_condition c"
  shows "(if js_includes (buildRequestConditionExpr c) (lit '' || '') then [40] @ buildRequestConditionExpr c @ [41]
     else buildRequestConditionExpr c) = js_join (lit '' && '') (pieces c)"
proof (cases c)
  case (TimeC t)
  then have t: "wf_time t" using assms by simp
  then have f: "timeFunc t \<in> set TIME_FUNCS" "plain_name (timezone t)" by (simp_all add: wf_time_def)
  have built: "buildRequestConditionExpr c = buildTimeConditionExpr t" using TimeC by (simp add: buildRequestConditionExpr_def)
  show ?thesis
  proof (cases "tc_mode t = MATCH_RANGE")
    case True
    then have run: "list_all num_unit (rangeStart t)" "rangeStart t \<noteq> []" "list_all num_unit (rangeEnd t)" "rangeEnd t \<noteq> []"
      using t timeValue_run [of "timeFunc t"] by (simp_all add: wf_time_def)
    show ?thesis
    proof (cases "overnight t")
      case over: True
      have "js_includes (rangeText (lit '' || '') t) (lit '' || '')"
        unfolding js_includes_iff rangeText_def by blast
      with True over TimeC built build_time [OF t] show ?thesis by simp
    next
      case False
      have "124 \<notin> set (rangeText (lit '' && '') t)"
        using bar_free_bound [OF f run(1,2), of "lit '' >= ''"] bar_free_bound [OF f run(3,4), of "lit '' < ''"]
        by (simp add: rangeText_def op_units)
      from no_bars [OF this] True False TimeC built build_time [OF t] range_join [OF True False] show ?thesis by simp
    qed
  next
    case False
    have "124 \<notin> set (boundText (timeFunc t) (timezone t) (modeText (tc_mode t)) (tc_value t))"
      using False t timeValue_run [of "timeFunc t"] by (intro bar_free_bound [OF f _ _ modeText_op]) (simp_all add: wf_time_def)
    from no_bars [OF this] False TimeC built build_time [OF t] show ?thesis by simp
  qed
next
  case (ParamHeaderC h)
  with assms no_bars [OF bar_free_param_header] build_param_header show ?thesis by simp
qed

lemma condition_text:
  assumes "wf_condition c"
  shows "buildRequestConditionExpr c =
    (case c of
       TimeC t \<Rightarrow> if tc_mode t = MATCH_RANGE \<and> overnight t then rangeText (lit '' || '') t else js_join (lit '' && '') (pieces c)
     | _ \<Rightarrow> js_join (lit '' && '') (pieces c))"
proof (cases c)
  case (TimeC t)
  with assms range_join [of t] build_time [of t] show ?thesis by (auto simp: buildRequestConditionExpr_def)
next
  case (ParamHeaderC h)
  with assms build_param_header show ?thesis by simp
qed

section \<open>Reading a conjunction\<close>

definition merges :: "request_condition \<Rightarrow> request_condition \<Rightarrow> bool" where
  "merges a b \<longleftrightarrow>
     (case (a, b) of
        (TimeC s, TimeC t) \<Rightarrow> tc_mode s = MATCH_GTE \<and> tc_mode t = MATCH_LT \<and> timeFunc s = timeFunc t \<and> timezone s = timezone t
      | _ \<Rightarrow> False)"

fun no_merge :: "request_condition list \<Rightarrow> bool" where
  "no_merge (a # b # cs) \<longleftrightarrow> \<not> merges a b \<and> no_merge (b # cs)"
| "no_merge _ \<longleftrightarrow> True"

definition withinDay :: "time_condition \<Rightarrow> bool" where
  "withinDay t \<longleftrightarrow> tc_mode t = MATCH_RANGE \<and> \<not> overnight t"

definition lowerBound :: "time_condition \<Rightarrow> time_condition" where
  "lowerBound t = t\<lparr>tc_mode := MATCH_GTE, tc_value := rangeStart t, rangeStart := [], rangeEnd := []\<rparr>"

definition upperBound :: "time_condition \<Rightarrow> time_condition" where
  "upperBound t = t\<lparr>tc_mode := MATCH_LT, tc_value := rangeEnd t, rangeStart := [], rangeEnd := []\<rparr>"

lemma read_bounds:
  assumes "wf_time t" and "tc_mode t = MATCH_RANGE"
  shows "tryParseTimeCondition (boundText (timeFunc t) (timezone t) (lit '' >= '') (rangeStart t)) = Some (lowerBound t)"
    and "tryParseTimeCondition (boundText (timeFunc t) (timezone t) (lit '' < '') (rangeEnd t)) = Some (upperBound t)"
proof -
  have "wf_time (lowerBound t)" "wf_time (upperBound t)" using assms by (simp_all add: wf_time_def lowerBound_def upperBound_def)
  from read_scalar [OF this(1)] read_scalar [OF this(2)]
  show "tryParseTimeCondition (boundText (timeFunc t) (timezone t) (lit '' >= '') (rangeStart t)) = Some (lowerBound t)"
    and "tryParseTimeCondition (boundText (timeFunc t) (timezone t) (lit '' < '') (rangeEnd t)) = Some (upperBound t)"
    by (simp_all add: lowerBound_def upperBound_def modeText_def)
qed

lemma read_first_piece:
  assumes "wf_condition c"
  shows "tryParseTimeCondition (hd (pieces c)) =
    (case c of TimeC t \<Rightarrow> Some (if withinDay t then lowerBound t else t) | ParamHeaderC h \<Rightarrow> None)"
proof (cases c)
  case (TimeC t)
  with assms read_scalar [of t] read_range(2) [of t "lit '' || ''"] read_bounds(1) [of t] show ?thesis
    by (auto simp: withinDay_def)
next
  case (ParamHeaderC h)
  then show ?thesis using time_none by (simp add: paramHeaderBody_def)
qed

lemma read_range_pieces:
  assumes "wf_time t" and "withinDay t"
  shows "tryParseTimeRangePair (boundText (timeFunc t) (timezone t) (lit '' >= '') (rangeStart t))
    (boundText (timeFunc t) (timezone t) (lit '' < '') (rangeEnd t)) = Some (TimeC t)"
proof -
  have "tc_mode t = MATCH_RANGE" using assms(2) by (simp add: withinDay_def)
  with assms(1) show ?thesis
    by (simp add: tryParseTimeRangePair_def read_bounds) (simp add: lowerBound_def upperBound_def wf_time_def)
qed

lemma read_piece:
  assumes "wf_condition c" and "\<forall>t. c = TimeC t \<longrightarrow> \<not> withinDay t"
  shows "tryParseRequestCondition other (hd (pieces c)) = Gave (Some c)"
proof (cases c)
  case (TimeC t)
  with assms read_first_piece [OF assms(1)] show ?thesis by (simp add: tryParseRequestCondition_def)
next
  case (ParamHeaderC h)
  with assms read_param_header show ?thesis by simp
qed

lemma no_range_pair:
  assumes "wf_condition c" and "\<forall>t. c = TimeC t \<longrightarrow> \<not> withinDay t" and "wf_condition d" and "\<not> merges c d"
  shows "tryParseTimeRangePair (hd (pieces c)) (hd (pieces d)) = None"
proof (cases c)
  case (TimeC t)
  with assms read_first_piece [OF assms(1)] read_first_piece [OF assms(3)] show ?thesis
    by (cases d) (auto simp: tryParseTimeRangePair_def merges_def lowerBound_def)
next
  case (ParamHeaderC h)
  with read_first_piece [OF assms(1)] show ?thesis by (simp add: tryParseTimeRangePair_def)
qed

lemma piece_trim: "wf_condition c \<Longrightarrow> p \<in> set (pieces c) \<Longrightarrow> js_trim p = p \<and> p \<noteq> []"
  using pieces_top [of c] by (auto simp: list_all_iff and_part_def top_part_def)

lemma parse_pieces:
  assumes "list_all wf_condition cs" and "no_merge cs"
  shows "parseParts other (concat (map pieces cs)) = Gave (Some cs)"
  using assms
proof (induction cs)
  case (Cons c cs)
  let ?rest = "concat (map pieces cs)"
  have IH: "parseParts other ?rest = Gave (Some cs)" using Cons by (cases cs) auto
  have c: "wf_condition c" using Cons.prems by simp
  show ?case
  proof (cases "\<exists>t. c = TimeC t \<and> withinDay t")
    case True
    then obtain t where t: "c = TimeC t" "withinDay t" by blast
    then have "pieces c = [boundText (timeFunc t) (timezone t) (lit '' >= '') (rangeStart t), boundText (timeFunc t) (timezone t) (lit '' < '') (rangeEnd t)]"
      by (simp add: withinDay_def)
    with t c IH piece_trim [OF c] read_range_pieces [of t] show ?thesis by (simp add: rangeWithNext_def)
  next
    case False
    then have single: "\<forall>t. c = TimeC t \<longrightarrow> \<not> withinDay t" by blast
    then have "length (pieces c) = 1" by (cases c) (auto simp: withinDay_def)
    then obtain p where p: "pieces c = [p]" by (auto simp: length_Suc_conv)
    have "rangeWithNext p ?rest = None"
    proof (cases cs)
      case Nil
      then show ?thesis by (simp add: rangeWithNext_def)
    next
      case (Cons d ds)
      obtain q qs where q: "pieces d = q # qs" by (cases "pieces d") auto
      have d: "wf_condition d" "\<not> merges c d" using Cons \<open>list_all wf_condition (c # cs)\<close> \<open>no_merge (c # cs)\<close> by auto
      from no_range_pair [OF c single d] piece_trim [OF c] piece_trim [OF d(1)] p q Cons show ?thesis
        by (simp add: rangeWithNext_def)
    qed
    with read_piece [OF c single, of other] p piece_trim [OF c] IH show ?thesis by simp
  qed
qed simp

section \<open>A conjunction is not a time condition\<close>

lemma stripSuffix_last: "stripSuffix [c] s = None \<or> stripSuffix [c] s = Some (butlast s)"
  by (simp add: stripSuffix_def butlast_conv_take)

lemma timeCall_piece:
  assumes "wf_condition c"
  shows "timeCall (hd (pieces c) @ r) =
    (case c of
       ParamHeaderC h \<Rightarrow> None
     | TimeC t \<Rightarrow>
         if tc_mode t \<noteq> MATCH_RANGE then Some (timeFunc t, timezone t, modeText (tc_mode t) @ tc_value t @ r)
         else if overnight t then None
         else Some (timeFunc t, timezone t, lit '' >= '' @ rangeStart t @ r))"
proof (cases c)
  case (TimeC t)
  with assms have "timeFunc t \<in> set TIME_FUNCS" "plain_name (timezone t)" by (simp_all add: wf_time_def)
  from timeCall_same [OF this] TimeC show ?thesis by (simp add: boundText_def timeCall_other)
next
  case (ParamHeaderC h)
  then show ?thesis using timeCall_other by (simp add: paramHeaderBody_def)
qed

lemma no_second_bound:
  assumes "wf_time t" and "tc_mode t = MATCH_GTE" and "wf_condition d" and "\<not> merges (TimeC t) d"
  shows "\<not> js_startsWith (hd (pieces d) @ r) (callText (timeFunc t) (timezone t) @ lit '' < '')"
proof
  assume "js_startsWith (hd (pieces d) @ r) (callText (timeFunc t) (timezone t) @ lit '' < '')"
  then obtain x where "hd (pieces d) @ r = callText (timeFunc t) (timezone t) @ lit '' < '' @ x"
    by (auto simp: js_startsWith_iff)
  moreover have "timeFunc t \<in> set TIME_FUNCS" "plain_name (timezone t)" using assms(1) by (simp_all add: wf_time_def)
  ultimately have "timeCall (hd (pieces d) @ r) = Some (timeFunc t, timezone t, lit '' < '' @ x)"
    by (simp add: timeCall_same)
  with timeCall_piece [OF assms(3), of r] assms(2-4) show False
    by (auto simp: merges_def modeText_def op_units wf_time_def split: request_condition.splits if_splits)
qed

lemma conjunction_no_time:
  assumes "wf_condition c" and "wf_condition d" and "\<not> merges c d"
  shows "tryParseTimeCondition (js_join (lit '' && '') (pieces c) @ lit '' && '' @ hd (pieces d) @ r) = None"
proof (cases c)
  case (TimeC t)
  then have t: "wf_time t" using assms(1) by simp
  then have f: "timeFunc t \<in> set TIME_FUNCS" "plain_name (timezone t)" by (simp_all add: wf_time_def)
  let ?rest = "lit '' && '' @ hd (pieces d) @ r"
  have rest: "?rest \<noteq> []" "\<not> num_unit (hd ?rest)" by (simp_all add: op_units)
  show ?thesis
  proof (cases "tc_mode t = MATCH_RANGE")
    case range: True
    show ?thesis
    proof (cases "overnight t")
      case True
      let ?s = "rangeText (lit '' || '') t"
      have "timeRange (40 # ?s @ 41 # ?rest) = None" "timeScalar (40 # ?s @ 41 # ?rest) = None"
        by (simp_all add: timeRange_def timeScalar_def timeCall_other)
      moreover have "stripSuffix [41] (?s @ 41 # ?rest) = None \<or> stripSuffix [41] (?s @ 41 # ?rest) = Some (?s @ 41 # butlast ?rest)"
        using stripSuffix_last [of 41 "?s @ 41 # ?rest"] rest(1)
        by (metis butlast.simps(2) butlast_append list.distinct(1))
      moreover have "timeRange (?s @ 41 # butlast ?rest) = None"
        using timeRange_range [OF t range, of "lit '' || ''" "41 # butlast ?rest"] by simp
      ultimately show ?thesis
        using TimeC range True by (auto simp: tryParseTimeCondition_def stripPrefix_units)
    next
      case False
      have "timeRange (rangeText (lit '' && '') t @ ?rest) = None"
        using timeRange_range [OF t range, of "lit '' && ''" ?rest] rest by simp
      moreover have "timeScalar (rangeText (lit '' && '') t @ ?rest) = None"
        using timeScalar_range [OF t range] by blast
      moreover have "stripPrefix [40] (rangeText (lit '' && '') t @ ?rest) = None"
        using call_not_paren [OF f(1)] by (simp add: rangeText_def boundText_def)
      ultimately show ?thesis
        unfolding TimeC range_join [OF range False] by (simp add: tryParseTimeCondition_def)
    qed
  next
    case False
    then have v: "list_all num_unit (tc_value t)" "tc_value t \<noteq> []" "tc_mode t \<in> {MATCH_EQ, MATCH_GTE, MATCH_LT}"
      using t timeValue_run [of "timeFunc t"] by (simp_all add: wf_time_def)
    let ?b = "boundText (timeFunc t) (timezone t) (modeText (tc_mode t)) (tc_value t)"
    have "tc_mode t \<noteq> MATCH_GTE \<or> \<not> js_startsWith (hd (pieces d) @ r) (callText (timeFunc t) (timezone t) @ lit '' < '')"
      using no_second_bound [OF t _ assms(2), of r] assms(3) TimeC by blast
    then have "timeRange (?b @ ?rest) = None"
      using rest by (intro timeRange_scalar [OF f v(1,2)]) blast+
    moreover have "timeScalar (?b @ ?rest) = None"
      using timeScalar_bound [OF f v(1,2) _ v(3), of ?rest] rest by simp
    moreover have "stripPrefix [40] (?b @ ?rest) = None"
      using call_not_paren [OF f(1)] by (simp add: boundText_def)
    ultimately show ?thesis using TimeC False by (simp add: tryParseTimeCondition_def)
  qed
next
  case (ParamHeaderC h)
  then show ?thesis using time_none by (simp add: paramHeaderBody_def)
qed

section \<open>Groups\<close>

definition wf_group :: "request_rule_group \<Rightarrow> bool" where
  "wf_group g \<longleftrightarrow> conditions g \<noteq> [] \<and> list_all wf_condition (conditions g) \<and> no_merge (conditions g) \<and>
     isNumericLiteral (multiplier g) \<and> conditionText g = None \<and> matched g = None"

definition groupText :: "request_condition list \<Rightarrow> jstring" where
  "groupText cs =
     (case cs of [c] \<Rightarrow> buildRequestConditionExpr c | _ \<Rightarrow> js_join (lit '' && '') (concat (map pieces cs)))"

lemma condition_not_Nil: "wf_condition c \<Longrightarrow> buildRequestConditionExpr c \<noteq> []"
proof -
  assume c: "wf_condition c"
  have "js_join (lit '' && '') (pieces c) \<noteq> []"
    using piece_trim [OF c] by (cases "pieces c" rule: list.exhaust; cases "tl (pieces c)") auto
  moreover have "rangeText sep t \<noteq> []" for sep t by (simp add: rangeText_def boundText_def callText_def)
  ultimately show ?thesis using condition_text [OF c] by (auto split: request_condition.splits if_splits)
qed

lemma build_group:
  assumes "wf_group g"
  shows "buildRuleGroupFactor g = [40] @ groupText (conditions g) @ lit '' ? '' @ multiplier g @ lit '' : 1)''"
proof -
  let ?cs = "conditions g"
  have m: "js_trim (multiplier g) = multiplier g" "isNumericLiteral (multiplier g)"
    using assms numericLiteral_trim by (simp_all add: wf_group_def)
  have wf: "list_all wf_condition ?cs" "?cs \<noteq> []" using assms by (simp_all add: wf_group_def)
  then have keep: "filter (\<lambda>e. e \<noteq> []) (map buildRequestConditionExpr ?cs) = map buildRequestConditionExpr ?cs"
    using condition_not_Nil by (intro filter_True) (auto simp: list_all_iff)
  have "map (\<lambda>e. if js_includes e (lit '' || '') then [40] @ e @ [41] else e) (map buildRequestConditionExpr ?cs) =
      map (js_join (lit '' && '')) (map pieces ?cs)"
    using wf(1) wrapped_pieces by (simp add: list_all_iff)
  then have join: "js_join (lit '' && '') (map (\<lambda>e. if js_includes e (lit '' || '') then [40] @ e @ [41] else e) (map buildRequestConditionExpr ?cs)) =
      js_join (lit '' && '') (concat (map pieces ?cs))"
    by (simp only: js_join_concat) (rule js_join_concat, auto)
  have which: "(case map buildRequestConditionExpr ?cs of [e] \<Rightarrow> e | _ \<Rightarrow> js_join (lit '' && '') (concat (map pieces ?cs))) = groupText ?cs"
    by (auto simp: groupText_def split: list.splits)
  show ?thesis
    unfolding buildRuleGroupFactor_def Let_def keep m(1) join which using m(2) wf(2) by simp
qed

lemma trimmed_ends: "js_trim s = s \<Longrightarrow> s \<noteq> [] \<Longrightarrow> \<not> is_ws (hd s) \<and> \<not> is_ws (last s)"
proof -
  assume s: "js_trim s = s" "s \<noteq> []"
  have "js_trimStart s = s" using s(1) js_trimStart_trimEnd [of s] by (simp add: js_trim_def)
  then have "\<not> is_ws (hd s)" using s(2) js_trimStart_hd [of s] by simp
  moreover have "js_trimEnd s = s" using s(1) \<open>js_trimStart s = s\<close> by (simp add: js_trim_def)
  then have "dropWhile is_ws (rev s) = rev s" by (metis js_trimEnd_def rev_rev_ident)
  then have "\<not> is_ws (hd (rev s))" using s(2) by (metis hd_dropWhile rev_is_Nil_conv)
  ultimately show ?thesis using s(2) by (simp add: hd_rev)
qed

lemma trim_join:
  assumes "ps \<noteq> []" and "\<forall>p \<in> set ps. js_trim p = p \<and> p \<noteq> []"
  shows "js_trim (js_join sep ps) = js_join sep ps"
proof (rule js_trim_fix)
  have "js_join sep ps \<noteq> [] \<and> hd (js_join sep ps) = hd (hd ps) \<and> last (js_join sep ps) = last (last ps)"
    using assms by (induction sep ps rule: js_join.induct) auto
  then show "js_join sep ps = [] \<or> \<not> is_ws (hd (js_join sep ps)) \<and> \<not> is_ws (last (js_join sep ps))"
    using assms trimmed_ends by (metis hd_in_set last_in_set)
qed

lemma trim_call:
  assumes "f \<in> set TIME_FUNCS" and "r \<noteq> []" and "\<not> is_ws (last r)"
  shows "js_trim (callText f n @ r) = callText f n @ r"
  using letters_hd [OF letters_names(1) [OF assms(1)]] letters_names(1) [OF assms(1)] assms(2,3)
  by (intro js_trim_fix) (simp add: callText_def letters_def)

lemma time_text_trim:
  assumes "wf_time t"
  shows "js_trim (buildTimeConditionExpr t) = buildTimeConditionExpr t"
proof -
  have f: "timeFunc t \<in> set TIME_FUNCS" using assms by (simp add: wf_time_def)
  show ?thesis
    using assms timeValue_run [of "timeFunc t"] num_text(5) trim_call [OF f]
    by (auto simp: build_time wf_time_def rangeText_def boundText_def split: if_splits)
qed

lemma read_group_text:
  assumes "list_all wf_condition cs" and "no_merge cs" and "cs \<noteq> []"
  shows "tryParseRequestConditions other (groupText cs) = Gave (Some cs)"
proof (cases "\<exists>t. cs = [TimeC t]")
  case True
  then obtain t where cs: "cs = [TimeC t]" by blast
  then have t: "wf_time t" using assms(1) by simp
  have "tryParseTimeCondition (buildRequestConditionExpr (TimeC t)) = Some t"
    using build_time [OF t] read_scalar [OF t] read_range(1) [OF t] by (auto simp: buildRequestConditionExpr_def)
  moreover have "js_trim (buildRequestConditionExpr (TimeC t)) = buildRequestConditionExpr (TimeC t)"
    using time_text_trim [OF t] by (simp add: buildRequestConditionExpr_def)
  ultimately show ?thesis using cs by (simp add: tryParseRequestConditions_def groupText_def)
next
  case False
  let ?ps = "concat (map pieces cs)"
  have top: "list_all (top_part (lit '' && '')) ?ps" "?ps \<noteq> []"
    using assms(1,3) pieces_top by (auto simp: list_all_iff and_part_def)
  have "groupText cs = js_join (lit '' && '') ?ps"
  proof (cases "\<exists>c. cs = [c]")
    case True
    with False obtain h where "cs = [ParamHeaderC h]" by (metis request_condition.exhaust)
    with assms(1) show ?thesis using build_param_header by (simp add: groupText_def)
  qed (auto simp: groupText_def split: list.splits)
  note joined = this
  then have split: "splitTopLevelAnd (groupText cs) = ?ps"
    using splitTopLevel_join [OF top] by (simp add: splitTopLevelAnd_def op_units depth_step_def)
  have "js_trim (groupText cs) = groupText cs"
    unfolding joined using top by (intro trim_join) (auto simp: list_all_iff top_part_def)
  moreover have "tryParseTimeCondition (groupText cs) = None"
  proof (cases "\<exists>c d ds. cs = c # d # ds")
    case True
    then obtain c d ds where cs: "cs = c # d # ds" by blast
    define r where "r = js_join (lit '' && '') (concat (map pieces (d # ds)))"
    obtain q qs where q: "pieces d = q # qs" by (cases "pieces d") auto
    obtain x where x: "r = q @ x"
      unfolding r_def by (cases "qs @ concat (map pieces ds)") (simp_all add: q)
    have "groupText cs = js_join (lit '' && '') (pieces c) @ lit '' && '' @ hd (pieces d) @ x"
      using joined x q by (simp add: cs js_join_append r_def)
    then show ?thesis using conjunction_no_time [of c d x] assms(1,2) cs by simp
  next
    case single: False
    with False assms(3) obtain h where "cs = [ParamHeaderC h]" by (metis neq_Nil_conv request_condition.exhaust)
    with assms(1) show ?thesis using time_none build_param_header by (simp add: groupText_def paramHeaderBody_def)
  qed
  ultimately have "tryParseTimeCondition (js_trim (groupText cs)) = None" by simp
  with split parse_pieces [OF assms(1,2), of other] assms(3) show ?thesis
    by (simp add: tryParseRequestConditions_def split: list.splits)
qed

lemma parens_ok_join: "\<forall>p \<in> set ps. parens_ok p \<Longrightarrow> parens_ok sep \<Longrightarrow> parens_ok (js_join sep ps)"
  by (induction sep ps rule: js_join.induct) (auto intro: parens_ok_append)

lemma groupText_ok:
  assumes "list_all wf_condition cs"
  shows "parens_ok (groupText cs)"
proof -
  have "parens_ok (js_join (lit '' && '') (concat (map pieces cs)))"
  proof (rule parens_ok_join)
    show "\<forall>p \<in> set (concat (map pieces cs)). parens_ok p"
      using assms pieces_top by (auto simp: list_all_iff and_part_def)
    show "parens_ok (lit '' && '')" by (rule parens_ok_free) (simp_all add: op_units)
  qed
  moreover have "parens_ok (buildRequestConditionExpr c)" if "cs = [c]" for c
    using that assms calculation condition_text [of c] parens_ok_range by (auto split: request_condition.splits)
  ultimately show ?thesis by (auto simp: groupText_def split: list.splits)
qed

lemma groupText_not_Nil: "list_all wf_condition cs \<Longrightarrow> cs \<noteq> [] \<Longrightarrow> groupText cs \<noteq> []"
proof -
  assume cs: "list_all wf_condition cs" "cs \<noteq> []"
  then obtain c cs' where c: "cs = c # cs'" by (cases cs) auto
  obtain p ps where p: "pieces c = p # ps" by (cases "pieces c") auto
  have "p \<noteq> []" using piece_trim [of c p] cs c p by simp
  then have "js_join (lit '' && '') (concat (map pieces cs)) \<noteq> []"
    using c p by (cases "ps @ concat (map pieces cs')") auto
  then show ?thesis using cs condition_not_Nil by (auto simp: groupText_def split: list.splits)
qed

lemma trailing_run:
  assumes "list_all num_unit m"
  shows "rev (takeWhile num_unit (rev (x @ lit '' ? '' @ m))) = m" "rev (dropWhile num_unit (rev (x @ lit '' ? '' @ m))) = x @ lit '' ? ''"
proof -
  have m: "c \<in> set (rev m) \<Longrightarrow> num_unit c" for c using assms by (simp add: list_all_iff)
  have "takeWhile num_unit (rev m @ 32 # y) = rev m" "dropWhile num_unit (rev m @ 32 # y) = 32 # y" for y
    using takeWhile_append2 [of "rev m" num_unit "32 # y", OF m] dropWhile_append2 [of "rev m" num_unit "32 # y", OF m] by simp_all
  then show "rev (takeWhile num_unit (rev (x @ lit '' ? '' @ m))) = m" "rev (dropWhile num_unit (rev (x @ lit '' ? '' @ m))) = x @ lit '' ? ''"
    by (simp_all add: op_units)
qed

lemma read_factor_text:
  assumes "list_all num_unit m" and "m \<noteq> []" and "c \<noteq> []"
  shows "ruleFactor ([40] @ c @ lit '' ? '' @ m @ lit '' : 1)'') = Some (c, m)"
proof -
  have "stripSuffix (lit '' : 1)'') (c @ lit '' ? '' @ m @ lit '' : 1)'') = Some (c @ lit '' ? '' @ m)"
    using stripSuffix_append [of "lit '' : 1)''" "c @ lit '' ? '' @ m"] by simp
  then show ?thesis
    using assms trailing_run [OF assms(1), of c]
    unfolding ruleFactor_def by (simp only: stripPrefix_append Option.bind.simps Let_def stripSuffix_append) simp
qed

lemma read_group:
  assumes "wf_group g"
  shows "tryParseRuleGroupFactor other (buildRuleGroupFactor g) = Gave (Some g)"
proof -
  have g: "list_all wf_condition (conditions g)" "no_merge (conditions g)" "conditions g \<noteq> []" using assms by (simp_all add: wf_group_def)
  have m: "list_all num_unit (multiplier g)" "multiplier g \<noteq> []" using assms numericLiteral_units by (auto simp: wf_group_def)
  show ?thesis
    using assms read_factor_text [OF m groupText_not_Nil [OF g(1,3)]] read_group_text [OF g, of other]
    by (simp add: tryParseRuleGroupFactor_def build_group wf_group_def)
qed

lemma factor_top:
  assumes "parens_ok c" and "list_all num_unit m" and "m \<noteq> []"
  shows "top_part (lit '' * '') ([40] @ c @ lit '' ? '' @ m @ lit '' : 1)'')"
proof -
  let ?s = "c @ lit '' ? '' @ m @ [32, 58, 32, 49]"
  have ok: "parens_ok ?s"
  proof (intro parens_ok_append)
    show "parens_ok c" by (rule assms(1))
    show "parens_ok (lit '' ? '')" "parens_ok m" "parens_ok [32, 58, 32, 49]"
      using num_text [OF assms(2,3)] by (intro parens_ok_free; simp add: op_units)+
  qed
  have "[40] @ c @ lit '' ? '' @ m @ lit '' : 1)'' = 40 # ?s @ [41]" by (simp add: op_units)
  moreover have "top_part (lit '' * '') (40 # ?s @ [41])"
    unfolding top_part_def
  proof (intro conjI)
    show "no_split (lit '' * '') 0 (40 # ?s @ [41])" by (rule no_split_wrap [OF ok]) (simp_all add: op_units)
    show "depth_after 0 (40 # ?s @ [41]) = 0" by (rule depth_after_ok [OF parens_ok_wrap [OF ok]])
    show "js_trim (40 # ?s @ [41]) = 40 # ?s @ [41]" by (rule js_trim_fix) (simp add: is_ws_def)
  qed (simp_all add: op_units)
  ultimately show ?thesis by simp
qed

lemma group_top: "wf_group g \<Longrightarrow> top_part (lit '' * '') (buildRuleGroupFactor g)"
  using numericLiteral_units [of "multiplier g"] groupText_ok [of "conditions g"]
  by (simp only: build_group) (rule factor_top, auto simp: wf_group_def)

lemma parse_factors: "list_all wf_group gs \<Longrightarrow> parseFactors other (map buildRuleGroupFactor gs) = Gave (Some gs)"
  by (induction gs) (auto simp: read_group)

lemma build_rules:
  assumes "list_all wf_group gs"
  shows "buildRequestRuleExpr gs = js_join (lit '' * '') (map buildRuleGroupFactor gs)"
proof -
  have "filter (\<lambda>e. e \<noteq> []) (map buildRuleGroupFactor gs) = map buildRuleGroupFactor gs"
    using assms group_top by (intro filter_True) (auto simp: list_all_iff top_part_def)
  then show ?thesis by (simp add: buildRequestRuleExpr_def)
qed

lemma rules_text:
  assumes "list_all wf_group gs" and "gs \<noteq> []"
  shows "js_trim (buildRequestRuleExpr gs) = buildRequestRuleExpr gs" "buildRequestRuleExpr gs \<noteq> []"
    "splitTopLevelMultiply (buildRequestRuleExpr gs) = map buildRuleGroupFactor gs"
proof -
  let ?fs = "map buildRuleGroupFactor gs"
  have top: "list_all (top_part (lit '' * '')) ?fs" using assms(1) group_top by (simp add: list_all_iff)
  then have parts: "\<forall>p \<in> set ?fs. js_trim p = p \<and> p \<noteq> []" by (auto simp: list_all_iff top_part_def)
  show "js_trim (buildRequestRuleExpr gs) = buildRequestRuleExpr gs"
    unfolding build_rules [OF assms(1)] using assms(2) parts by (intro trim_join) auto
  show "splitTopLevelMultiply (buildRequestRuleExpr gs) = ?fs"
    unfolding build_rules [OF assms(1)] splitTopLevelMultiply_def
    using assms(2) top by (intro splitTopLevel_join) (simp_all add: op_units depth_step_def)
  then show "buildRequestRuleExpr gs \<noteq> []" using assms(2) by (auto simp: splitTopLevelMultiply_def splitTopLevel_def)
qed

lemma read_rules:
  assumes "list_all wf_group gs"
  shows "tryParseRequestRuleExpr other (buildRequestRuleExpr gs) = Gave (Some gs)"
proof (cases "gs = []")
  case True
  then show ?thesis by (simp add: tryParseRequestRuleExpr_def buildRequestRuleExpr_def)
next
  case False
  with assms rules_text [OF assms False] parse_factors show ?thesis
    by (simp add: tryParseRequestRuleExpr_def)
qed

lemma hour_value:
  assumes "n < 10"
  shows "isTimeValueInRange (lit ''hour'') [48 + n]"
proof -
  have d: "unsignedDecimal [48 + n] = Some (of_nat n)"
    using assms by (simp add: unsignedDecimal_def is_digit_def readExponent_def js_parseInt_def)
  have "js_trim [48 + n] = [48 + n]" using assms by (intro js_trim_fix) (auto simp: is_ws_def)
  moreover have "js_round (of_nat n) = Fin (of_nat n)" using js_round_int [of "int n"] assms by simp
  ultimately have "numberOf [48 + n] = Fin (of_nat n)" using d assms by (auto simp: numberOf_def js_eval)
  with d assms show ?thesis
    by (auto simp: isTimeValueInRange_def isNumericLiteral_def TIME_FUNC_RANGES_def js_eval)
qed

definition night_rule :: request_rule_group where
  "night_rule =
     \<lparr>conditions =
        [TimeC \<lparr>timeFunc = lit ''hour'', timezone = lit ''UTC'', tc_mode = MATCH_RANGE, tc_value = [],
           rangeStart = lit ''9'', rangeEnd = lit ''6''\<rparr>,
         ParamHeaderC \<lparr>ph_source = Header, ph_path = lit ''x-tier'', ph_mode = MATCH_EXISTS, ph_value = []\<rparr>,
         ParamHeaderC \<lparr>ph_source = Param, ph_path = lit ''service_tier'', ph_mode = MATCH_EQ, ph_value = lit ''fast''\<rparr>],
      multiplier = lit ''2.5'', conditionText = None, matched = None\<rparr>"

lemma wf_night_rule: "wf_group night_rule"
proof -
  have "isTimeValueInRange (lit ''hour'') (lit ''9'')" "isTimeValueInRange (lit ''hour'') (lit ''6'')"
    using hour_value [of 9] hour_value [of 6] by (simp_all add: js_eval)
  moreover have "plain_name (lit ''UTC'')" "lit ''hour'' \<in> set TIME_FUNCS" by code_simp+
  ultimately have "wf_condition (conditions night_rule ! 0)" by (simp add: night_rule_def wf_time_def)
  moreover have "wf_condition (conditions night_rule ! 1)" by code_simp
  moreover have "wf_condition (conditions night_rule ! 2)" by code_simp
  moreover have "no_merge (conditions night_rule)" by code_simp
  moreover have "isNumericLiteral (multiplier night_rule)" "js_trim (multiplier night_rule) = multiplier night_rule"
    by code_simp+
  ultimately show ?thesis by (simp add: wf_group_def night_rule_def)
qed

text \<open>C28. Rules survive the editor: for every list of groups whose conditions the reader knows (time
  bounds and ranges inside their domain, existence and equality tests on parameters and headers,
  substring tests on headers, over plain names) and in which no two adjacent time bounds would merge,
  building the expression and parsing it gives exactly the groups back.\<close>

theorem request_rules_roundtrip:
  assumes "list_all wf_group gs"
  shows "tryParseRequestRuleExpr other (buildRequestRuleExpr gs) = Gave (Some gs)"
  using assms by (rule read_rules)

theorem request_rules_roundtrip_witness:
  "tryParseRequestRuleExpr (\<lambda>_. None) (buildRequestRuleExpr [night_rule]) = Gave (Some [night_rule])"
  using request_rules_roundtrip [of "[night_rule]"] wf_night_rule by simp

section \<open>Rules and the billing expression\<close>

definition separable_base :: "jstring \<Rightarrow> bool" where
  "separable_base b \<longleftrightarrow> js_trim b = b \<and> b \<noteq> [] \<and> parens_ok b \<and> \<not> hasFullOuterParens b \<and> ruleFactor ([40] @ b @ [41]) = None"

lemma fullParens_wrap:
  assumes "parens_ok b"
  shows "hasFullOuterParens ([40] @ b @ [41])"
proof -
  have "fullParens d (s @ [41])" if "above 1 d s" "depth_after d s = 1" for d s
    using that
  proof (induction s arbitrary: d)
    case (Cons c s)
    have "1 \<le> depth_step c d" using Cons.prems(1) by (cases s) auto
    with Cons show ?case by (auto simp: Let_def)
  qed (simp add: depth_step_def)
  from this [of 1 b] assms show ?thesis
    by (simp add: hasFullOuterParens_def above_ok depth_after_ok depth_step_def js_endsWith_iff)
qed

lemma unwrap_base:
  assumes "separable_base b"
  shows "unwrapOuterParens ([40] @ b @ [41]) = b"
proof -
  have "js_trim ([40] @ b @ [41]) = [40] @ b @ [41]" by (rule js_trim_fix) (simp add: is_ws_def)
  moreover have "unwrapLoop ([40] @ b @ [41]) = unwrapLoop b"
    using assms fullParens_wrap [of b] by (subst unwrapLoop.simps) (simp add: separable_base_def butlast_append)
  moreover have "unwrapLoop b = b" using assms by (subst unwrapLoop.simps) (simp add: separable_base_def)
  ultimately show ?thesis by (simp add: unwrapOuterParens_def)
qed

lemma base_top:
  assumes "separable_base b"
  shows "top_part (lit '' * '') ([40] @ b @ [41])"
proof -
  have ok: "parens_ok b" using assms by (simp add: separable_base_def)
  have "top_part (lit '' * '') (40 # b @ [41])"
    unfolding top_part_def
  proof (intro conjI)
    show "no_split (lit '' * '') 0 (40 # b @ [41])" by (rule no_split_wrap [OF ok]) (simp_all add: op_units)
    show "depth_after 0 (40 # b @ [41]) = 0" by (rule depth_after_ok [OF parens_ok_wrap [OF ok]])
    show "js_trim (40 # b @ [41]) = 40 # b @ [41]" by (rule js_trim_fix) (simp add: is_ws_def)
  qed (simp_all add: op_units)
  then show ?thesis by simp
qed

lemma read_single_factor:
  assumes "top_part (lit '' * '') f"
  shows "tryParseRequestRuleExpr other f = parseFactors other [f]"
proof -
  have "splitTopLevelMultiply f = [f]"
    using assms splitTopLevel_join [of "lit '' * ''" "[f]"] by (simp add: splitTopLevelMultiply_def op_units depth_step_def)
  with assms show ?thesis by (simp add: tryParseRequestRuleExpr_def top_part_def)
qed

lemma read_base: "separable_base b \<Longrightarrow> tryParseRequestRuleExpr other ([40] @ b @ [41]) = Gave None"
  using read_single_factor [OF base_top] by (simp add: separable_base_def tryParseRuleGroupFactor_def)

lemma combined_text:
  assumes "separable_base b" and "fs \<noteq> []" and "list_all (top_part (lit '' * '')) fs"
  shows "combineBillingExpr b (js_join (lit '' * '') fs) = js_join (lit '' * '') (([40] @ b @ [41]) # fs)"
    and "js_trim (combineBillingExpr b (js_join (lit '' * '') fs)) = combineBillingExpr b (js_join (lit '' * '') fs)"
    and "splitTopLevelMultiply (combineBillingExpr b (js_join (lit '' * '') fs)) = ([40] @ b @ [41]) # fs"
proof -
  have parts: "\<forall>p \<in> set fs. js_trim p = p \<and> p \<noteq> []" using assms(3) by (auto simp: list_all_iff top_part_def)
  obtain f fs' where f: "fs = f # fs'" using assms(2) by (cases fs) auto
  have "js_join (lit '' * '') fs \<noteq> []" using f parts by (cases fs') auto
  then show eq: "combineBillingExpr b (js_join (lit '' * '') fs) = js_join (lit '' * '') (([40] @ b @ [41]) # fs)"
    using assms(1) trim_join [OF assms(2) parts, of "lit '' * ''"] f
    by (simp add: combineBillingExpr_def separable_base_def op_units)
  have all: "list_all (top_part (lit '' * '')) (([40] @ b @ [41]) # fs)" using assms base_top by simp
  then show "js_trim (combineBillingExpr b (js_join (lit '' * '') fs)) = combineBillingExpr b (js_join (lit '' * '') fs)"
    unfolding eq by (intro trim_join) (auto simp: list_all_iff top_part_def)
  show "splitTopLevelMultiply (combineBillingExpr b (js_join (lit '' * '') fs)) = ([40] @ b @ [41]) # fs"
    unfolding eq splitTopLevelMultiply_def using all
    by (intro splitTopLevel_join) (simp_all add: op_units depth_step_def)
qed

lemma sort_rules: "list_all wf_group gs \<Longrightarrow> sortFactors other (map buildRuleGroupFactor gs) = Gave (map buildRuleGroupFactor gs, [])"
proof (induction gs)
  case (Cons g gs)
  have "tryParseRequestRuleExpr other (buildRuleGroupFactor g) = Gave (Some [g])"
    using Cons.prems read_rules [of "[g]" other] group_top [of g] by (simp add: build_rules)
  with Cons show ?case by simp
qed simp

text \<open>C29. Rules can be taken off a billing expression again: combining a base expression with built rules
  and splitting the result gives the base and the rules, for a base with balanced parentheses that is
  not itself in parentheses and does not look like a rule.\<close>

theorem rules_separate_from_base:
  assumes "list_all wf_group gs" and "gs \<noteq> []" and "separable_base b"
  shows "splitBillingExprAndRequestRules other (combineBillingExpr b (buildRequestRuleExpr gs)) =
    Gave (b, buildRequestRuleExpr gs)"
proof -
  let ?fs = "map buildRuleGroupFactor gs"
  have fs: "?fs \<noteq> []" "list_all (top_part (lit '' * '')) ?fs" using assms(1,2) group_top by (simp_all add: list_all_iff)
  note text_facts = combined_text [OF assms(3) fs, folded build_rules [OF assms(1)]]
  have "combineBillingExpr b (buildRequestRuleExpr gs) \<noteq> []"
    using text_facts(3) by (auto simp: splitTopLevelMultiply_def splitTopLevel_def)
  moreover have "sortFactors other (([40] @ b @ [41]) # ?fs) = Gave (?fs, [[40] @ b @ [41]])"
    using sort_rules [OF assms(1), of other] read_base [OF assms(3), of other] by simp
  ultimately show ?thesis
    using text_facts(2,3) fs(1) unwrap_base [OF assms(3)] build_rules [OF assms(1)]
    by (simp add: splitBillingExprAndRequestRules_def Let_def)
qed

definition flat_price :: jstring where
  "flat_price = lit ''tier('' @ [34] @ lit ''base'' @ [34] @ lit '', p * 2 + c * 4)''"

lemma flat_price_base: "separable_base flat_price"
  by code_simp

theorem rules_separate_from_base_witness:
  "splitBillingExprAndRequestRules (\<lambda>_. None) (combineBillingExpr flat_price (buildRequestRuleExpr [night_rule])) =
    Gave (flat_price, buildRequestRuleExpr [night_rule])"
  using rules_separate_from_base [of "[night_rule]" flat_price] wf_night_rule flat_price_base by simp

section \<open>Rules that cannot be read back\<close>

text \<open>The condition of a body parameter that the builder guards with \<open>!= nil &&\<close>: one that contains a text or
  compares a number.\<close>

definition guarded_param :: "param_header_condition \<Rightarrow> bool" where
  "guarded_param h \<longleftrightarrow> ph_source h = Param \<and> plain_name (ph_path h) \<and> js_trim (ph_path h) = ph_path h \<and>
     js_trim (ph_value h) = ph_value h \<and>
     (ph_mode h = MATCH_CONTAINS \<and> readable_literal (json_quote (ph_value h)) \<or>
      ph_mode h \<in> {MATCH_GT, MATCH_GTE, MATCH_LT, MATCH_LTE} \<and> isNumericLiteral (ph_value h))"

definition guardedTest :: "param_header_condition \<Rightarrow> jstring" where
  "guardedTest h =
     (if ph_mode h = MATCH_CONTAINS
      then lit ''has('' @ callText (sourceName Param) (ph_path h) @ lit '', '' @ json_quote (ph_value h) @ [41]
      else callText (sourceName Param) (ph_path h) @ lit '' '' @ the (compareOp (ph_mode h)) @ lit '' '' @ ph_value h)"

lemma compare_modes:
  assumes "m \<in> {MATCH_GT, MATCH_GTE, MATCH_LT, MATCH_LTE}"
  obtains op where "compareOp m = Some op" "op \<in> {[62], [62, 61], [60], [60, 61]}" "m \<noteq> MATCH_CONTAINS" "m \<noteq> MATCH_EXISTS"
proof -
  have "\<exists>op. compareOp m = Some op \<and> op \<in> {[62], [62, 61], [60], [60, 61]} \<and> m \<noteq> MATCH_CONTAINS \<and> m \<noteq> MATCH_EXISTS"
    using assms by (elim insertE emptyE; simp add: compareOp_def js_eval MATCH_CONTAINS_def MATCH_EXISTS_def MATCH_GT_def
      MATCH_GTE_def MATCH_LT_def MATCH_LTE_def)
  with that show ?thesis by blast
qed

lemma build_guarded:
  assumes "guarded_param h"
  shows "buildRequestConditionExpr (ParamHeaderC h) =
    js_join (lit '' && '') [callText (sourceName Param) (ph_path h) @ existsText Param, guardedTest h]"
proof -
  have h: "ph_source h = Param" "json_quote (ph_path h) = 34 # ph_path h @ [34]" "js_trim (ph_path h) = ph_path h"
      "ph_path h \<noteq> []" "js_trim (ph_value h) = ph_value h"
    using assms json_quote_plain by (auto simp: guarded_param_def plain_name_def)
  have normal: "normalizeCondition (toPartial (ParamHeaderC h)) = ParamHeaderC h"
    using assms by (intro normalize_param_header) (auto simp: guarded_param_def)
  have guard: "lit '' != nil && '' @ x = lit '' != nil'' @ lit '' && '' @ x" for x by (simp add: js_eval)
  have has_guard: "lit '' != nil && has('' @ x = lit '' != nil'' @ lit '' && '' @ lit ''has('' @ x" for x by (simp add: js_eval)
  consider "ph_mode h = MATCH_CONTAINS" | "ph_mode h \<in> {MATCH_GT, MATCH_GTE, MATCH_LT, MATCH_LTE}" "isNumericLiteral (ph_value h)"
    using assms by (auto simp: guarded_param_def)
  then show ?thesis
  proof cases
    case 1
    moreover have "MATCH_CONTAINS \<noteq> MATCH_EXISTS" by (simp add: MATCH_CONTAINS_def MATCH_EXISTS_def js_eval)
    ultimately show ?thesis
      using h normal has_guard by (simp add: buildRequestConditionExpr_def paramHeaderText_def guardedTest_def callText_def
          existsText_def buildExprLiteral_def Let_def)
  next
    case 2
    then show ?thesis
      using h normal guard by (elim compare_modes) (simp add: buildRequestConditionExpr_def paramHeaderText_def guardedTest_def
          callText_def existsText_def Let_def)
  qed
qed

lemma guardedTest_part:
  assumes "guarded_param h"
  shows "and_part (guardedTest h)"
proof (cases "ph_mode h = MATCH_CONTAINS")
  case True
  then show ?thesis using assms has_part [of "ph_path h" "ph_value h"] compare_modes
    by (auto simp: guarded_param_def guardedTest_def)
next
  case False
  then have v: "list_all num_unit (ph_value h)" "ph_value h \<noteq> []" and n: "plain_name (ph_path h)"
    using assms numericLiteral_units by (auto simp: guarded_param_def)
  obtain op where op: "compareOp (ph_mode h) = Some op" "op \<in> {[62], [62, 61], [60], [60, 61]}"
    using False assms compare_modes by (auto simp: guarded_param_def)
  let ?r = "lit '' '' @ op @ lit '' '' @ ph_value h"
  have "38 \<notin> set ?r" "40 \<notin> set ?r" "41 \<notin> set ?r" using op(2) num_text [OF v] by (auto simp: js_eval)
  then have "and_part (callText (sourceName Param) (ph_path h) @ ?r)"
    using v num_text [OF v] by (intro top_call letters_names n no_split_free parens_ok_free) (simp_all add: op_units)
  with False op show ?thesis by (simp add: guardedTest_def)
qed

lemma guardedTest_unread:
  assumes "guarded_param h"
  shows "tryParseRequestCondition other (guardedTest h) = Gave None"
proof (cases "ph_mode h = MATCH_CONTAINS")
  case True
  have "hasCall Header (lit ''has('' @ callText (sourceName Param) n @ r) = None" for n r
    unfolding hasCall_def by (simp only: stripPrefix_append Option.bind.simps sourceCall_other)
  with True show ?thesis
    by (simp add: guardedTest_def tryParseRequestCondition_def time_none existsCall_def sourceCall_has guardedHas_def
        guardedCompare_def nilGuard_def eqCondition_def eqCall_def)
next
  case False
  then have n: "plain_name (ph_path h)" using assms by (simp add: guarded_param_def)
  obtain op where op: "compareOp (ph_mode h) = Some op" "op \<in> {[62], [62, 61], [60], [60, 61]}"
    using False assms compare_modes by (auto simp: guarded_param_def)
  let ?r = "lit '' '' @ op @ lit '' '' @ ph_value h"
  have r: "?r \<noteq> lit '' != nil''" "stripPrefix (lit '' != nil && '') ?r = None" "stripPrefix (lit '' == '') ?r = None"
    using op(2) by (auto simp: stripPrefix_def js_startsWith_iff js_eval)
  have "stripPrefix (lit ''has('') (callText (sourceName Param) m @ x) = None" for m x
    by (simp add: stripPrefix_def callText_def js_startsWith_iff js_eval sourceName_def)
  with False op n r show ?thesis
    by (simp add: guardedTest_def tryParseRequestCondition_def time_none existsCall_def sourceCall_same sourceCall_other
        hasCall_def guardedHas_def guardedCompare_def nilGuard_def eqCondition_def eqCall_def)
qed

lemma read_guarded:
  assumes "guarded_param h"
  shows "tryParseRequestConditions other (buildRequestConditionExpr (ParamHeaderC h)) = Gave None"
    and "parens_ok (buildRequestConditionExpr (ParamHeaderC h))"
    and "buildRequestConditionExpr (ParamHeaderC h) \<noteq> []"
proof -
  let ?l = "callText (sourceName Param) (ph_path h) @ existsText Param"
  let ?ps = "[?l, guardedTest h]"
  have n: "plain_name (ph_path h)" using assms by (simp add: guarded_param_def)
  have parts: "and_part ?l" "and_part (guardedTest h)" using exists_part [OF n] guardedTest_part [OF assms] by simp_all
  then have top: "list_all (top_part (lit '' && '')) ?ps" by (simp add: and_part_def)
  have trim: "js_trim ?l = ?l" "js_trim (guardedTest h) = guardedTest h" using parts by (simp_all add: and_part_def top_part_def)
  have joined: "buildRequestConditionExpr (ParamHeaderC h) = js_join (lit '' && '') ?ps" by (rule build_guarded [OF assms])
  have split: "splitTopLevelAnd (js_join (lit '' && '') ?ps) = ?ps"
    unfolding splitTopLevelAnd_def using top by (intro splitTopLevel_join) (simp_all add: op_units depth_step_def)
  have trim_all: "js_trim (js_join (lit '' && '') ?ps) = js_join (lit '' && '') ?ps"
    using parts by (intro trim_join) (auto simp: and_part_def top_part_def)
  have time: "tryParseTimeCondition (callText (sourceName Param) (ph_path h) @ r) = None" for r by (rule time_none)
  then have time_all: "tryParseTimeCondition (js_join (lit '' && '') ?ps) = None" by simp
  have "rangeWithNext ?l [guardedTest h] = None"
    using time [of "existsText Param"] trim by (simp add: rangeWithNext_def tryParseTimeRangePair_def)
  then have "parseParts other ?ps = Gave None"
    using read_exists [OF n, of other Param] guardedTest_unread [OF assms, of other] trim by (simp add: rangeWithNext_def)
  with split trim_all time_all show "tryParseRequestConditions other (buildRequestConditionExpr (ParamHeaderC h)) = Gave None"
    unfolding joined tryParseRequestConditions_def by (simp only: option.case attempt.case)
  show "parens_ok (buildRequestConditionExpr (ParamHeaderC h))"
    unfolding joined using parts by (intro parens_ok_join parens_ok_free) (auto simp: and_part_def op_units)
  show "buildRequestConditionExpr (ParamHeaderC h) \<noteq> []" unfolding joined by (simp add: callText_def)
qed

definition guarded_rule :: "param_header_condition \<Rightarrow> jstring \<Rightarrow> request_rule_group" where
  "guarded_rule h m = \<lparr>conditions = [ParamHeaderC h], multiplier = m, conditionText = None, matched = None\<rparr>"

lemma guarded_factor:
  assumes "guarded_param h" and "isNumericLiteral m" and "js_trim m = m"
  shows "buildRequestRuleExpr [guarded_rule h m] =
      [40] @ buildRequestConditionExpr (ParamHeaderC h) @ lit '' ? '' @ m @ lit '' : 1)''"
    and "top_part (lit '' * '') (buildRequestRuleExpr [guarded_rule h m])"
    and "tryParseRequestRuleExpr other (buildRequestRuleExpr [guarded_rule h m]) = Gave None"
proof -
  have m: "list_all num_unit m" "m \<noteq> []" using numericLiteral_units [OF assms(2)] by simp_all
  note cond = read_guarded [OF assms(1)]
  show built: "buildRequestRuleExpr [guarded_rule h m] =
      [40] @ buildRequestConditionExpr (ParamHeaderC h) @ lit '' ? '' @ m @ lit '' : 1)''"
    using cond(3) assms(2,3) by (simp add: buildRequestRuleExpr_def buildRuleGroupFactor_def guarded_rule_def Let_def)
  show top: "top_part (lit '' * '') (buildRequestRuleExpr [guarded_rule h m])"
    unfolding built by (rule factor_top [OF cond(2) m])
  show "tryParseRequestRuleExpr other (buildRequestRuleExpr [guarded_rule h m]) = Gave None"
    unfolding read_single_factor [OF top] unfolding built
    using read_factor_text [OF m cond(3)] cond(1) [of other] by (simp add: tryParseRuleGroupFactor_def)
qed

text \<open>C30. Rules on a body parameter that contains a text or compares with a number are lost on the way back:
  the builder writes them as \<open>param("p") != nil && test\<close>, the reader splits at \<open>&&\<close> before it
  looks for that shape and rejects the second half, so the rules do not parse, and splitting the whole
  expression leaves them in the base.\<close>

theorem guarded_rules_unreadable:
  assumes "guarded_param h" and "isNumericLiteral m" and "js_trim m = m" and "separable_base b"
  shows "tryParseRequestRuleExpr other (buildRequestRuleExpr [guarded_rule h m]) = Gave None \<and>
    splitBillingExprAndRequestRules other (combineBillingExpr b (buildRequestRuleExpr [guarded_rule h m])) =
      Gave (combineBillingExpr b (buildRequestRuleExpr [guarded_rule h m]), [])"
proof -
  let ?f = "buildRequestRuleExpr [guarded_rule h m]"
  note f = guarded_factor [OF assms(1-3)]
  have text_facts: "js_trim (combineBillingExpr b ?f) = combineBillingExpr b ?f"
      "splitTopLevelMultiply (combineBillingExpr b ?f) = [[40] @ b @ [41], ?f]"
    using combined_text [OF assms(4), of "[?f]"] f(2) by simp_all
  moreover have "combineBillingExpr b ?f \<noteq> []"
    using text_facts(2) by (auto simp: splitTopLevelMultiply_def splitTopLevel_def)
  ultimately show ?thesis
    using f(3) [of other] read_base [OF assms(4), of other] by (simp add: splitBillingExprAndRequestRules_def Let_def)
qed

definition long_prompt :: param_header_condition where
  "long_prompt = \<lparr>ph_source = Param, ph_path = lit ''max_tokens'', ph_mode = MATCH_GT, ph_value = lit ''4096''\<rparr>"

theorem guarded_rules_unreadable_witness:
  "tryParseRequestRuleExpr (\<lambda>_. None) (buildRequestRuleExpr [guarded_rule long_prompt (lit ''2'')]) = Gave None"
proof -
  have "guarded_param long_prompt" by code_simp
  moreover have "isNumericLiteral (lit ''2'')" by code_simp
  moreover have "js_trim (lit ''2'') = lit ''2''" by code_simp
  ultimately show ?thesis using guarded_rules_unreadable [OF _ _ _ flat_price_base] by blast
qed

end
