(* ===== verification/JSArith.thy ===== *)
theory JSArith
  imports ExprText "HOL-Library.Multiset"
begin

text \<open>
  Arithmetic on doubles, \<open>Array.prototype.sort\<close>, and totals collected in a \<open>Map\<close>.

  The exact result of an operation on finite numbers is rounded by \<open>js_round\<close>; sums of whole numbers
  below \<open>2\<^sup>53\<close> are exact (\<open>exact_sum\<close>). \<open>localeCompare\<close> depends on the collation tables of the host and
  is an argument wherever it is called.

  The locale \<open>tally\<close> is the interface of the loops \<open>previous = map.get(key) ?? start; bump; map.set\<close>.
\<close>

section \<open>Arithmetic\<close>

fun num_neg :: "jsnum \<Rightarrow> jsnum" where
  "num_neg (Fin q) = Fin (- q)"
| "num_neg PosInf = NegInf"
| "num_neg NegInf = PosInf"
| "num_neg NaN = NaN"

fun num_add :: "jsnum \<Rightarrow> jsnum \<Rightarrow> jsnum" where
  "num_add (Fin a) (Fin b) = js_round (a + b)"
| "num_add NaN y = NaN"
| "num_add x NaN = NaN"
| "num_add PosInf NegInf = NaN"
| "num_add NegInf PosInf = NaN"
| "num_add PosInf y = PosInf"
| "num_add NegInf y = NegInf"
| "num_add x y = y"

definition num_sub :: "jsnum \<Rightarrow> jsnum \<Rightarrow> jsnum" where
  "num_sub x y = num_add x (num_neg y)"

definition signed_inf :: "bool \<Rightarrow> jsnum" where
  "signed_inf pos = (if pos then PosInf else NegInf)"

fun num_mul :: "jsnum \<Rightarrow> jsnum \<Rightarrow> jsnum" where
  "num_mul (Fin a) (Fin b) = js_round (a * b)"
| "num_mul NaN y = NaN"
| "num_mul x NaN = NaN"
| "num_mul (Fin a) y = (if a = 0 then NaN else signed_inf ((0 < a) = num_gt0 y))"
| "num_mul x (Fin b) = (if b = 0 then NaN else signed_inf ((0 < b) = num_gt0 x))"
| "num_mul x y = signed_inf (x = y)"

text \<open>The sources divide by positive numbers only.\<close>

fun num_div :: "jsnum \<Rightarrow> jsnum \<Rightarrow> jsnum" where
  "num_div (Fin a) (Fin b) = (if b = 0 then (if a = 0 then NaN else signed_inf (0 < a)) else js_round (a / b))"
| "num_div NaN y = NaN"
| "num_div x NaN = NaN"
| "num_div (Fin a) y = Fin 0"
| "num_div x (Fin b) = signed_inf ((0 \<le> b) = num_gt0 x)"
| "num_div x y = NaN"

text \<open>The value a comparator returns counts by its sign, and \<open>a || b\<close> goes on to \<open>b\<close> when \<open>a\<close> is zero or NaN.\<close>

fun num_sign :: "jsnum \<Rightarrow> int" where
  "num_sign (Fin q) = sgn (if q = 0 then 0 else if 0 < q then 1 else - 1)"
| "num_sign PosInf = 1"
| "num_sign NegInf = - 1"
| "num_sign NaN = 0"

definition or_else :: "int \<Rightarrow> int \<Rightarrow> int" where
  "or_else a b = (if a = 0 then b else a)"

section \<open>Sums of whole numbers\<close>

definition num_sum :: "jsnum list \<Rightarrow> jsnum" where
  "num_sum xs = foldl num_add (Fin 0) xs"

definition whole :: "jsnum \<Rightarrow> bool" where
  "whole x \<longleftrightarrow> (case x of Fin q \<Rightarrow> 0 \<le> q \<and> of_int \<lfloor>q\<rfloor> = q | _ \<Rightarrow> False)"

definition int_of :: "jsnum \<Rightarrow> int" where
  "int_of x = (case x of Fin q \<Rightarrow> \<lfloor>q\<rfloor> | _ \<Rightarrow> 0)"

lemma whole_Fin: "whole x \<Longrightarrow> x = Fin (of_int (int_of x)) \<and> 0 \<le> int_of x"
  by (auto simp: whole_def int_of_def split: jsnum.splits)

lemma whole_of_int [simp]: "whole (Fin (of_int n)) \<longleftrightarrow> 0 \<le> n" "int_of (Fin (of_int n)) = n"
  by (simp_all add: whole_def int_of_def)

lemma whole_zero [simp]: "whole (Fin 0)" "int_of (Fin 0) = 0"
  by (simp_all add: whole_def int_of_def)

lemma exact_add:
  assumes "0 \<le> m" and "0 \<le> n" and "m + n < 2 ^ 53"
  shows "num_add (Fin (of_int m)) (Fin (of_int n)) = Fin (of_int (m + n))"
  using assms js_round_int [of "m + n"] by simp

lemma exact_foldl:
  assumes "list_all whole xs" and "0 \<le> n" and "n + (\<Sum>x \<leftarrow> xs. int_of x) < 2 ^ 53"
  shows "foldl num_add (Fin (of_int n)) xs = Fin (of_int (n + (\<Sum>x \<leftarrow> xs. int_of x)))"
  using assms
proof (induction xs arbitrary: n)
  case (Cons x xs)
  have x: "x = Fin (of_int (int_of x))" "0 \<le> int_of x" using Cons.prems(1) whole_Fin by auto
  have rest: "0 \<le> (\<Sum>x \<leftarrow> xs. int_of x)" using Cons.prems(1) whole_Fin by (intro sum_list_nonneg) (auto simp: list_all_iff)
  have "num_add (Fin (of_int n)) x = Fin (of_int (n + int_of x))"
    using exact_add [of n "int_of x"] Cons.prems(2,3) x rest by simp
  moreover have "foldl num_add (Fin (of_int (n + int_of x))) xs = Fin (of_int (n + int_of x + (\<Sum>x \<leftarrow> xs. int_of x)))"
    using Cons.prems x by (intro Cons.IH) auto
  ultimately show ?case by (simp add: add.assoc)
qed simp

lemma exact_sum:
  assumes "list_all whole xs" and "(\<Sum>x \<leftarrow> xs. int_of x) < 2 ^ 53"
  shows "num_sum xs = Fin (of_int (\<Sum>x \<leftarrow> xs. int_of x))"
  using exact_foldl [of xs 0] assms by (simp add: num_sum_def)

text \<open>A quotient of at most one stays at most one.\<close>

lemma round_even_bounds:
  assumes "0 \<le> q" and "q \<le> of_int n"
  shows "0 \<le> round_even q" "round_even q \<le> n"
proof -
  have "0 \<le> \<lfloor>q\<rfloor>" using assms(1) by simp
  then show "0 \<le> round_even q" by (simp add: round_even_def Let_def)
  have "\<lfloor>q\<rfloor> \<le> n" using assms(2) by (simp add: floor_le_iff)
  moreover have "round_even q \<le> n" if "\<lfloor>q\<rfloor> = n"
  proof -
    have "q = of_int n" using that assms(2) of_int_floor_le [of q] by (intro antisym) auto
    then show ?thesis by simp
  qed
  moreover have "round_even q \<le> \<lfloor>q\<rfloor> + 1" by (simp add: round_even_def Let_def)
  ultimately show "round_even q \<le> n" by linarith
qed

lemma exponent_of_unit:
  assumes "0 < q" and "q \<le> 1"
  shows "exponent_of q \<le> 0"
proof -
  obtain n d where nd: "quotient_of q = (n, d)" by (cases "quotient_of q")
  then have "0 < d" and q: "q = of_int n / of_int d" by (rule quotient_of_denom_pos, rule quotient_of_div)
  then have "of_int n \<le> (of_int d :: rat)" using assms(2) by (simp add: divide_le_eq)
  then have "floorlog 2 (nat n) \<le> floorlog 2 (nat d)" by (intro floorlog_mono) simp
  then show ?thesis by (simp add: exponent_of_def nd Let_def)
qed

lemma js_round_unit:
  assumes "0 \<le> q" and "q \<le> 1"
  shows "\<exists>r. js_round q = Fin r \<and> 0 \<le> r \<and> r \<le> 1"
proof (cases "q = 0")
  case False
  define e where "e = max (- 1074) (exponent_of \<bar>q\<bar> - 52)"
  define m where "m = nat (- e)"
  have "e \<le> 0" using exponent_of_unit [of q] False assms by (simp add: e_def)
  then have e: "e = - int m" by (simp add: m_def)
  have p: "(2::rat) powi e = 1 / 2 ^ m" by (simp only: e power_int_minus power_int_of_nat inverse_eq_divide)
  have "q / 2 powi e = q * 2 ^ m" by (simp add: p)
  moreover have "q * 2 ^ m \<le> of_int (2 ^ m)" using assms(2) by (simp add: mult_left_le_one_le)
  ultimately have r: "0 \<le> round_even (q / 2 powi e)" "round_even (q / 2 powi e) \<le> 2 ^ m"
    using round_even_bounds [of "q * 2 ^ m" "2 ^ m"] assms(1) by simp_all
  define v :: rat where "v = of_int (round_even (q / 2 powi e)) * 2 powi e"
  have "of_int (round_even (q / 2 powi e)) \<le> (2 ^ m :: rat)" using r(2) by (metis of_int_le_iff of_int_numeral of_int_power)
  then have v: "0 \<le> v" "v \<le> 1" using r(1) by (simp_all add: v_def p divide_le_eq)
  have "(1::rat) < double_limit" unfolding double_limit_def by (rule one_less_power) auto
  then have "js_round q = Fin v"
    using False v unfolding js_round_def Let_def e_def [symmetric] v_def [symmetric] by auto
  with v show ?thesis by blast
qed (simp add: js_round_def)

section \<open>Sorting\<close>

text \<open>\<open>sort(cmp)\<close> is stable: an element goes before the first one it may precede.\<close>

fun insertBy :: "('a \<Rightarrow> 'a \<Rightarrow> int) \<Rightarrow> 'a \<Rightarrow> 'a list \<Rightarrow> 'a list" where
  "insertBy cmp x [] = [x]"
| "insertBy cmp x (y # ys) = (if cmp x y \<le> 0 then x # y # ys else y # insertBy cmp x ys)"

definition js_sort :: "('a \<Rightarrow> 'a \<Rightarrow> int) \<Rightarrow> 'a list \<Rightarrow> 'a list" where
  "js_sort cmp xs = foldr (insertBy cmp) xs []"

lemma mset_insertBy [simp]: "mset (insertBy cmp x ys) = add_mset x (mset ys)"
  by (induction ys) auto

lemma mset_js_sort [simp]: "mset (js_sort cmp xs) = mset xs"
  by (induction xs) (simp_all add: js_sort_def)

lemma set_js_sort [simp]: "set (js_sort cmp xs) = set xs"
  by (rule mset_eq_setD) simp

lemma length_js_sort [simp]: "length (js_sort cmp xs) = length xs"
  by (rule mset_eq_length) simp

lemma sum_js_sort [simp]: "(\<Sum>x \<leftarrow> js_sort cmp xs. f x) = (\<Sum>x \<leftarrow> xs. (f x :: int))"
proof -
  have "(\<Sum>x \<leftarrow> ys. f x) = sum_mset (image_mset f (mset ys))" for ys
    by (simp flip: sum_mset_sum_list)
  then show ?thesis by simp
qed

lemma distinct_js_sort: "distinct (map f (js_sort cmp xs)) \<longleftrightarrow> distinct (map f xs)"
  by (rule mset_eq_imp_distinct_iff) simp

text \<open>A comparator: the order in which it puts any two elements is a total preorder.\<close>

definition comparator :: "('a \<Rightarrow> 'a \<Rightarrow> int) \<Rightarrow> bool" where
  "comparator cmp \<longleftrightarrow> (\<forall>x y. cmp x y \<le> 0 \<or> cmp y x \<le> 0) \<and> (\<forall>x y z. cmp x y \<le> 0 \<longrightarrow> cmp y z \<le> 0 \<longrightarrow> cmp x z \<le> 0)"

lemma set_insertBy [simp]: "set (insertBy cmp x ys) = insert x (set ys)"
  using mset_eq_setD [of "insertBy cmp x ys" "x # ys"] by simp

lemma sorted_insertBy:
  assumes "comparator cmp" and "sorted_wrt (\<lambda>x y. cmp x y \<le> 0) ys"
  shows "sorted_wrt (\<lambda>x y. cmp x y \<le> 0) (insertBy cmp x ys)"
  using assms(2)
proof (induction ys)
  case (Cons y ys)
  show ?case
  proof (cases "cmp x y \<le> 0")
    case True
    have "cmp x z \<le> 0" if "z \<in> set ys" for z
    proof -
      have "cmp y z \<le> 0" using that Cons.prems by simp
      with True show ?thesis using assms(1) unfolding comparator_def by blast
    qed
    with True Cons.prems show ?thesis by simp
  next
    case False
    then have "cmp y x \<le> 0" using assms(1) unfolding comparator_def by blast
    with False Cons show ?thesis by simp
  qed
qed simp

lemma sorted_js_sort: "comparator cmp \<Longrightarrow> sorted_wrt (\<lambda>x y. cmp x y \<le> 0) (js_sort cmp xs)"
  by (induction xs) (simp_all add: js_sort_def sorted_insertBy)

section \<open>Totals in a map\<close>

locale tally =
  fixes key :: "'e \<Rightarrow> 'k"
    and start :: "'e \<Rightarrow> 'v"
    and bump :: "'e \<Rightarrow> 'v \<Rightarrow> 'v"
    and add :: "'e \<Rightarrow> ('k \<times> 'v) list \<Rightarrow> ('k \<times> 'v) list"
  assumes lookup_add: "map_of (add e m) k =
      (if k = key e then Some (bump e (case map_of m (key e) of None \<Rightarrow> start e | Some v \<Rightarrow> v)) else map_of m k)"
    and keys_add: "map fst (add e m) = (if key e \<in> set (map fst m) then map fst m else map fst m @ [key e])"
begin

definition total :: "'e list \<Rightarrow> 'v option" where
  "total es = (case es of [] \<Rightarrow> None | e # _ \<Rightarrow> Some (fold bump es (start e)))"

lemma lookup_after:
  "map_of (fold add es m) k =
     (case map_of m k of None \<Rightarrow> total (filter (\<lambda>e. key e = k) es) | Some v \<Rightarrow> Some (fold bump (filter (\<lambda>e. key e = k) es) v))"
  by (induction es arbitrary: m) (auto simp: lookup_add total_def split: option.splits)

theorem lookup_total: "map_of (fold add es []) k = total (filter (\<lambda>e. key e = k) es)"
  by (simp add: lookup_after)

lemma lookup_Some: "map_of (fold add es []) k = Some v \<longleftrightarrow>
    filter (\<lambda>e. key e = k) es \<noteq> [] \<and> v = fold bump (filter (\<lambda>e. key e = k) es) (start (hd (filter (\<lambda>e. key e = k) es)))"
  unfolding lookup_total total_def by (cases "filter (\<lambda>e. key e = k) es") auto

lemma keys_after: "set (map fst (fold add es m)) = set (map fst m) \<union> key ` set es"
proof (induction es arbitrary: m)
  case (Cons e es)
  have "set (map fst (add e m)) = insert (key e) (set (map fst m))"
    unfolding keys_add by auto
  with Cons [of "add e m"] show ?case by simp
qed simp

lemma distinct_after: "distinct (map fst m) \<Longrightarrow> distinct (map fst (fold add es m))"
proof (induction es arbitrary: m)
  case (Cons e es)
  then show ?case using keys_add [of e m] by auto
qed simp

lemma distinct_keys: "distinct (map fst (fold add es []))"
  by (simp add: distinct_after)

lemma keys_total: "set (map fst (fold add es [])) = key ` set es"
  using keys_after [of es "[]"] by simp

end

lemma ball_entries: "distinct (map fst m) \<Longrightarrow> (\<forall>(k, v) \<in> set m. Q k v) \<longleftrightarrow> (\<forall>k v. map_of m k = Some v \<longrightarrow> Q k v)"
  by (auto dest: map_of_SomeD)

text \<open>The loop body over an association list.\<close>

definition bumpAt :: "'k \<Rightarrow> 'v \<Rightarrow> ('v \<Rightarrow> 'v) \<Rightarrow> ('k \<times> 'v) list \<Rightarrow> ('k \<times> 'v) list" where
  "bumpAt k v f m = AList.update k (f (case map_of m k of None \<Rightarrow> v | Some old \<Rightarrow> old)) m"

lemma keys_update: "map fst (AList.update k v m) = (if k \<in> set (map fst m) then map fst m else map fst m @ [k])"
  by (induction m) auto

lemma bumpAt_tally: "tally key start bump (\<lambda>e. bumpAt (key e) (start e) (bump e))"
  by unfold_locales (auto simp: bumpAt_def update_conv' keys_update)

end
