(* ===== verification/NumberText.thy ===== *)
theory NumberText
  imports JSArith
begin

text \<open>
  Printing a number and reading it back.

  \<open>js_numberText\<close> of \<open>ExprText\<close> is the algorithm of \<open>Number.prototype.toString\<close>: the fewest digits
  that read as the number. Here it is shown that for a double seventeen digits suffice, so that the
  search always succeeds, and that \<open>Number(String(x))\<close> is \<open>x\<close>.
\<close>

section \<open>Logarithms of fractions\<close>

lemma quotient_pos:
  assumes "quotient_of q = (n, d)" and "0 < q"
  shows "0 < n" "0 < d" "q = of_nat (nat n) / of_nat (nat d)"
proof -
  show "0 < d" using quotient_of_denom_pos [OF assms(1)] .
  moreover have "q = of_int n / of_int d" using quotient_of_div [OF assms(1)] .
  ultimately show "0 < n" using assms(2) by (simp add: zero_less_divide_iff)
  with \<open>0 < d\<close> \<open>q = of_int n / of_int d\<close> show "q = of_nat (nat n) / of_nat (nat d)" by simp
qed

lemma floorlog_rat:
  fixes b :: nat
  assumes "1 < b" and "0 < n"
  shows "of_nat b powi (int (floorlog b n) - 1) \<le> (of_nat n :: rat)" "(of_nat n :: rat) < of_nat b powi int (floorlog b n)"
proof -
  have B: "b ^ (floorlog b n - 1) \<le> n" "n < b ^ floorlog b n" using floorlog_bounds [of n b] assms by simp_all
  have "0 < floorlog b n" using assms floorlog_eq_zero_iff [of b n] by simp
  then have "of_nat b powi (int (floorlog b n) - 1) = (of_nat (b ^ (floorlog b n - 1)) :: rat)"
    by (simp add: power_int_def nat_diff_distrib)
  then show "of_nat b powi (int (floorlog b n) - 1) \<le> (of_nat n :: rat)" using B(1) by (simp only: of_nat_le_iff)
  have "of_nat b powi int (floorlog b n) = (of_nat (b ^ floorlog b n) :: rat)" by simp
  then show "(of_nat n :: rat) < of_nat b powi int (floorlog b n)" using B(2) by (simp only: of_nat_less_iff)
qed

lemma quotient_log:
  fixes b :: nat
  assumes "quotient_of q = (n, d)" and "0 < q" and "1 < b"
  defines "e \<equiv> int (floorlog b (nat n)) - int (floorlog b (nat d))"
  shows "(of_nat b :: rat) powi (e - 1) < q" "q < of_nat b powi (e + 1)"
proof -
  define N D where "N = nat n" and "D = nat d"
  define i j where "i = int (floorlog b N)" and "j = int (floorlog b D)"
  have q: "q = of_nat N / of_nat D" "0 < N" "0 < D" using quotient_pos [OF assms(1,2)] by (simp_all add: N_def D_def)
  have L: "of_nat b powi (i - 1) \<le> (of_nat N :: rat)" "(of_nat N :: rat) < of_nat b powi i"
    "of_nat b powi (j - 1) \<le> (of_nat D :: rat)" "(of_nat D :: rat) < of_nat b powi j"
    using floorlog_rat [OF assms(3) q(2)] floorlog_rat [OF assms(3) q(3)] by (simp_all add: i_def j_def)
  have b: "(of_nat b :: rat) \<noteq> 0" "(0::rat) < of_nat b" using assms(3) by simp_all
  have P: "(0::rat) < of_nat b powi x" for x using b(2) by simp
  have E: "e - 1 = (i - 1) - j" "e + 1 = i - (j - 1)" by (simp_all add: e_def i_def j_def N_def D_def)
  have "(of_nat b :: rat) powi (e - 1) = of_nat b powi (i - 1) / of_nat b powi j"
    using b(1) unfolding E(1) by (intro power_int_diff) simp
  also have "\<dots> < of_nat N / of_nat D"
    using frac_less2 [OF P [of "i - 1"] L(1) _ L(4)] q(3) by simp
  finally show "(of_nat b :: rat) powi (e - 1) < q" by (simp add: q(1))
  have "of_nat N / of_nat D < (of_nat b :: rat) powi i / of_nat b powi (j - 1)"
    using frac_less [OF _ L(2) P L(3)] by simp
  also have "\<dots> = of_nat b powi (e + 1)"
    using b(1) unfolding E(2) by (intro power_int_diff [symmetric]) simp
  finally show "q < of_nat b powi (e + 1)" by (simp add: q(1))
qed

lemma decimal_point_bounds:
  assumes "0 < q"
  shows "10 powi (decimal_point q - 1) \<le> q" "q < 10 powi decimal_point q"
proof -
  obtain n d where nd: "quotient_of q = (n, d)" by fastforce
  from quotient_log [OF nd assms, of 10]
  show "10 powi (decimal_point q - 1) \<le> q" "q < 10 powi decimal_point q"
    by (auto simp: decimal_point_def nd Let_def)
qed

lemma exponent_of_bounds:
  assumes "0 < q"
  shows "2 powi exponent_of q \<le> q" "q < 2 powi (exponent_of q + 1)"
proof -
  obtain n d where nd: "quotient_of q = (n, d)" by fastforce
  from quotient_log [OF nd assms, of 2]
  show "2 powi exponent_of q \<le> q" "q < 2 powi (exponent_of q + 1)"
    by (auto simp: exponent_of_def nd Let_def)
qed

section \<open>Numbers close to a double\<close>

definition double :: "rat \<Rightarrow> bool" where
  "double q \<longleftrightarrow> js_round q = Fin q"

definition unit_exponent :: "rat \<Rightarrow> int" where
  "unit_exponent q = max (- 1074) (exponent_of q - 52)"

lemma js_round_pos:
  assumes "0 < q"
  shows "js_round q =
    (let e = unit_exponent q; v = of_int (round_even (q / 2 powi e)) * 2 powi e
     in if v \<ge> double_limit then PosInf else if v \<le> - double_limit then NegInf else Fin v)"
  using assms by (simp add: js_round_def unit_exponent_def)

lemma double_multiple:
  assumes "double q" and "0 < q"
  obtains k where "q = of_int k * 2 powi unit_exponent q" and "q < double_limit"
proof -
  have "js_round q = Fin q" using assms(1) by (simp add: double_def)
  then have "q = of_int (round_even (q / 2 powi unit_exponent q)) * 2 powi unit_exponent q" "q < double_limit"
    unfolding js_round_pos [OF assms(2)] by (auto simp: Let_def split: if_splits)
  then show ?thesis by (rule that)
qed

lemma round_even_near:
  assumes "\<bar>x - of_int k\<bar> < 1 / 2"
  shows "round_even x = k"
proof (cases "of_int k \<le> x")
  case True
  then have "\<lfloor>x\<rfloor> = k" using assms by (intro floor_unique) auto
  then show ?thesis using assms True by (simp add: round_even_def)
next
  case False
  then have "\<lfloor>x\<rfloor> = k - 1" using assms by (intro floor_unique) auto
  then show ?thesis using assms False by (simp add: round_even_def)
qed

lemma multiples_apart:
  fixes a b :: rat
  assumes "a = of_int k * u" and "b = of_int l * u" and "0 < u" and "a < b"
  shows "a + u \<le> b"
proof -
  have "k < l" using assms by simp
  then have "of_int (k + 1) \<le> (of_int l :: rat)" by (simp only: of_int_le_iff)
  then have "of_int (k + 1) * u \<le> of_int l * u" using assms(3) by (intro mult_right_mono) simp_all
  then show ?thesis using assms by (simp add: algebra_simps)
qed

lemma power_multiple: "f \<le> e \<Longrightarrow> \<exists>k. (2::rat) powi e = of_int k * 2 powi f"
proof -
  assume "f \<le> e"
  then have "(2::rat) powi e = 2 powi int (nat (e - f)) * 2 powi f" by (simp flip: power_int_add)
  also have "\<dots> = of_int (2 ^ nat (e - f)) * 2 powi f" by (simp only: power_int_of_nat of_int_power of_int_numeral)
  finally show ?thesis by blast
qed

lemma js_round_at:
  assumes "0 < y" and "q = of_int k * 2 powi unit_exponent y" and "\<bar>y - q\<bar> < 2 powi unit_exponent y / 2"
    and "0 < q" and "q < double_limit"
  shows "js_round y = Fin q"
proof -
  define u :: rat where "u = 2 powi unit_exponent y"
  have "0 < u" by (simp add: u_def)
  have "y / u - of_int k = (y - q) / u" using assms(2) \<open>0 < u\<close> by (simp add: u_def [symmetric] field_simps)
  then have "\<bar>y / u - of_int k\<bar> < 1 / 2" using assms(3) \<open>0 < u\<close> by (simp add: u_def [symmetric] abs_divide field_simps)
  then have "of_int (round_even (y / u)) * u = q" using assms(2) by (simp only: round_even_near u_def)
  moreover have "\<not> q \<le> - double_limit" using assms(4) by (simp add: double_limit_def)
  ultimately show ?thesis using assms(5) unfolding js_round_pos [OF assms(1)] u_def by (simp add: Let_def)
qed

lemma two_powi_less: "(2::rat) powi a < 2 powi b \<longleftrightarrow> a < b"
  using power_int_strict_increasing [of a b "2::rat"] power_int_increasing [of b a "2::rat"] by (cases "a < b") auto

lemma two_powi_le: "(2::rat) powi a \<le> 2 powi b \<longleftrightarrow> a \<le> b"
  using two_powi_less [of b a] by (simp add: not_less [symmetric])

lemma half_unit: "2 ^ 54 * a < (q::rat) \<Longrightarrow> q \<le> u * 2 ^ 53 \<Longrightarrow> a < u / 2"
  by simp

lemma js_round_near:
  assumes "double q" and "0 < q" and "2 ^ 54 * \<bar>y - q\<bar> < q"
  shows "js_round y = Fin q"
proof -
  define E e F f where "E = exponent_of q" "e = unit_exponent q" "F = exponent_of y" "f = unit_exponent y"
  obtain k where k: "q = of_int k * 2 powi e" and lim: "q < double_limit"
    using double_multiple [OF assms(1,2)] by (auto simp: E_e_F_f_def)
  have "2 * \<bar>y - q\<bar> \<le> 2 ^ 54 * \<bar>y - q\<bar>" by (intro mult_right_mono) simp_all
  then have "2 * \<bar>y - q\<bar> < q" using assms(3) by linarith
  then have half: "q < 2 * y" by (simp add: abs_if split: if_splits)
  then have "0 < y" using assms(2) by linarith
  have Q: "2 powi E \<le> q" "q < 2 powi (E + 1)" and Y: "2 powi F \<le> y" "y < 2 powi (F + 1)"
    using exponent_of_bounds [OF assms(2)] exponent_of_bounds [OF \<open>0 < y\<close>] by (simp_all add: E_e_F_f_def)
  have exp: "E - 52 \<le> e" "F - 52 \<le> f" "e = - 1074 \<or> e = E - 52" "f = - 1074 \<or> f = F - 52" "- 1074 \<le> e"
    by (auto simp: E_e_F_f_def unit_exponent_def)
  have D: "\<bar>y - q\<bar> < 2 powi e"
  proof -
    have "q < 2 powi (e + 53)" using Q(2) two_powi_le [of "E + 1" "e + 53"] exp(1) by linarith
    also have "\<dots> = 2 powi e * 2 ^ 53" by (simp add: power_int_add)
    finally have "\<bar>y - q\<bar> < 2 powi e / 2" by (intro half_unit [OF assms(3)]) simp
    then show ?thesis using abs_ge_zero [of "y - q"] by linarith
  qed
  have apart: "b = of_int l * 2 powi e \<Longrightarrow> a = of_int m * 2 powi e \<Longrightarrow> a < b \<Longrightarrow> a + 2 powi e \<le> b" for a b :: rat and l m
    by (rule multiples_apart) simp_all
  have "e \<le> E"
  proof -
    have "0 + 2 powi e \<le> q" using apart [of q k 0 0] k assms(2) by simp
    then have "2 powi e < (2::rat) powi (E + 1)" using Q(2) by linarith
    then show ?thesis by (simp add: two_powi_less)
  qed
  have "f \<le> e"
  proof (rule ccontr)
    assume "\<not> f \<le> e"
    then have "E + 1 \<le> F" using exp by linarith
    then have "2 powi (E + 1) \<le> y" using Y(1) two_powi_le [of "E + 1" F] by linarith
    moreover obtain l where "(2::rat) powi (E + 1) = of_int l * 2 powi e" using power_multiple [of e "E + 1"] \<open>e \<le> E\<close> by auto
    ultimately show False using apart [OF _ k Q(2)] D by force
  qed
  have "q \<le> 2 powi (F + 1)"
  proof (rule ccontr)
    assume less: "\<not> q \<le> 2 powi (F + 1)"
    have "(2::rat) powi E < 2 powi (F + 2)" using Q(1) Y(2) half by (simp add: power_int_add)
    then have "e \<le> F + 1" using \<open>e \<le> E\<close> by (simp add: two_powi_less)
    then obtain l where "(2::rat) powi (F + 1) = of_int l * 2 powi e" using power_multiple by blast
    then show False using apart [OF k, of "2 powi (F + 1)" l] less Y(2) D by force
  qed
  also have "(2::rat) powi (F + 1) \<le> 2 powi (f + 53)" using exp(2) by (simp add: two_powi_le)
  also have "(2::rat) powi (f + 53) = 2 powi f * 2 ^ 53" by (simp add: power_int_add)
  finally have near: "\<bar>y - q\<bar> < 2 powi f / 2" by (rule half_unit [OF assms(3)])
  obtain l where "(2::rat) powi e = of_int l * 2 powi f" using power_multiple [OF \<open>f \<le> e\<close>] by blast
  then have "q = of_int (k * l) * 2 powi f" using k by simp
  from js_round_at [OF \<open>0 < y\<close> this [unfolded E_e_F_f_def] near [unfolded E_e_F_f_def] assms(2) lim] show ?thesis .
qed

section \<open>The shortest digits\<close>

text \<open>The candidate of \<open>shortest_digits\<close> with \<open>k\<close> digits.\<close>

definition readsBack :: "rat \<Rightarrow> nat \<Rightarrow> nat \<Rightarrow> bool" where
  "readsBack q k s \<longleftrightarrow> js_round (of_nat s * 10 powi (decimal_point q - int k)) = Fin q"

definition bestDigits :: "rat \<Rightarrow> nat \<Rightarrow> nat option" where
  "bestDigits q k =
     (let x = q * 10 powi (int k - decimal_point q); lo = nat \<lfloor>x\<rfloor>; hi = lo + 1
      in if readsBack q k lo \<and> (\<not> readsBack q k hi \<or> x - of_nat lo \<le> of_nat hi - x) then Some lo
         else if readsBack q k hi then Some hi else None)"

lemma shortest_digits_best:
  "shortest_digits q =
     (case List.find (\<lambda>k. bestDigits q k \<noteq> None) [1..<18] of
        None \<Rightarrow> None
      | Some k \<Rightarrow>
          (case bestDigits q k of
             None \<Rightarrow> None
           | Some s \<Rightarrow> if s = 10 ^ k then Some (10 ^ (k - 1), decimal_point q + 1) else Some (s, decimal_point q)))"
  unfolding shortest_digits_def bestDigits_def readsBack_def Let_def by (rule refl)

lemma scaled_bounds:
  assumes "0 < q"
  defines "x k \<equiv> q * 10 powi (int k - decimal_point q)"
  shows "10 powi (int k - 1) \<le> x k" "x k < 10 ^ k"
proof -
  define n where "n = decimal_point q"
  have P: "(0::rat) < 10 powi (int k - n)" by simp
  have "10 powi (n - 1) * 10 powi (int k - n) \<le> x k" "x k < 10 powi n * 10 powi (int k - n)"
    using decimal_point_bounds [OF assms(1)] P by (simp_all add: x_def n_def mult_right_mono)
  moreover have "(10::rat) powi (n - 1) * 10 powi (int k - n) = 10 powi (int k - 1)" "(10::rat) powi n * 10 powi (int k - n) = 10 ^ k"
    by (simp_all flip: power_int_add)
  ultimately show "10 powi (int k - 1) \<le> x k" "x k < 10 ^ k" by simp_all
qed

lemma scaled_floor:
  assumes "0 < q" and "0 < k"
  defines "lo \<equiv> nat \<lfloor>q * 10 powi (int k - decimal_point q)\<rfloor>"
  shows "10 ^ (k - 1) \<le> lo" "lo < 10 ^ k" "of_nat lo \<le> q * 10 powi (int k - decimal_point q)"
    "q * 10 powi (int k - decimal_point q) < of_nat lo + 1"
proof -
  define x where "x = q * 10 powi (int k - decimal_point q)"
  have B: "10 ^ (k - 1) \<le> x" "x < 10 ^ k"
    using scaled_bounds [OF assms(1), of k] assms(2) by (simp_all add: x_def power_int_def nat_diff_distrib)
  then have "of_int (10 ^ (k - 1)) \<le> x" "x < of_int (10 ^ k)" by simp_all
  then have F: "10 ^ (k - 1) \<le> \<lfloor>x\<rfloor>" "\<lfloor>x\<rfloor> < 10 ^ k" by (simp_all only: le_floor_iff floor_less_iff)
  then have "0 \<le> \<lfloor>x\<rfloor>" by (meson order.trans zero_le_numeral zero_le_power)
  then have lo: "int lo = \<lfloor>x\<rfloor>" by (simp add: lo_def x_def)
  with F have "int (10 ^ (k - 1)) \<le> int lo" "int lo < int (10 ^ k)" by simp_all
  then show "10 ^ (k - 1) \<le> lo" "lo < 10 ^ k" by (simp_all only: of_nat_le_iff of_nat_less_iff)
  have "(of_nat lo :: rat) = of_int \<lfloor>x\<rfloor>" using lo by (metis of_int_of_nat_eq)
  then show "of_nat lo \<le> q * 10 powi (int k - decimal_point q)" "q * 10 powi (int k - decimal_point q) < of_nat lo + 1"
    using floor_correct [of x] by (simp_all add: x_def [symmetric])
qed

lemma readsBack_near:
  assumes "double q" and "0 < q" and "\<bar>of_nat s - q * 10 powi (17 - decimal_point q)\<bar> \<le> 1 / 2"
  shows "readsBack q 17 s"
proof -
  define n where "n = decimal_point q"
  define t :: rat where "t = 10 powi (n - 17)"
  have "0 < t" by (simp add: t_def)
  have inv: "(10::rat) powi (17 - n) * t = 1" unfolding t_def by (simp flip: power_int_add)
  have "of_nat s * t - q = (of_nat s - q * 10 powi (17 - n)) * t" by (simp add: left_diff_distrib mult.assoc inv)
  then have "\<bar>of_nat s * t - q\<bar> = \<bar>of_nat s - q * 10 powi (17 - n)\<bar> * t" using \<open>0 < t\<close> by (simp add: abs_mult)
  also have "\<dots> \<le> 1 / 2 * t" using assms(3) \<open>0 < t\<close> by (intro mult_right_mono) (simp_all add: n_def)
  finally have "\<bar>of_nat s * t - q\<bar> \<le> t / 2" by simp
  then have "2 ^ 54 * \<bar>of_nat s * t - q\<bar> \<le> 2 ^ 54 * (t / 2)" by (intro mult_left_mono) simp_all
  also have "\<dots> < 10 ^ 16 * t" using \<open>0 < t\<close> by simp
  also have "10 ^ 16 * t = 10 powi (n - 1)"
  proof -
    have "(10::rat) powi (n - 1) = 10 powi (16 + (n - 17))" by simp
    also have "\<dots> = 10 powi 16 * t" unfolding t_def by (rule power_int_add) simp
    finally show ?thesis by simp
  qed
  also have "\<dots> \<le> q" using decimal_point_bounds(1) [OF assms(2)] by (simp add: n_def)
  finally have "js_round (of_nat s * t) = Fin q" by (rule js_round_near [OF assms(1,2)])
  then show ?thesis by (simp add: readsBack_def t_def n_def)
qed

lemma best17:
  assumes "double q" and "0 < q"
  shows "bestDigits q 17 \<noteq> None"
proof -
  define x where "x = q * 10 powi (int 17 - decimal_point q)"
  define lo where "lo = nat \<lfloor>x\<rfloor>"
  have "of_nat lo \<le> x" "x < of_nat lo + 1" using scaled_floor(3,4) [OF assms(2), of 17] by (simp_all add: lo_def x_def)
  then have "\<bar>of_nat lo - x\<bar> \<le> 1 / 2 \<or> \<bar>of_nat (lo + 1) - x\<bar> \<le> 1 / 2" by (auto simp: abs_if)
  then have "readsBack q 17 lo \<or> readsBack q 17 (lo + 1)" using readsBack_near [OF assms] by (auto simp: x_def)
  then show ?thesis unfolding bestDigits_def Let_def x_def [symmetric] lo_def [symmetric] by (auto split: if_splits)
qed

lemma bestDigits_Some:
  assumes "bestDigits q k = Some s" and "0 < q" and "0 < k"
  shows "10 ^ (k - 1) \<le> s" "s \<le> 10 ^ k" "readsBack q k s"
proof -
  define lo where "lo = nat \<lfloor>q * 10 powi (int k - decimal_point q)\<rfloor>"
  have "s = lo \<or> s = lo + 1" and r: "readsBack q k s"
    using assms(1) unfolding bestDigits_def Let_def lo_def [symmetric] by (auto split: if_splits)
  moreover have "10 ^ (k - 1) \<le> lo" "lo < 10 ^ k" unfolding lo_def by (rule scaled_floor [OF assms(2,3)])+
  ultimately show "10 ^ (k - 1) \<le> s" "s \<le> 10 ^ k" by auto
  show "readsBack q k s" by (rule r)
qed

lemma shortest_digits_reads:
  assumes "double q" and "0 < q"
  obtains s n k where "shortest_digits q = Some (s, n)" and "0 < k" and "10 ^ (k - 1) \<le> s" and "s < 10 ^ k"
    and "js_round (of_nat s * 10 powi (n - int k)) = Fin q"
proof -
  have "17 \<in> set [1..<18]" by simp
  then have "List.find (\<lambda>k. bestDigits q k \<noteq> None) [1..<18] \<noteq> None"
    using best17 [OF assms] unfolding find_None_iff by blast
  then obtain k where k: "List.find (\<lambda>k. bestDigits q k \<noteq> None) [1..<18] = Some k" by blast
  then obtain s where s: "bestDigits q k = Some s" and "0 < k" by (auto simp: find_Some_iff)
  have best: "shortest_digits q = (if s = 10 ^ k then Some (10 ^ (k - 1), decimal_point q + 1) else Some (s, decimal_point q))"
    unfolding shortest_digits_best k by (simp add: s)
  note B = bestDigits_Some [OF s assms(2) \<open>0 < k\<close>]
  show thesis
  proof (cases "s = 10 ^ k")
    case True
    have "of_nat (10 ^ (k - 1)) * 10 powi (decimal_point q + 1 - int k) = (of_nat s :: rat) * 10 powi (decimal_point q - int k)"
    proof -
      have "(10::rat) powi (decimal_point q + 1 - int k) = 10 * 10 powi (decimal_point q - int k)"
        using power_int_add [of "10::rat" 1 "decimal_point q - int k"] by (simp add: algebra_simps)
      moreover have "(10::rat) ^ k = 10 ^ (k - 1) * 10" using \<open>0 < k\<close> by (simp flip: power_Suc2)
      ultimately show ?thesis by (simp add: True)
    qed
    then show thesis
      using that [of "10 ^ (k - 1)" "decimal_point q + 1" k] B(3) \<open>0 < k\<close> True
      by (simp add: best readsBack_def)
  next
    case False
    then show thesis using that [of s "decimal_point q" k] B \<open>0 < k\<close> by (simp add: best readsBack_def)
  qed
qed

lemma length_js_decimal:
  assumes "10 ^ k \<le> s \<or> k = 0" and "s < 10 ^ Suc k"
  shows "length (js_decimal s) = Suc k"
  using assms
proof (induction k arbitrary: s)
  case 0
  then show ?case by (simp add: js_decimal.simps)
next
  case (Suc k)
  have "10 ^ Suc k \<le> s" using Suc.prems(1) by simp
  moreover have "(10::nat) \<le> 10 ^ Suc k" using power_increasing [of 1 "Suc k" "10::nat"] by (simp del: power_Suc)
  ultimately have "\<not> s < 10" unfolding not_less by (rule order.trans [rotated])
  moreover have "10 ^ k \<le> s div 10" "s div 10 < 10 ^ Suc k" using Suc.prems by (simp_all add: less_eq_div_iff_mult_less_eq div_less_iff_less_mult)
  ultimately show ?case using Suc.IH [of "s div 10"] by (simp add: js_decimal.simps [of s])
qed

section \<open>Reading the digits\<close>

lemma takeWhile_digits:
  assumes "list_all is_digit a" and "r = [] \<or> \<not> is_digit (hd r)"
  shows "takeWhile is_digit (a @ r) = a" "dropWhile is_digit (a @ r) = r"
proof -
  have "\<forall>c \<in> set a. is_digit c" using assms(1) by (simp add: list_all_iff)
  then show "takeWhile is_digit (a @ r) = a" "dropWhile is_digit (a @ r) = r"
    using assms(2) by (cases r; simp)+
qed

lemma unsignedDecimal_whole:
  assumes "list_all is_digit a" and "a \<noteq> []" and "r = [] \<or> \<not> is_digit (hd r) \<and> hd r \<noteq> 46"
  shows "unsignedDecimal (a @ r) = map_option (\<lambda>e. of_nat (js_parseInt a) * 10 powi e) (readExponent r)"
proof -
  have T: "takeWhile is_digit (a @ r) = a" "dropWhile is_digit (a @ r) = r"
    using assms takeWhile_digits [of a r] by auto
  show ?thesis unfolding unsignedDecimal_def T Let_def using assms(2,3) by (cases r) auto
qed

lemma unsignedDecimal_point:
  assumes "list_all is_digit a" and "a \<noteq> []" and "list_all is_digit b" and "r = [] \<or> \<not> is_digit (hd r)"
  shows "unsignedDecimal (a @ 46 # b @ r) =
    map_option (\<lambda>e. of_nat (js_parseInt (a @ b)) * 10 powi (e - int (length b))) (readExponent r)"
proof -
  have "\<not> is_digit 46" by (simp add: is_digit_def)
  then show ?thesis
    using assms takeWhile_digits [of a "46 # b @ r"] takeWhile_digits [of b r] by (simp add: unsignedDecimal_def Let_def)
qed

lemma js_parseInt_zeros: "js_parseInt (ds @ replicate m 48) = js_parseInt ds * 10 ^ m"
proof (induction m)
  case (Suc m)
  have "ds @ replicate (Suc m) 48 = (ds @ replicate m 48) @ [48]" by (simp flip: replicate_append_same)
  with Suc show ?case by (simp only: js_parseInt_snoc) simp
qed simp

lemma js_parseInt_leading: "js_parseInt (replicate m 48 @ ds) = js_parseInt ds"
  by (simp add: js_parseInt_def, induction m) simp_all

lemma readExponent_Nil [simp]: "readExponent [] = Some 0"
  by (simp add: readExponent_def)

lemma readExponent_text:
  "readExponent ([101, if e < 0 then 45 else 43] @ js_decimal (nat \<bar>e\<bar>)) = Some e"
  using js_decimal_digits [of _ "nat \<bar>e\<bar>"] by (auto simp: readExponent_def list_all_iff)

lemma format_digits_reads:
  assumes "list_all is_digit ds" and "ds \<noteq> []"
  shows "unsignedDecimal (format_digits ds n) = Some (of_nat (js_parseInt ds) * 10 powi (n - int (length ds)))"
proof -
  define k where "k = int (length ds)"
  have digit48: "is_digit 48" by (simp add: is_digit_def)
  consider (whole) "k \<le> n \<and> n \<le> 21" | (point) "\<not> (k \<le> n \<and> n \<le> 21)" "0 < n \<and> n \<le> 21"
    | (small) "- 6 < n \<and> n \<le> 0" | (exponent) "\<not> (k \<le> n \<and> n \<le> 21)" "\<not> (0 < n \<and> n \<le> 21)" "\<not> (- 6 < n \<and> n \<le> 0)"
    by blast
  then show ?thesis
  proof cases
    case whole
    have "list_all is_digit (ds @ replicate (nat (n - k)) 48)" using assms(1) digit48 by (auto simp: list_all_iff)
    from unsignedDecimal_whole [OF this, of "[]"] whole assms(2) show ?thesis
      by (simp add: format_digits_def k_def js_parseInt_zeros power_int_def)
  next
    case point
    define m where "m = nat n"
    have m: "0 < m" "m < length ds" "n = int m" using point by (auto simp: m_def k_def)
    have "list_all is_digit (take m ds)" "list_all is_digit (drop m ds)"
      using assms(1) by (auto simp: list_all_iff dest: in_set_takeD in_set_dropD)
    from unsignedDecimal_point [OF this(1) _ this(2), of "[]"] point m assms(2) show ?thesis
      by (auto simp: format_digits_def k_def of_nat_diff)
  next
    case small
    have "list_all is_digit [48]" "list_all is_digit (replicate (nat (- n)) 48 @ ds)"
      using assms(1) digit48 by (auto simp: list_all_iff)
    from unsignedDecimal_point [OF this(1) _ this(2), of "[]"] small assms(2) show ?thesis
      using js_parseInt_leading [of "Suc (nat (- n))" ds]
      by (cases ds) (simp_all add: format_digits_def k_def diff_diff_eq add.commute)
  next
    case exponent
    define ex where "ex = [101, if n - 1 < 0 then 45 else 43] @ js_decimal (nat \<bar>n - 1\<bar>)"
    have ex: "readExponent ex = Some (n - 1)" unfolding ex_def by (rule readExponent_text)
    have fmt: "format_digits ds n = (if k = 1 then ds @ ex else hd ds # 46 # tl ds @ ex)"
      unfolding format_digits_def Let_def k_def [symmetric] ex_def [symmetric] by (simp only: exponent if_False)
    have hd: "\<not> is_digit (hd ex)" "hd ex \<noteq> 46" by (simp_all add: ex_def is_digit_def)
    show ?thesis
    proof (cases "k = 1")
      case True
      then have "format_digits ds n = ds @ ex" by (simp add: fmt)
      with unsignedDecimal_whole [OF assms, of ex] hd ex True show ?thesis by (simp add: k_def)
    next
      case False
      then have "format_digits ds n = [hd ds] @ 46 # tl ds @ ex" by (simp add: fmt)
      moreover have "list_all is_digit [hd ds]" "list_all is_digit (tl ds)" "[hd ds] @ tl ds = ds" "int (length (tl ds)) = k - 1"
        using assms by (cases ds; simp add: k_def)+
      ultimately show ?thesis using unsignedDecimal_point [of "[hd ds]" "tl ds" ex] hd ex by (simp add: k_def)
    qed
  qed
qed

lemma positiveText_reads:
  assumes "double q" and "0 < q"
  obtains v where "unsignedDecimal (js_positiveText q) = Some v" and "js_round v = Fin q"
proof -
  obtain s n k where s: "shortest_digits q = Some (s, n)" and k: "0 < k" "10 ^ (k - 1) \<le> s" "s < 10 ^ k"
    and r: "js_round (of_nat s * 10 powi (n - int k)) = Fin q"
    by (rule shortest_digits_reads [OF assms])
  have "length (js_decimal s) = k" using length_js_decimal [of "k - 1" s] k by simp
  moreover have "list_all is_digit (js_decimal s)" using js_decimal_digits by (auto simp: list_all_iff)
  ultimately have "unsignedDecimal (js_positiveText q) = Some (of_nat s * 10 powi (n - int k))"
    using format_digits_reads [of "js_decimal s" n] by (simp add: js_positiveText_def s)
  then show thesis using r by (rule that)
qed

text \<open>\<open>Number(String(x))\<close> is \<open>x\<close>, and the text is a numeric literal.\<close>

lemma numberText_literal:
  assumes "double q" and "0 \<le> q"
  shows "isNumericLiteral (js_numberText (Fin q)) \<and> hd (js_numberText (Fin q)) \<noteq> 45 \<and> numberOf (js_numberText (Fin q)) = Fin q"
proof -
  obtain v where v: "unsignedDecimal (js_numberText (Fin q)) = Some v" "js_round v = Fin q"
  proof (cases "q = 0")
    case True
    then show thesis using that [of 0] unsignedDecimal_whole [of "[48]" "[]"]
      by (simp add: is_digit_def js_parseInt_def js_round_def)
  next
    case False
    then show thesis using that positiveText_reads [of q] assms by auto
  qed
  define t where "t = js_numberText (Fin q)"
  have units: "list_all num_unit t" "t \<noteq> []" using unsignedDecimal_units [OF v(1)] by (simp_all add: t_def)
  have hd: "hd t = 46 \<or> is_digit (hd t)"
  proof -
    obtain c r where c: "t = c # r" using units(2) by (cases t) auto
    then show ?thesis using v(1) [folded t_def] by (auto simp: unsignedDecimal_def Let_def readExponent_def split: if_splits)
  qed
  then have sign: "hd t \<noteq> 45" "hd t \<noteq> 43" "hd t \<noteq> 73" by (auto simp: is_digit_def)
  have trim: "js_trim t = t" using units(1) num_unit_not_ws by (intro js_trim_no_ws) (auto simp: list_all_iff)
  have "t \<noteq> lit ''Infinity''" using sign(3) by (auto simp: js_eval)
  then have "numberOf t = Fin q"
    using sign(1,2) units(2) trim v [folded t_def] by (cases t) (simp_all add: numberOf_def)
  moreover have "isNumericLiteral t"
    using sign(1) units(2) v(1) [folded t_def] by (cases t) (simp_all add: isNumericLiteral_def)
  ultimately show ?thesis using sign(1) by (simp add: t_def)
qed

end
