(* ===== verification/TaskExpr.thy ===== *)
theory TaskExpr
  imports NumberText RequestRules
begin

text \<open>
  Task prices: the expressions of \<^verbatim>\<open>web/src/features/pricing/lib/task-expr.ts\<close>, their reader in
  \<^verbatim>\<open>billing-expr.ts\<close> of the same directory, and the display of \<^verbatim>\<open>task-matrix-display.ts\<close>.

  A plugin declares a schema of usage fields. A price is a list of tiers, each with conditions on the
  fields that have enumerated values, a constant and a price per unit of the numeric fields; the
  last tier is the fallback. It is stored as a text such as
  \<open>u("size") == "hd" ? tier("hd", u("seconds") * 2) : tier("base", u("seconds") * 1)\<close>. The editor also
  shows it as a matrix with a row for every combination of enumerated values.

  A schema is listed in the order of \<open>Object.entries\<close>. \<open>lc\<close> is \<open>localeCompare\<close>. A lookup in a \<open>Record\<close>
  finds own members only, so a numeric field should not be named like a member of \<open>Object.prototype\<close>;
  the \<open>in\<close> of the reader does see those members. Records that the code builds keep the order in which
  their members were added, which JavaScript does for names that are not indices. Each loop over a text with its flags \<open>quoted\<close> and
  \<open>escaped\<close> is a recursion with the pair of flags as an argument.
\<close>

section \<open>Data\<close>

datatype usage_unit = SecondU | CountU | TokenU | CreditU

datatype usage_type = NumberT | BooleanT

record usage_field =
  uf_type :: "usage_type option"
  uf_unit :: "usage_unit option"
  uf_enum :: "jstring list option"

type_synonym usage_schema = "(jstring \<times> usage_field) list"
type_synonym task_condition = "jstring \<times> jstring"
type_synonym price_map = "(jstring \<times> jsnum) list"
type_synonym combination = "(jstring \<times> jstring) list"
type_synonym compare = "jstring \<Rightarrow> jstring \<Rightarrow> int"

record task_tier =
  tt_label :: jstring
  tt_conditions :: "task_condition list"
  tt_constant :: jsnum
  tt_unitPrices :: price_map

record task_row =
  tr_combination :: combination
  tr_constant :: jsnum
  tr_unitPrices :: price_map

datatype usage_fact = TextF jstring | NumberF jsnum

record usage_example =
  ue_label :: jstring
  ue_facts :: "(jstring \<times> usage_fact) list"

datatype preview_part = ConstantPart jsnum | UsagePart jstring jsnum jsnum jsnum \<comment> \<open>field, amount, quantity, price\<close>

record task_preview =
  tp_tier :: task_tier
  tp_total :: jsnum
  tp_parts :: "preview_part list"

section \<open>Scanning\<close>

text \<open>\<open>/^v(\d+):([\s\S]*)$/\<close>.\<close>

definition stripExprVersion :: "jstring \<Rightarrow> jsnum \<times> jstring" where
  "stripExprVersion exprStr =
     (case stripPrefix [118] exprStr of
        None \<Rightarrow> (Fin 1, exprStr)
      | Some r \<Rightarrow>
          (let ds = takeWhile is_digit r
           in if ds = [] then (Fin 1, exprStr)
              else case stripPrefix [58] (dropWhile is_digit r) of
                None \<Rightarrow> (Fin 1, exprStr)
              | Some body \<Rightarrow> (numberOf ds, body)))"

text \<open>The flags after a code unit inside quotes.\<close>

definition quoteStep :: "code_unit \<Rightarrow> bool \<Rightarrow> bool \<times> bool" where
  "quoteStep c escaped = (if escaped then (True, False) else if c = 92 then (True, True) else (c \<noteq> 34, False))"

fun findTop :: "code_unit \<Rightarrow> int \<Rightarrow> bool \<times> bool \<Rightarrow> jstring \<Rightarrow> nat option" where
  "findTop target depth flags [] = None"
| "findTop target depth (quoted, escaped) (c # s) =
     (if quoted then map_option Suc (findTop target depth (quoteStep c escaped) s)
      else if c = 34 then map_option Suc (findTop target depth (True, escaped) s)
      else if c = 40 then map_option Suc (findTop target (depth + 1) (quoted, escaped) s)
      else if c = 41 then
        (if depth - 1 < 0 then None else map_option Suc (findTop target (depth - 1) (quoted, escaped) s))
      else if depth = 0 \<and> c = target then Some 0
      else map_option Suc (findTop target depth (quoted, escaped) s))"

definition findTaskTopLevelCharacter :: "jstring \<Rightarrow> code_unit \<Rightarrow> nat \<Rightarrow> nat option" where
  "findTaskTopLevelCharacter expression target start =
     map_option (\<lambda>i. start + i) (findTop target 0 (False, False) (drop start expression))"

fun findColon :: "int \<Rightarrow> int \<Rightarrow> bool \<times> bool \<Rightarrow> jstring \<Rightarrow> nat option" where
  "findColon depth ternaryDepth flags [] = None"
| "findColon depth ternaryDepth (quoted, escaped) (c # s) =
     (if quoted then map_option Suc (findColon depth ternaryDepth (quoteStep c escaped) s)
      else if c = 34 then map_option Suc (findColon depth ternaryDepth (True, escaped) s)
      else if c = 40 then map_option Suc (findColon (depth + 1) ternaryDepth (quoted, escaped) s)
      else if c = 41 then
        (if depth - 1 < 0 then None else map_option Suc (findColon (depth - 1) ternaryDepth (quoted, escaped) s))
      else if depth \<noteq> 0 then map_option Suc (findColon depth ternaryDepth (quoted, escaped) s)
      else if c = 63 then map_option Suc (findColon depth (ternaryDepth + 1) (quoted, escaped) s)
      else if c \<noteq> 58 then map_option Suc (findColon depth ternaryDepth (quoted, escaped) s)
      else if ternaryDepth = 0 then Some 0
      else map_option Suc (findColon depth (ternaryDepth - 1) (quoted, escaped) s))"

definition findTaskTernaryColon :: "jstring \<Rightarrow> nat \<Rightarrow> nat option" where
  "findTaskTernaryColon expression questionIndex =
     map_option (\<lambda>i. questionIndex + 1 + i) (findColon 0 0 (False, False) (drop (questionIndex + 1) expression))"

datatype task_operator = AndOp | PlusOp

text \<open>The loop of \<open>splitTaskTopLevel\<close>: \<open>acc\<close> is the text since \<open>start\<close>, \<open>prev\<close> the code unit at
  \<open>index - 1\<close>.\<close>

fun splitTask :: "task_operator \<Rightarrow> int \<Rightarrow> bool \<times> bool \<Rightarrow> code_unit option \<Rightarrow> jstring \<Rightarrow> jstring \<Rightarrow> jstring list" where
  "splitTask op depth flags prev acc [] = [js_trim acc]"
| "splitTask op depth (quoted, escaped) prev acc (c # s) =
     (if quoted then splitTask op depth (quoteStep c escaped) (Some c) (acc @ [c]) s
      else if c = 34 then splitTask op depth (True, escaped) (Some c) (acc @ [c]) s
      else if c = 40 then splitTask op (depth + 1) (quoted, escaped) (Some c) (acc @ [c]) s
      else if c = 41 then splitTask op (depth - 1) (quoted, escaped) (Some c) (acc @ [c]) s
      else if depth \<noteq> 0 then splitTask op depth (quoted, escaped) (Some c) (acc @ [c]) s
      else if op = AndOp \<and> c = 38 \<and> s \<noteq> [] \<and> hd s = 38 then
        js_trim acc # splitTask op depth (quoted, escaped) (Some 38) [] (tl s)
      else if op = PlusOp \<and> c = 43 \<and> prev \<noteq> Some 101 \<and> prev \<noteq> Some 69 then
        js_trim acc # splitTask op depth (quoted, escaped) (Some c) [] s
      else splitTask op depth (quoted, escaped) (Some c) (acc @ [c]) s)"

definition splitTaskTopLevel :: "jstring \<Rightarrow> task_operator \<Rightarrow> jstring list" where
  "splitTaskTopLevel expression op = filter (\<lambda>p. p \<noteq> []) (splitTask op 0 (False, False) None [] expression)"

section \<open>Reading tiers\<close>

text \<open>\<open>"(?:[^"\\]|\\.)*"\<close> at the start of a text, after its opening quote: the rest of the literal and
  the rest of the text.\<close>

fun quotedSpan :: "jstring \<Rightarrow> (jstring \<times> jstring) option" where
  "quotedSpan [] = None"
| "quotedSpan (c # s) =
     (if c = 34 then Some ([34], s)
      else if c = 92 then
        (case s of
           [] \<Rightarrow> None
         | e # s' \<Rightarrow> if line_terminator e then None else map_option (\<lambda>(q, r). (c # e # q, r)) (quotedSpan s'))
      else map_option (\<lambda>(q, r). (c # q, r)) (quotedSpan s))"

definition quotedToken :: "jstring \<Rightarrow> (jstring \<times> jstring) option" where
  "quotedToken s = do { r \<leftarrow> stripPrefix [34] s; (q, r) \<leftarrow> quotedSpan r; Some (34 # q, r) }"

text \<open>\<open>u\(\s*("...")\s*\)\s*\<close> at the start of a text.\<close>

definition usageCall :: "jstring \<Rightarrow> (jstring \<times> jstring) option" where
  "usageCall s =
     do {
       r \<leftarrow> stripPrefix (lit ''u('') s;
       (q, r) \<leftarrow> quotedToken (js_trimStart r);
       r \<leftarrow> stripPrefix [41] (js_trimStart r);
       Some (q, js_trimStart r)
     }"

definition usageEquality :: "jstring \<Rightarrow> (jstring \<times> jstring) option" where
  "usageEquality part =
     do {
       (f, r) \<leftarrow> usageCall part;
       r \<leftarrow> stripPrefix (lit ''=='') r;
       (v, r) \<leftarrow> quotedToken (js_trimStart r);
       if r = [] then Some (f, v) else None
     }"

definition enumValues :: "usage_schema \<Rightarrow> jstring \<Rightarrow> jstring list" where
  "enumValues schema field =
     (case map_of schema field of None \<Rightarrow> [] | Some d \<Rightarrow> (case uf_enum d of None \<Rightarrow> [] | Some vs \<Rightarrow> vs))"

definition parseTaskCondition :: "usage_schema \<Rightarrow> jstring \<Rightarrow> task_condition option" where
  "parseTaskCondition schema part =
     do {
       (f, v) \<leftarrow> usageEquality part;
       field \<leftarrow> json_unquote f;
       value \<leftarrow> json_unquote v;
       if value \<in> set (enumValues schema field) then Some (field, value) else None
     }"

definition parseTaskConditions :: "jstring \<Rightarrow> usage_schema \<Rightarrow> task_condition list option" where
  "parseTaskConditions expression schema =
     (case those (map (parseTaskCondition schema) (splitTaskTopLevel expression AndOp)) of
        Some (c # cs) \<Rightarrow> Some (c # cs)
      | _ \<Rightarrow> None)"

text \<open>\<open>scaledMatch\<close> and \<open>bareMatch\<close>: the literal of the field, the number, and whether it is scaled.\<close>

definition usageTerm :: "jstring \<Rightarrow> (jstring \<times> jstring \<times> bool) option" where
  "usageTerm t =
     do {
       (f, r) \<leftarrow> usageCall t;
       r \<leftarrow> stripPrefix [42] r;
       (let n = takeWhile num_unit (js_trimStart r); r = dropWhile num_unit (js_trimStart r)
        in if \<not> isNumericLiteral n then None
           else if r = [] then Some (f, n, False)
           else do {
             r \<leftarrow> stripPrefix [47] (js_trimStart r);
             if js_trimStart r = lit ''1000000'' then Some (f, n, True) else None
           })
     }"

definition badPrice :: "jsnum \<Rightarrow> bool" where
  "badPrice v \<longleftrightarrow> \<not> num_isFinite v \<or> num_less v (Fin 0)"

text \<open>The condition of the source under which a term is rejected.\<close>

definition acceptsTerm :: "usage_schema \<Rightarrow> price_map \<Rightarrow> jstring \<Rightarrow> jsnum \<Rightarrow> bool \<Rightarrow> bool" where
  "acceptsTerm schema unitPrices field v scaled \<longleftrightarrow>
     (case map_of schema field of
        None \<Rightarrow> False
      | Some d \<Rightarrow> uf_type d = Some NumberT \<and> uf_unit d \<noteq> None \<and> field \<notin> set (map fst unitPrices) \<and>
          field \<notin> set objectPrototypeMembers \<and> \<not> badPrice v \<and> (scaled \<longleftrightarrow> uf_unit d = Some TokenU))"

fun parseTerms :: "usage_schema \<Rightarrow> jsnum option \<Rightarrow> price_map \<Rightarrow> jstring list \<Rightarrow> (jsnum option \<times> price_map) option" where
  "parseTerms schema constant unitPrices [] = Some (constant, unitPrices)"
| "parseTerms schema constant unitPrices (t # ts) =
     (if isNumericLiteral t then
        (if constant \<noteq> None \<or> badPrice (numberOf t) then None
         else parseTerms schema (Some (numberOf t)) unitPrices ts)
      else
        do {
          (f, n, scaled) \<leftarrow> usageTerm t;
          field \<leftarrow> json_unquote f;
          if acceptsTerm schema unitPrices field (numberOf n) scaled
          then parseTerms schema constant (unitPrices @ [(field, numberOf n)]) ts
          else None
        })"

definition parseTaskTierCall :: "jstring \<Rightarrow> task_condition list \<Rightarrow> usage_schema \<Rightarrow> task_tier option" where
  "parseTaskTierCall expression conds schema =
     (let trimmed = js_trim expression; inner = butlast (drop 5 trimmed)
      in if \<not> js_startsWith trimmed (lit ''tier('') \<or> \<not> js_endsWith trimmed [41] then None
         else do {
           comma \<leftarrow> findTaskTopLevelCharacter inner 44 0;
           label \<leftarrow> json_unquote (js_trim (take comma inner));
           (constant, unitPrices) \<leftarrow> parseTerms schema None [] (splitTaskTopLevel (drop (comma + 1) inner) PlusOp);
           if unitPrices = [] then None
           else Some \<lparr>tt_label = label, tt_conditions = conds,
                  tt_constant = (case constant of None \<Rightarrow> Fin 0 | Some v \<Rightarrow> v), tt_unitPrices = unitPrices\<rparr>
         })"

text \<open>The \<open>while\<close> loop over the alternatives.\<close>

function parseTiers :: "usage_schema \<Rightarrow> jstring \<Rightarrow> task_tier list option" where
  "parseTiers schema remaining =
     (if remaining = [] then Some []
      else case findTaskTopLevelCharacter remaining 63 0 of
        None \<Rightarrow> map_option (\<lambda>t. [t]) (parseTaskTierCall remaining [] schema)
      | Some q \<Rightarrow>
          (case findTaskTernaryColon remaining q of
             None \<Rightarrow> None
           | Some k \<Rightarrow>
               (case parseTaskConditions (js_trim (take q remaining)) schema of
                  None \<Rightarrow> None
                | Some conds \<Rightarrow>
                    (case parseTaskTierCall (js_trim (js_slice remaining (q + 1) k)) conds schema of
                       None \<Rightarrow> None
                     | Some t \<Rightarrow> map_option (\<lambda>ts. t # ts) (parseTiers schema (js_trim (drop (k + 1) remaining)))))))"
  by pat_completeness auto
termination
proof (relation "measure (\<lambda>(schema, remaining). length remaining)", simp, goal_cases)
  case (1 schema remaining q k)
  have "length (js_trim (drop (k + 1) remaining)) \<le> length (drop (k + 1) remaining)" by (rule length_js_trim)
  with 1 show ?case by (cases remaining) auto
qed

declare parseTiers.simps [simp del]

definition parseTaskTiersFromExpr ::
  "(jstring \<Rightarrow> jstring option) \<Rightarrow> jstring \<Rightarrow> usage_schema option \<Rightarrow> task_tier list" where
  "parseTaskTiersFromExpr other exprStr schema =
     (case schema of
        None \<Rightarrow> []
      | Some schema \<Rightarrow>
          if exprStr = [] \<or> schema = [] then []
          else (case splitBillingExprAndRequestRules other exprStr of
                  Threw \<Rightarrow> []
                | Gave (billingExpr, _) \<Rightarrow>
                    (case parseTiers schema (js_trim (snd (stripExprVersion billingExpr))) of None \<Rightarrow> [] | Some ts \<Rightarrow> ts)))"

section \<open>Schemas and defaults\<close>

definition byName :: "compare \<Rightarrow> jstring \<times> 'a \<Rightarrow> jstring \<times> 'a \<Rightarrow> int" where
  "byName lc l r = lc (fst l) (fst r)"

definition getTaskNumberFields :: "compare \<Rightarrow> usage_schema \<Rightarrow> usage_schema" where
  "getTaskNumberFields lc schema =
     js_sort (byName lc) (filter (\<lambda>(_, d). uf_type d = Some NumberT \<and> uf_unit d \<noteq> None) schema)"

definition getTaskEnumFields :: "compare \<Rightarrow> usage_schema \<Rightarrow> usage_schema" where
  "getTaskEnumFields lc schema =
     js_sort (byName lc) (filter (\<lambda>(_, d). uf_enum d \<noteq> None \<and> uf_enum d \<noteq> Some []) schema)"

definition fieldEnum :: "usage_field \<Rightarrow> jstring list" where
  "fieldEnum d = (case uf_enum d of None \<Rightarrow> [] | Some vs \<Rightarrow> vs)"

definition extendCombinations :: "jstring \<times> usage_field \<Rightarrow> combination list \<Rightarrow> combination list" where
  "extendCombinations entry combinations =
     concat (map (\<lambda>combination. map (\<lambda>value. AList.update (fst entry) value combination) (fieldEnum (snd entry))) combinations)"

definition getTaskEnumCombinations :: "compare \<Rightarrow> usage_schema \<Rightarrow> combination list" where
  "getTaskEnumCombinations lc schema = fold extendCombinations (getTaskEnumFields lc schema) [[]]"

text \<open>\<open>Object.fromEntries\<close>.\<close>

definition fromEntries :: "(jstring \<times> 'a) list \<Rightarrow> (jstring \<times> 'a) list" where
  "fromEntries es = fold (\<lambda>(k, v). AList.update k v) es []"

definition createDefaultTaskVisualConfig :: "compare \<Rightarrow> usage_schema \<Rightarrow> task_tier list" where
  "createDefaultTaskVisualConfig lc schema =
     [\<lparr>tt_label = lit ''base'', tt_conditions = [], tt_constant = Fin 0,
       tt_unitPrices = fromEntries (map (\<lambda>(field, _). (field, Fin 0)) (getTaskNumberFields lc schema))\<rparr>]"

definition createDefaultTaskMatrixConfig :: "compare \<Rightarrow> usage_schema \<Rightarrow> task_row list" where
  "createDefaultTaskMatrixConfig lc schema =
     (let unitPrices = fromEntries (map (\<lambda>(field, _). (field, Fin 0)) (getTaskNumberFields lc schema))
      in map (\<lambda>c. \<lparr>tr_combination = c, tr_constant = Fin 0, tr_unitPrices = unitPrices\<rparr>) (getTaskEnumCombinations lc schema))"

section \<open>The matrix\<close>

definition taskMatrixRowLabel :: "compare \<Rightarrow> combination \<Rightarrow> jstring" where
  "taskMatrixRowLabel lc c =
     (let values = map snd (js_sort (byName lc) c) in if values \<noteq> [] then js_join [183] values else lit ''base'')"

definition taskMatrixCombinationKey :: "combination \<Rightarrow> usage_schema \<Rightarrow> jstring" where
  "taskMatrixCombinationKey c enumFields =
     [91] @ js_join [44] (map (\<lambda>(field, _). case map_of c field of None \<Rightarrow> lit ''null'' | Some v \<Rightarrow> json_quote v) enumFields) @ [93]"

definition num_eq :: "jsnum \<Rightarrow> jsnum \<Rightarrow> bool" where
  "num_eq x y \<longleftrightarrow> x = y \<and> x \<noteq> NaN"

definition samePrice :: "jsnum option \<Rightarrow> jsnum option \<Rightarrow> bool" where
  "samePrice x y \<longleftrightarrow> (case (x, y) of (None, None) \<Rightarrow> True | (Some a, Some b) \<Rightarrow> num_eq a b | _ \<Rightarrow> False)"

definition priceOf :: "price_map \<Rightarrow> jstring \<Rightarrow> jsnum" where
  "priceOf ps field = (case map_of ps field of None \<Rightarrow> Fin 0 | Some v \<Rightarrow> v)"

definition fieldPrices :: "usage_schema \<Rightarrow> price_map \<Rightarrow> price_map" where
  "fieldPrices numberFields ps = fromEntries (map (\<lambda>(field, _). (field, priceOf ps field)) numberFields)"

definition isUniform :: "usage_schema \<Rightarrow> task_row \<Rightarrow> task_row list \<Rightarrow> bool" where
  "isUniform numberFields firstRow rows \<longleftrightarrow>
     list_all (\<lambda>row. num_eq (tr_constant row) (tr_constant firstRow) \<and>
       list_all (\<lambda>(field, _). samePrice (map_of (tr_unitPrices row) field) (map_of (tr_unitPrices firstRow) field)) numberFields) rows"

definition taskMatrixToTiers :: "compare \<Rightarrow> task_row list \<Rightarrow> usage_schema \<Rightarrow> task_tier list" where
  "taskMatrixToTiers lc rows schema =
     (let numberFields = getTaskNumberFields lc schema
      in if numberFields = [] \<or> rows = [] then []
         else if isUniform numberFields (hd rows) rows then
           [\<lparr>tt_label = lit ''base'', tt_conditions = [], tt_constant = tr_constant (hd rows),
             tt_unitPrices = fieldPrices numberFields (tr_unitPrices (hd rows))\<rparr>]
         else map (\<lambda>i. let row = rows ! i in
           \<lparr>tt_label = taskMatrixRowLabel lc (tr_combination row),
            tt_conditions = (if i = length rows - 1 then [] else js_sort (byName lc) (tr_combination row)),
            tt_constant = tr_constant row, tt_unitPrices = fieldPrices numberFields (tr_unitPrices row)\<rparr>) [0..<length rows])"

text \<open>The conditions of a tier as a \<open>Map\<close>, unless a field repeats or a value is not declared.\<close>

fun conditionMap :: "usage_schema \<Rightarrow> combination \<Rightarrow> task_condition list \<Rightarrow> combination option" where
  "conditionMap schema m [] = Some m"
| "conditionMap schema m ((field, value) # cs) =
     (if field \<in> set (map fst m) \<or> value \<notin> set (enumValues schema field) then None
      else conditionMap schema (m @ [(field, value)]) cs)"

definition tierKey :: "usage_schema \<Rightarrow> usage_schema \<Rightarrow> task_tier \<Rightarrow> jstring option" where
  "tierKey schema enumFields t =
     (if length (tt_conditions t) \<noteq> length enumFields then None
      else case conditionMap schema [] (tt_conditions t) of
        None \<Rightarrow> None
      | Some m \<Rightarrow>
          if length m \<noteq> length enumFields then None
          else Some (taskMatrixCombinationKey
            (fromEntries (map (\<lambda>(field, _). (field, case map_of m field of None \<Rightarrow> [] | Some v \<Rightarrow> v)) enumFields)) enumFields))"

fun keyTiers :: "usage_schema \<Rightarrow> usage_schema \<Rightarrow> (jstring \<times> task_tier) list \<Rightarrow> task_tier list \<Rightarrow> (jstring \<times> task_tier) list option" where
  "keyTiers schema enumFields m [] = Some m"
| "keyTiers schema enumFields m (t # ts) =
     (case tierKey schema enumFields t of
        None \<Rightarrow> None
      | Some key \<Rightarrow> if key \<in> set (map fst m) then None else keyTiers schema enumFields (m @ [(key, t)]) ts)"

definition matrixRow :: "usage_schema \<Rightarrow> combination \<Rightarrow> task_tier \<Rightarrow> task_row" where
  "matrixRow numberFields c t =
     \<lparr>tr_combination = c, tr_constant = tt_constant t, tr_unitPrices = fieldPrices numberFields (tt_unitPrices t)\<rparr>"

definition tryParseTaskMatrixConfig ::
  "(jstring \<Rightarrow> jstring option) \<Rightarrow> compare \<Rightarrow> jstring option \<Rightarrow> usage_schema \<Rightarrow> task_row list option" where
  "tryParseTaskMatrixConfig other lc expression schema =
     (let tiers = (case expression of None \<Rightarrow> [] | Some e \<Rightarrow> parseTaskTiersFromExpr other e (Some schema));
          enumFields = getTaskEnumFields lc schema; numberFields = getTaskNumberFields lc schema;
          combinations = getTaskEnumCombinations lc schema
      in if tiers = [] then None
         else if length tiers = 1 \<and> tt_conditions (hd tiers) = [] then
           Some (map (\<lambda>c. matrixRow numberFields c (hd tiers)) combinations)
         else if length tiers \<noteq> length combinations \<or> tt_conditions (last tiers) \<noteq> [] then None
         else do {
           m \<leftarrow> keyTiers schema enumFields [] (butlast tiers);
           (case filter (\<lambda>c. taskMatrixCombinationKey c enumFields \<notin> set (map fst m)) combinations of
              [missing] \<Rightarrow>
                (let m = AList.update (taskMatrixCombinationKey missing enumFields) (last tiers) m
                 in those (map (\<lambda>c. map_option (matrixRow numberFields c) (map_of m (taskMatrixCombinationKey c enumFields))) combinations))
            | _ \<Rightarrow> None)
         })"

definition getTaskMatrixDisplayTiers ::
  "(jstring \<Rightarrow> jstring option) \<Rightarrow> compare \<Rightarrow> jstring option \<Rightarrow> usage_schema option \<Rightarrow> task_tier list option" where
  "getTaskMatrixDisplayTiers other lc expression schema =
     (case schema of
        None \<Rightarrow> None
      | Some schema \<Rightarrow>
          if getTaskEnumFields lc schema = [] then None
          else map_option (map (\<lambda>row.
            \<lparr>tt_label = taskMatrixRowLabel lc (tr_combination row), tt_conditions = js_sort (byName lc) (tr_combination row),
             tt_constant = tr_constant row, tt_unitPrices = tr_unitPrices row\<rparr>)) (tryParseTaskMatrixConfig other lc expression schema))"

section \<open>Evaluation\<close>

text \<open>\<open>Number(s)\<close> for any text: decimal, or hexadecimal, octal and binary with a prefix.\<close>

definition radixOf :: "jstring \<Rightarrow> nat option" where
  "radixOf t =
     map_of [(lit ''0x'', 16), (lit ''0X'', 16), (lit ''0o'', 8), (lit ''0O'', 8), (lit ''0b'', 2), (lit ''0B'', 2)] (take 2 t)"

definition js_Number :: "jstring \<Rightarrow> jsnum" where
  "js_Number s =
     (let t = js_trim s
      in case radixOf t of
           None \<Rightarrow> numberOf s
         | Some b \<Rightarrow>
             (case those (map unhex (drop 2 t)) of
                Some (d # ds) \<Rightarrow>
                  if list_all (\<lambda>x. x < b) (d # ds) then js_round (of_nat (foldl (\<lambda>a x. b * a + x) 0 (d # ds))) else NaN
              | _ \<Rightarrow> NaN))"

definition factNumber :: "(jstring \<times> usage_fact) list \<Rightarrow> jstring \<Rightarrow> jsnum" where
  "factNumber sample field =
     (case map_of sample field of None \<Rightarrow> NaN | Some (NumberF v) \<Rightarrow> v | Some (TextF t) \<Rightarrow> js_Number t)"

definition tierMatches :: "(jstring \<times> usage_fact) list \<Rightarrow> task_tier \<Rightarrow> bool" where
  "tierMatches sample t \<longleftrightarrow> list_all (\<lambda>(field, value). map_of sample field = Some (TextF value)) (tt_conditions t)"

definition matchedTier :: "task_tier list \<Rightarrow> (jstring \<times> usage_fact) list \<Rightarrow> task_tier" where
  "matchedTier tiers sample =
     (case List.find (tierMatches sample) (butlast tiers) of Some t \<Rightarrow> t | None \<Rightarrow> last tiers)"

definition TASK_TOKEN_PRICE_SCALE :: int where
  "TASK_TOKEN_PRICE_SCALE = 1000000"

definition usageAmount :: "usage_schema option \<Rightarrow> jstring \<Rightarrow> jsnum \<Rightarrow> jsnum \<Rightarrow> jsnum" where
  "usageAmount schema field quantity unitPrice =
     (if (case schema of None \<Rightarrow> None | Some sc \<Rightarrow> Option.bind (map_of sc field) uf_unit) = Some TokenU
      then num_div (num_mul quantity unitPrice) (Fin (of_int TASK_TOKEN_PRICE_SCALE))
      else num_mul quantity unitPrice)"

fun addUsage ::
  "usage_schema option \<Rightarrow> (jstring \<times> usage_fact) list \<Rightarrow> preview_part list \<Rightarrow> jsnum \<Rightarrow> price_map \<Rightarrow> (preview_part list \<times> jsnum) option" where
  "addUsage schema sample parts acc [] = Some (parts, acc)"
| "addUsage schema sample parts acc ((field, unitPrice) # ps) =
     (if badPrice unitPrice then None
      else if unitPrice = Fin 0 then addUsage schema sample parts acc ps
      else
        let quantity = factNumber sample field; amount = usageAmount schema field quantity unitPrice
        in if badPrice quantity \<or> \<not> num_isFinite amount then None
           else addUsage schema sample (parts @ [UsagePart field amount quantity unitPrice]) (num_add acc amount) ps)"

definition evaluateTaskVisualConfig ::
  "task_tier list \<Rightarrow> (jstring \<times> usage_fact) list \<Rightarrow> usage_schema option \<Rightarrow> task_preview option" where
  "evaluateTaskVisualConfig tiers sample schema =
     (if tiers = [] then None
      else
        let t = matchedTier tiers sample; constant = tt_constant t
        in if badPrice constant then None
           else
             (case (if num_gt0 constant then addUsage schema sample [ConstantPart constant] (num_add (Fin 0) constant) (tt_unitPrices t)
                    else addUsage schema sample [] (Fin 0) (tt_unitPrices t)) of
                None \<Rightarrow> None
              | Some (parts, t') \<Rightarrow>
                  if \<not> num_isFinite t' then None else Some \<lparr>tp_tier = t, tp_total = t', tp_parts = parts\<rparr>))"

section \<open>Editing and printing\<close>

definition cleanPrice :: "jsnum \<Rightarrow> jsnum" where
  "cleanPrice v = (if badPrice v then Fin 0 else v)"

definition normalizeTaskTier :: "compare \<Rightarrow> usage_schema \<Rightarrow> nat \<Rightarrow> task_tier \<Rightarrow> task_tier" where
  "normalizeTaskTier lc schema i t =
     \<lparr>tt_label = (if tt_label t \<noteq> [] then tt_label t else if i = 0 then lit ''base'' else lit ''tier_'' @ js_decimal (i + 1)),
      tt_conditions = filter (\<lambda>(field, value). value \<in> set (enumValues (getTaskEnumFields lc schema) field)) (tt_conditions t),
      tt_constant = cleanPrice (tt_constant t),
      tt_unitPrices = fromEntries (map (\<lambda>field. (field, case map_of (tt_unitPrices t) field of None \<Rightarrow> Fin 0 | Some v \<Rightarrow> cleanPrice v))
        (js_uniq (map fst (getTaskNumberFields lc schema))))\<rparr>"

definition normalizeTaskVisualConfig :: "compare \<Rightarrow> task_tier list option \<Rightarrow> usage_schema \<Rightarrow> task_tier list" where
  "normalizeTaskVisualConfig lc config schema =
     (case config of
        Some (t # ts) \<Rightarrow> map (\<lambda>(i, t). normalizeTaskTier lc schema i t) (enumerate 0 (t # ts))
      | _ \<Rightarrow> createDefaultTaskVisualConfig lc schema)"

definition usageText :: "jstring \<Rightarrow> jstring" where
  "usageText field = lit ''u('' @ json_quote field @ [41]"

definition priceTerm :: "task_tier \<Rightarrow> jstring \<times> usage_field \<Rightarrow> jstring" where
  "priceTerm t entry =
     (let price = js_numberText (priceOf (tt_unitPrices t) (fst entry))
      in if uf_unit (snd entry) = Some TokenU
         then usageText (fst entry) @ lit '' * '' @ price @ lit '' / '' @ js_decimal (nat TASK_TOKEN_PRICE_SCALE)
         else usageText (fst entry) @ lit '' * '' @ price)"

definition generateTaskTierBody :: "task_tier \<Rightarrow> usage_schema \<Rightarrow> jstring" where
  "generateTaskTierBody t numberFields =
     js_join (lit '' + '') ((if num_gt0 (tt_constant t) then [js_numberText (tt_constant t)] else []) @ map (priceTerm t) numberFields)"

definition generateTaskTierCall :: "task_tier \<Rightarrow> usage_schema \<Rightarrow> jstring" where
  "generateTaskTierCall t numberFields =
     lit ''tier('' @ json_quote (tt_label t) @ lit '', '' @ generateTaskTierBody t numberFields @ [41]"

definition taskConditionText :: "task_condition \<Rightarrow> jstring" where
  "taskConditionText c = usageText (fst c) @ lit '' == '' @ json_quote (snd c)"

definition generateTaskCondition :: "task_condition list \<Rightarrow> jstring" where
  "generateTaskCondition cs = js_join (lit '' && '') (map taskConditionText cs)"

definition generateTaskExprFromConfig :: "compare \<Rightarrow> task_tier list option \<Rightarrow> usage_schema \<Rightarrow> jstring" where
  "generateTaskExprFromConfig lc config schema =
     (let numberFields = getTaskNumberFields lc schema; tiers = normalizeTaskVisualConfig lc config schema
      in if numberFields = [] then []
         else if length tiers = 1 then generateTaskTierCall (hd tiers) numberFields
         else if list_ex (\<lambda>t. generateTaskCondition (tt_conditions t) = []) (butlast tiers) then []
         else js_join (lit '' : '')
           (map (\<lambda>t. generateTaskCondition (tt_conditions t) @ lit '' ? '' @ generateTaskTierCall t numberFields) (butlast tiers)
            @ [generateTaskTierCall (last tiers) numberFields]))"

definition tryParseTaskVisualConfig ::
  "(jstring \<Rightarrow> jstring option) \<Rightarrow> compare \<Rightarrow> jstring option \<Rightarrow> usage_schema \<Rightarrow> task_tier list option" where
  "tryParseTaskVisualConfig other lc expression schema =
     (case expression of
        None \<Rightarrow> None
      | Some e \<Rightarrow>
          (let tiers = parseTaskTiersFromExpr other e (Some schema)
           in if e = [] \<or> tiers = [] then None else Some (normalizeTaskVisualConfig lc (Some tiers) schema)))"

text \<open>An exception of the splitter escapes.\<close>

definition evaluateTaskUsageExamples ::
  "(jstring \<Rightarrow> jstring option) \<Rightarrow> compare \<Rightarrow> jstring option \<Rightarrow> usage_schema option \<Rightarrow> usage_example list \<Rightarrow> (jstring \<times> jsnum) list attempt" where
  "evaluateTaskUsageExamples other lc expression schema examples =
     (case (expression, schema) of
        (Some (c # e), Some schema) \<Rightarrow>
          if examples = [] then Gave []
          else (case splitBillingExprAndRequestRules other (c # e) of
                  Threw \<Rightarrow> Threw
                | Gave (billingExpr, _) \<Rightarrow>
                    Gave (case tryParseTaskVisualConfig other lc (Some billingExpr) schema of
                            None \<Rightarrow> []
                          | Some config \<Rightarrow>
                              List.map_filter (\<lambda>ex. map_option (\<lambda>r. (ue_label ex, tp_total r))
                                (evaluateTaskVisualConfig config (ue_facts ex) (Some schema))) examples))
      | _ \<Rightarrow> Gave [])"

end
