(* ===== verification/TaskScan.thy ===== *)
theory TaskScan
  imports TaskExpr
begin

text \<open>
  How the scanners of the task expressions see a text that is put together from pieces.

  A \<open>segment\<close> is a text with closed quotes and parentheses that has no code unit of a given set
  outside of them. \<open>findTop\<close>, \<open>findColon\<close> and \<open>splitTask\<close> pass over a segment, so a concatenation is
  searched and split piece by piece.
\<close>

section \<open>Quoted literals\<close>

definition advance :: "nat \<Rightarrow> nat option \<Rightarrow> nat option" where
  "advance n x = map_option (\<lambda>i. n + i) x"

lemma advance_simps [simp]:
  "advance 0 x = x" "advance n None = None" "advance n (Some i) = Some (n + i)"
  "map_option Suc (advance n x) = advance (Suc n) x" "advance n (map_option Suc x) = advance (Suc n) x"
  "advance n (advance m x) = advance (n + m) x"
  by (cases x; simp add: advance_def)+

fun stays_quoted :: "bool \<Rightarrow> jstring \<Rightarrow> bool" where
  "stays_quoted e [] \<longleftrightarrow> \<not> e"
| "stays_quoted e (c # p) \<longleftrightarrow> fst (quoteStep c e) \<and> stays_quoted (snd (quoteStep c e)) p"

lemma stays_quoted_append: "stays_quoted e p \<Longrightarrow> stays_quoted False q \<Longrightarrow> stays_quoted e (p @ q)"
  by (induction p arbitrary: e) auto

lemma hex4_plain: "c \<in> set (hex4 x) \<Longrightarrow> c \<noteq> 34 \<and> c \<noteq> 92 \<and> \<not> line_terminator c"
proof -
  have "hex_unit d \<noteq> 34 \<and> hex_unit d \<noteq> 92 \<and> \<not> line_terminator (hex_unit d)" if "d < 16" for d
    using that by (auto simp: hex_unit_def line_terminator_def)
  moreover assume "c \<in> set (hex4 x)"
  ultimately show ?thesis by (auto simp: hex4_def)
qed

lemma stays_quoted_plain: "(\<And>c. c \<in> set p \<Longrightarrow> c \<noteq> 34 \<and> c \<noteq> 92) \<Longrightarrow> stays_quoted False p"
  by (induction p) (auto simp: quoteStep_def)

lemma stays_quoted_unit: "stays_quoted False (quote_unit c)"
  using stays_quoted_plain [of "hex4 c"] hex4_plain by (auto simp: quote_unit_def quoteStep_def)

lemma stays_quoted_units: "stays_quoted False (quote_units s)"
proof (induction s rule: quote_units.induct)
  case (3 c d s)
  then show ?case
    by (auto simp: stays_quoted_append stays_quoted_unit quoteStep_def high_surrogate_def low_surrogate_def)
qed (simp_all add: stays_quoted_unit)

lemma findTop_quoted:
  "stays_quoted e p \<Longrightarrow> findTop t d (True, e) (p @ r) = advance (length p) (findTop t d (True, False) r)"
proof (induction p arbitrary: e)
  case (Cons c p)
  then obtain e' where "quoteStep c e = (True, e')" "stays_quoted e' p" by (cases "quoteStep c e") auto
  then show ?case using Cons.IH by (simp)
qed simp

lemma findColon_quoted:
  "stays_quoted e p \<Longrightarrow> findColon d k (True, e) (p @ r) = advance (length p) (findColon d k (True, False) r)"
proof (induction p arbitrary: e)
  case (Cons c p)
  then obtain e' where "quoteStep c e = (True, e')" "stays_quoted e' p" by (cases "quoteStep c e") auto
  then show ?case using Cons.IH by (simp)
qed simp

lemma splitTask_quoted:
  "stays_quoted e p \<Longrightarrow>
    splitTask op d (True, e) prev acc (p @ r) = splitTask op d (True, False) (if p = [] then prev else Some (last p)) (acc @ p) r"
proof (induction p arbitrary: e prev acc)
  case (Cons c p)
  then obtain e' where "quoteStep c e = (True, e')" "stays_quoted e' p" by (cases "quoteStep c e") auto
  then show ?case using Cons.IH by simp
qed simp

section \<open>Segments\<close>

inductive segment :: "code_unit set \<Rightarrow> int \<Rightarrow> jstring \<Rightarrow> bool" for S where
  segment_Nil: "segment S d []"
| segment_unit: "c \<notin> {34, 40, 41} \<Longrightarrow> d \<noteq> 0 \<or> c \<notin> S \<Longrightarrow> segment S d p \<Longrightarrow> segment S d (c # p)"
| segment_quote: "stays_quoted False q \<Longrightarrow> segment S d p \<Longrightarrow> segment S d (34 # q @ 34 # p)"
| segment_paren: "0 \<le> d \<Longrightarrow> segment S (d + 1) q \<Longrightarrow> segment S d p \<Longrightarrow> segment S d (40 # q @ 41 # p)"

lemma segment_append: "segment S d p \<Longrightarrow> segment S d r \<Longrightarrow> segment S d (p @ r)"
proof (induction rule: segment.induct)
  case (segment_quote q d p)
  then show ?case using segment.segment_quote [of q S d "p @ r"] by simp
next
  case (segment_paren d q p)
  then show ?case using segment.segment_paren [of d S q "p @ r"] by simp
qed (auto intro: segment.intros)

lemma segment_plain: "(\<And>c. c \<in> set p \<Longrightarrow> c \<notin> {34, 40, 41} \<and> (d \<noteq> 0 \<or> c \<notin> S)) \<Longrightarrow> segment S d p"
  by (induction p) (auto intro: segment_Nil segment_unit)

lemma segment_json_quote: "segment S d (json_quote s)"
  using segment_quote [OF stays_quoted_units segment_Nil, of S d s] by (simp add: json_quote_def)

lemma segment_wrap: "0 \<le> d \<Longrightarrow> segment S (d + 1) q \<Longrightarrow> segment S d (40 # q @ [41])"
  using segment_paren [of d S q "[]"] segment_Nil by simp

lemma segment_join:
  assumes "\<And>p. p \<in> set ps \<Longrightarrow> segment S d p" and "segment S d sep"
  shows "segment S d (js_join sep ps)"
  using assms by (induction sep ps rule: js_join.induct) (auto intro: segment_append segment_Nil)

lemma findTop_segment:
  "segment S d p \<Longrightarrow> t \<in> S \<Longrightarrow>
    findTop t d (False, False) (p @ r) = advance (length p) (findTop t d (False, False) r)"
proof (induction arbitrary: r rule: segment.induct)
  case (segment_quote q d p)
  then show ?case by (simp add: findTop_quoted quoteStep_def)
next
  case (segment_paren d q p)
  then show ?case by simp
qed auto

lemma findColon_segment:
  "segment S d p \<Longrightarrow> {58, 63} \<subseteq> S \<Longrightarrow>
    findColon d k (False, False) (p @ r) = advance (length p) (findColon d k (False, False) r)"
proof (induction arbitrary: r rule: segment.induct)
  case (segment_quote q d p)
  then show ?case by (simp add: findColon_quoted quoteStep_def)
next
  case (segment_paren d q p)
  then show ?case by simp
qed auto

text \<open>What \<open>splitTask\<close> takes over whole.\<close>

definition opUnit :: "task_operator \<Rightarrow> code_unit" where
  "opUnit op = (case op of AndOp \<Rightarrow> 38 | PlusOp \<Rightarrow> 43)"

definition unsplit :: "task_operator \<Rightarrow> int \<Rightarrow> jstring \<Rightarrow> bool" where
  "unsplit op d p \<longleftrightarrow>
     (\<forall>prev acc r. splitTask op d (False, False) prev acc (p @ r) =
        splitTask op d (False, False) (if p = [] then prev else Some (last p)) (acc @ p) r)"

lemma unsplit_append: "unsplit op d p \<Longrightarrow> unsplit op d q \<Longrightarrow> unsplit op d (p @ q)"
  by (cases "p = []"; cases "q = []") (auto simp: unsplit_def)

lemma unsplit_segment: "segment S d p \<Longrightarrow> opUnit op \<in> S \<Longrightarrow> unsplit op d p"
proof (induction rule: segment.induct)
  case (segment_Nil d)
  then show ?case by (simp add: unsplit_def)
next
  case (segment_unit c d p)
  then have "\<not> (op = AndOp \<and> c = 38) \<or> d \<noteq> 0" "\<not> (op = PlusOp \<and> c = 43) \<or> d \<noteq> 0" by (auto simp: opUnit_def)
  with segment_unit show ?case by (auto simp: unsplit_def)
next
  case (segment_quote q d p)
  then show ?case by (simp add: unsplit_def splitTask_quoted quoteStep_def)
next
  case (segment_paren d q p)
  then show ?case by (simp add: unsplit_def)
qed

text \<open>In a number the sign of the exponent is the only plus.\<close>

fun plus_ok :: "code_unit option \<Rightarrow> jstring \<Rightarrow> bool" where
  "plus_ok prev [] \<longleftrightarrow> True"
| "plus_ok prev (c # s) \<longleftrightarrow> (c = 43 \<longrightarrow> prev = Some 101 \<or> prev = Some 69) \<and> plus_ok (Some c) s"

lemma plus_ok_append:
  "43 \<notin> set p \<Longrightarrow> plus_ok prev (p @ s) \<longleftrightarrow> plus_ok (if p = [] then prev else Some (last p)) s"
  by (induction p arbitrary: prev) auto

lemma digits_no_plus: "list_all is_digit p \<Longrightarrow> 43 \<notin> set p"
  by (auto simp: list_all_iff is_digit_def)

lemma plus_ok_digits: "list_all is_digit p \<Longrightarrow> plus_ok prev p"
  using plus_ok_append [of p prev "[]"] digits_no_plus by simp

lemma readExponent_plus_ok: "readExponent s = Some e \<Longrightarrow> plus_ok prev s"
  by (auto simp: readExponent_def Let_def plus_ok_digits split: list.splits if_splits prod.splits)

lemma takeWhile_is_digit: "list_all is_digit (takeWhile is_digit s)"
  by (auto simp: list_all_iff dest: set_takeWhileD)

lemma unsignedDecimal_plus_ok:
  assumes "unsignedDecimal s = Some q"
  shows "plus_ok prev s"
proof -
  define ip r where "ip = takeWhile is_digit s" and "r = dropWhile is_digit s"
  have s: "s = ip @ r" by (simp add: ip_def r_def)
  have "plus_ok prev' r" for prev'
  proof (cases r)
    case (Cons c r')
    show ?thesis
    proof (cases "c = 46")
      case True
      with assms Cons obtain e where "readExponent (dropWhile is_digit r') = Some e"
        by (auto simp: unsignedDecimal_def ip_def [symmetric] r_def [symmetric] Let_def split: if_splits)
      then have "plus_ok (Some c) (takeWhile is_digit r' @ dropWhile is_digit r')"
        unfolding plus_ok_append [OF digits_no_plus [OF takeWhile_is_digit]] by (rule readExponent_plus_ok)
      with Cons True show ?thesis by simp
    next
      case False
      with assms Cons obtain e where "readExponent r = Some e"
        by (auto simp: unsignedDecimal_def ip_def [symmetric] r_def [symmetric] Let_def split: if_splits)
      then show ?thesis by (rule readExponent_plus_ok)
    qed
  qed simp
  moreover have "43 \<notin> set ip" unfolding ip_def by (rule digits_no_plus [OF takeWhile_is_digit])
  ultimately show ?thesis unfolding s by (simp add: plus_ok_append)
qed

lemma splitTask_number:
  "plus_ok prev p \<Longrightarrow> list_all num_unit p \<Longrightarrow>
    splitTask PlusOp d (False, False) prev acc (p @ r) =
    splitTask PlusOp d (False, False) (if p = [] then prev else Some (last p)) (acc @ p) r"
proof (induction p arbitrary: prev acc)
  case (Cons c p)
  then have "c \<notin> {34, 40, 41}" "\<not> (c = 43 \<and> prev \<noteq> Some 101 \<and> prev \<noteq> Some 69)" by (auto simp: num_unit_def is_digit_def)
  then have "splitTask PlusOp d (False, False) prev acc ((c # p) @ r) = splitTask PlusOp d (False, False) (Some c) (acc @ [c]) (p @ r)"
    by auto
  with Cons show ?case by simp
qed simp

lemma unsplit_number:
  assumes "isNumericLiteral n" and "hd n \<noteq> 45"
  shows "unsplit PlusOp d n"
proof -
  obtain c m where n: "n = c # m" using numericLiteral_units [OF assms(1)] by (cases n) auto
  then obtain q where "unsignedDecimal n = Some q" using assms by (auto simp: isNumericLiteral_def)
  from unsignedDecimal_plus_ok [OF this] numericLiteral_units [OF assms(1)] show ?thesis
    by (simp add: unsplit_def splitTask_number)
qed

section \<open>Splitting a joined text\<close>

definition opText :: "task_operator \<Rightarrow> jstring" where
  "opText op = (case op of AndOp \<Rightarrow> lit '' && '' | PlusOp \<Rightarrow> lit '' + '')"

definition piece :: "task_operator \<Rightarrow> jstring \<Rightarrow> bool" where
  "piece op p \<longleftrightarrow> unsplit op 0 p \<and> p \<noteq> [] \<and> js_trim p = p"

lemma js_trim_around:
  assumes "\<forall>c \<in> set a. is_ws c" and "\<forall>c \<in> set b. is_ws c"
  shows "js_trim (a @ p @ b) = js_trim p"
proof -
  have "js_trimStart (a @ p @ b) = js_trimStart (p @ b)" using assms(1) by (simp add: js_trimStart_def dropWhile_append2)
  also have "js_trimEnd \<dots> = js_trimEnd (js_trimStart p)"
  proof (cases "\<forall>c \<in> set p. is_ws c")
    case True
    then have "js_trimStart (p @ b) = []" "js_trimStart p = []" using assms(2) by (auto simp: js_trimStart_def)
    then show ?thesis by simp
  next
    case False
    then have "js_trimStart (p @ b) = js_trimStart p @ b" by (auto simp: js_trimStart_def dropWhile_append1)
    moreover have "dropWhile is_ws (rev b @ x) = dropWhile is_ws x" for x using assms(2) by (intro dropWhile_append2) simp
    ultimately show ?thesis by (simp add: js_trimEnd_def)
  qed
  finally show ?thesis by (simp add: js_trim_def)
qed

lemma splitTask_operator:
  "splitTask op 0 (False, False) prev acc (opText op @ r) =
     js_trim (acc @ [32]) # splitTask op 0 (False, False) (Some 32) [32] r"
  by (cases op) (simp_all add: opText_def js_eval)

lemma splitTask_join:
  assumes "ps \<noteq> []" and "\<And>p. p \<in> set ps \<Longrightarrow> piece op p" and "\<forall>c \<in> set acc. is_ws c"
  shows "splitTask op 0 (False, False) prev acc (js_join (opText op) ps) = ps"
  using assms
proof (induction "opText op" ps arbitrary: prev acc rule: js_join.induct)
  case (2 w)
  then have "piece op w" by simp
  then have "splitTask op 0 (False, False) prev acc (w @ []) = [js_trim (acc @ w)]" by (simp only: piece_def unsplit_def splitTask.simps)
  with 2 js_trim_around [of acc "[]" w] show ?case by (simp add: piece_def)
next
  case (3 w v ws)
  have ws32: "\<forall>c \<in> set [32]. is_ws c" by (simp add: is_ws_def)
  have w: "piece op w" using 3 by simp
  then have "splitTask op 0 (False, False) prev acc (w @ opText op @ js_join (opText op) (v # ws)) =
      js_trim (acc @ w @ [32]) # splitTask op 0 (False, False) (Some 32) [32] (js_join (opText op) (v # ws))"
    using splitTask_operator by (simp add: piece_def unsplit_def)
  with 3 ws32 w js_trim_around [OF "3.prems"(3) ws32, of w] show ?case by (simp add: piece_def)
qed simp

lemma splitTaskTopLevel_join:
  assumes "ps \<noteq> []" and "\<And>p. p \<in> set ps \<Longrightarrow> piece op p"
  shows "splitTaskTopLevel (js_join (opText op) ps) op = ps" "splitTaskTopLevel (32 # js_join (opText op) ps) op = ps"
proof -
  have f: "filter (\<lambda>p. p \<noteq> []) ps = ps" using assms(2) by (intro filter_True) (auto simp: piece_def)
  show "splitTaskTopLevel (js_join (opText op) ps) op = ps"
    using splitTask_join [OF assms, of "[]"] f by (simp add: splitTaskTopLevel_def)
  have "splitTask op 0 (False, False) None [] (32 # r) = splitTask op 0 (False, False) (Some 32) [32] r" for r
    by simp
  then show "splitTaskTopLevel (32 # js_join (opText op) ps) op = ps"
    using splitTask_join [OF assms, of "[32]"] f by (simp add: splitTaskTopLevel_def is_ws_def)
qed

end
