(* ===== verification/TaskRoundtrip.thy ===== *)
theory TaskRoundtrip
  imports TaskScan
begin

text \<open>
  What the editor of task prices prints is read back as it was: pieces first (literals, conditions,
  terms, calls of \<open>tier\<close>), then the chain of alternatives, then the whole expression with the search
  for request rules around it. The preview of a stored expression is therefore the preview of the
  configuration it was printed from.
\<close>

section \<open>Pieces\<close>

lemma quotedSpan_plain:
  "(\<And>c. c \<in> set p \<Longrightarrow> c \<noteq> 34 \<and> c \<noteq> 92) \<Longrightarrow>
    quotedSpan (p @ r) = map_option (\<lambda>(q, t). (p @ q, t)) (quotedSpan r)"
proof (induction p)
  case Nil
  then show ?case by (cases "quotedSpan r") auto
next
  case (Cons c p)
  then show ?case by (cases "quotedSpan r") auto
qed

lemma quotedSpan_unit: "quotedSpan (quote_unit c @ r) = map_option (\<lambda>(q, t). (quote_unit c @ q, t)) (quotedSpan r)"
  using quotedSpan_plain [of "hex4 c" r] hex4_plain
  by (cases "quotedSpan r") (auto simp: quote_unit_def line_terminator_def)

lemma quotedSpan_units: "quotedSpan (quote_units s @ 34 # r) = Some (quote_units s @ [34], r)"
proof (induction s rule: quote_units.induct)
  case (3 c d s)
  then show ?case by (auto simp: quotedSpan_unit high_surrogate_def low_surrogate_def)
qed (simp_all add: quotedSpan_unit)

lemma stripPrefix_unit [simp]: "stripPrefix [c] (c # s) = Some s"
  using stripPrefix_append [of "[c]" s] by simp

lemma quotedToken_quote: "quotedToken (json_quote s @ r) = Some (json_quote s, r)"
proof -
  have "stripPrefix [34] (json_quote s @ r) = Some (quote_units s @ 34 # r)" by (simp add: json_quote_def)
  then show ?thesis by (simp add: quotedToken_def quotedSpan_units json_quote_def)
qed

lemma trimStart_fix: "p \<noteq> [] \<Longrightarrow> \<not> is_ws (hd p) \<Longrightarrow> js_trimStart (p @ r) = p @ r"
  by (intro js_trimStart_fix) simp

lemma trimStart_space: "js_trimStart (32 # s) = js_trimStart s"
  by (simp add: js_trimStart_def is_ws_def)

lemma hd_json_quote [simp]: "hd (json_quote s @ r) = 34" "json_quote s \<noteq> []" "last (json_quote s) = 34"
  by (simp_all add: json_quote_def)

lemma trim_quote: "js_trim (json_quote s) = json_quote s"
  by (rule js_trim_fix) (simp add: json_quote_def is_ws_def)

lemma trimStart_quote: "js_trimStart (json_quote s @ r) = json_quote s @ r"
  by (intro js_trimStart_fix) (simp add: is_ws_def)

lemma usageCall_text: "usageCall (usageText f @ 32 # r) = Some (json_quote f, js_trimStart r)"
proof -
  have "js_trimStart (41 # x) = 41 # x" for x by (simp add: js_trimStart_def is_ws_def)
  then show ?thesis
    by (simp add: usageCall_def usageText_def trimStart_quote quotedToken_quote trimStart_space)
qed

lemma usageText_shape: "usageText f \<noteq> []" "hd (usageText f) = 117" "last (usageText f) = 41"
  by (simp_all add: usageText_def js_eval)

lemma usageEquality_text: "usageEquality (taskConditionText (f, v)) = Some (json_quote f, json_quote v)"
proof -
  have "taskConditionText (f, v) = usageText f @ 32 # (lit ''=='' @ 32 # json_quote v)"
    by (simp add: taskConditionText_def js_eval)
  moreover have "js_trimStart (lit ''=='' @ 32 # json_quote v) = lit ''=='' @ 32 # json_quote v"
    by (intro trimStart_fix) (simp_all add: js_eval is_ws_def)
  ultimately show ?thesis
    using quotedToken_quote [of v "[]"] trimStart_quote [of v "[]"]
    by (simp add: usageEquality_def usageCall_text trimStart_space)
qed

lemma parseTaskCondition_text:
  "v \<in> set (enumValues schema f) \<Longrightarrow> parseTaskCondition schema (taskConditionText (f, v)) = Some (f, v)"
  by (simp add: parseTaskCondition_def usageEquality_text)

lemma segment_usageText: "0 \<le> d \<Longrightarrow> d \<noteq> 0 \<or> 117 \<notin> S \<Longrightarrow> segment S d (usageText f)"
proof -
  assume a: "0 \<le> d" "d \<noteq> 0 \<or> 117 \<notin> S"
  have "usageText f = [117] @ 40 # json_quote f @ [41]" by (simp add: usageText_def js_eval)
  moreover have "segment S d [117]" using a by (intro segment_plain) auto
  ultimately show ?thesis using a segment_wrap [OF a(1) segment_json_quote] segment_append by metis
qed

lemma segment_condition:
  assumes "S \<inter> {117, 32, 61} = {}"
  shows "segment S 0 (taskConditionText c)"
proof -
  have "segment S 0 (lit '' == '')" using assms by (intro segment_plain) (auto simp: js_eval)
  moreover have "segment S 0 (usageText (fst c))" using assms by (intro segment_usageText) auto
  ultimately show ?thesis unfolding taskConditionText_def by (intro segment_append segment_json_quote)
qed

lemma condition_piece: "piece AndOp (taskConditionText c)"
proof -
  have "segment {38} 0 (taskConditionText c)" by (rule segment_condition) simp
  then have "unsplit AndOp 0 (taskConditionText c)" by (rule unsplit_segment) (simp add: opUnit_def)
  moreover have "js_trim (taskConditionText c) = taskConditionText c"
    by (rule js_trim_fix) (simp add: taskConditionText_def usageText_shape is_ws_def)
  ultimately show ?thesis by (simp add: piece_def taskConditionText_def usageText_shape)
qed

lemma those_map_Some: "(\<And>x. x \<in> set xs \<Longrightarrow> f x = Some (g x)) \<Longrightarrow> those (map f xs) = Some (map g xs)"
  by (induction xs) auto

lemma parseTaskConditions_text:
  assumes "cs \<noteq> []" and "\<And>f v. (f, v) \<in> set cs \<Longrightarrow> v \<in> set (enumValues schema f)"
  shows "parseTaskConditions (generateTaskCondition cs) schema = Some cs"
proof -
  have "splitTaskTopLevel (js_join (opText AndOp) (map taskConditionText cs)) AndOp = map taskConditionText cs"
    using assms(1) condition_piece by (intro splitTaskTopLevel_join) auto
  then have "splitTaskTopLevel (generateTaskCondition cs) AndOp = map taskConditionText cs"
    by (simp add: generateTaskCondition_def opText_def)
  moreover have "those (map (parseTaskCondition schema \<circ> taskConditionText) cs) = Some (map id cs)"
    using assms(2) parseTaskCondition_text by (intro those_map_Some) auto
  ultimately show ?thesis using assms(1) by (cases cs) (simp_all add: parseTaskConditions_def)
qed

section \<open>Terms and calls\<close>

text \<open>A price as the editor keeps it: a double that is not negative.\<close>

definition good_price :: "jsnum \<Rightarrow> bool" where
  "good_price x \<longleftrightarrow> (case x of Fin q \<Rightarrow> 0 \<le> q \<and> double q | _ \<Rightarrow> False)"

lemma good_price_text:
  assumes "good_price x"
  shows "isNumericLiteral (js_numberText x)" "hd (js_numberText x) \<noteq> 45" "numberOf (js_numberText x) = x"
    "list_all num_unit (js_numberText x)" "js_numberText x \<noteq> []" "js_trim (js_numberText x) = js_numberText x" "\<not> badPrice x"
proof -
  obtain q where q: "x = Fin q" "0 \<le> q" "double q" using assms by (auto simp: good_price_def split: jsnum.splits)
  show L: "isNumericLiteral (js_numberText x)" and "hd (js_numberText x) \<noteq> 45" "numberOf (js_numberText x) = x"
    using numberText_literal [OF q(3,2)] q(1) by simp_all
  show "list_all num_unit (js_numberText x)" "js_numberText x \<noteq> []" using numericLiteral_units [OF L] by simp_all
  show "js_trim (js_numberText x) = js_numberText x" by (rule numericLiteral_trim [OF L])
  show "\<not> badPrice x" using q by (simp add: badPrice_def)
qed

lemma scale_text: "js_decimal (nat TASK_TOKEN_PRICE_SCALE) = lit ''1000000''"
  by (simp add: TASK_TOKEN_PRICE_SCALE_def js_decimal.simps js_eval)

lemma takeWhile_number:
  assumes "list_all num_unit n" and "r = [] \<or> \<not> num_unit (hd r)"
  shows "takeWhile num_unit (n @ r) = n" "dropWhile num_unit (n @ r) = r"
proof -
  have "\<forall>c \<in> set n. num_unit c" using assms(1) by (simp add: list_all_iff)
  then show "takeWhile num_unit (n @ r) = n" "dropWhile num_unit (n @ r) = r"
    using assms(2) by (cases r; simp)+
qed

definition scaleTail :: "bool \<Rightarrow> jstring" where
  "scaleTail scaled = (if scaled then lit '' / 1000000'' else [])"

lemma priceTerm_text:
  "priceTerm t (f, d) = usageText f @ 32 # 42 # 32 # js_numberText (priceOf (tt_unitPrices t) f) @ scaleTail (uf_unit d = Some TokenU)"
  by (simp add: priceTerm_def scaleTail_def scale_text js_eval)

lemma usageTerm_text:
  assumes "good_price x"
  shows "usageTerm (usageText f @ 32 # 42 # 32 # js_numberText x @ scaleTail scaled) = Some (json_quote f, js_numberText x, scaled)"
proof -
  define n where "n = js_numberText x"
  note N = good_price_text [OF assms, folded n_def]
  have "js_trimStart (n @ scaleTail scaled) = n @ scaleTail scaled"
    using N(4,5) num_unit_not_ws by (intro trimStart_fix) (cases n; auto)+
  moreover have "scaleTail scaled = [] \<or> \<not> num_unit (hd (scaleTail scaled))"
    by (simp add: scaleTail_def js_eval num_unit_def is_digit_def)
  note T = takeWhile_number [OF N(4) this]
  moreover have "js_trimStart (42 # y) = 42 # y" for y by (simp add: js_trimStart_def is_ws_def)
  moreover have "js_trimStart (lit '' / 1000000'') = [47] @ lit '' 1000000''" "js_trimStart (lit '' 1000000'') = lit ''1000000''"
    by (simp_all add: js_trimStart_def js_eval is_ws_def)
  ultimately show ?thesis
    unfolding n_def [symmetric] usageTerm_def usageCall_text using N(1)
    by (simp add: trimStart_space T) (auto simp: scaleTail_def)
qed

definition number_field :: "usage_schema \<Rightarrow> jstring \<Rightarrow> usage_field \<Rightarrow> bool" where
  "number_field schema f d \<longleftrightarrow>
     map_of schema f = Some d \<and> uf_type d = Some NumberT \<and> uf_unit d \<noteq> None \<and> f \<notin> set objectPrototypeMembers"

lemma priceTerm_not_number: "\<not> isNumericLiteral (priceTerm t e)"
proof
  assume "isNumericLiteral (priceTerm t e)"
  then have "num_unit (hd (priceTerm t e))" using numericLiteral_units by (cases "priceTerm t e") fastforce+
  then show False using usageText_shape [of "fst e"] by (cases e) (simp add: priceTerm_text num_unit_def is_digit_def)
qed

lemma parseTerms_prices:
  assumes "\<And>f d. (f, d) \<in> set nf \<Longrightarrow> number_field schema f d \<and> good_price (priceOf (tt_unitPrices t) f)"
    and "distinct (map fst nf)" and "set (map fst nf) \<inter> set (map fst acc) = {}"
  shows "parseTerms schema k acc (map (priceTerm t) nf) = Some (k, acc @ map (\<lambda>(f, d). (f, priceOf (tt_unitPrices t) f)) nf)"
  using assms
proof (induction nf arbitrary: acc)
  case (Cons e nf)
  obtain f d where e: "e = (f, d)" by fastforce
  define x where "x = priceOf (tt_unitPrices t) f"
  have F: "number_field schema f d" "good_price x" using Cons.prems(1) [of f d] e by (simp_all add: x_def)
  have "usageTerm (priceTerm t e) = Some (json_quote f, js_numberText x, uf_unit d = Some TokenU)"
    unfolding e priceTerm_text x_def [symmetric] by (rule usageTerm_text [OF F(2)])
  moreover have "acceptsTerm schema acc f x (uf_unit d = Some TokenU)"
    using F(1) good_price_text(7) [OF F(2)] Cons.prems(3) e by (auto simp: acceptsTerm_def number_field_def)
  ultimately have "parseTerms schema k acc (map (priceTerm t) (e # nf)) =
      parseTerms schema k (acc @ [(f, x)]) (map (priceTerm t) nf)"
    using priceTerm_not_number good_price_text(3) [OF F(2)] by simp
  also have "\<dots> = Some (k, (acc @ [(f, x)]) @ map (\<lambda>(f, d). (f, priceOf (tt_unitPrices t) f)) nf)"
    using Cons.prems e by (intro Cons.IH) auto
  finally show ?case by (simp add: e x_def)
qed simp

text \<open>A tier with a price for every numeric field, in their order.\<close>

definition priced :: "usage_schema \<Rightarrow> task_tier \<Rightarrow> bool" where
  "priced nf t \<longleftrightarrow> map fst (tt_unitPrices t) = map fst nf \<and> good_price (tt_constant t) \<and> list_all (good_price \<circ> snd) (tt_unitPrices t)"

lemma priced_prices:
  assumes "priced nf t" and "distinct (map fst nf)"
  shows "map (\<lambda>(f, d). (f, priceOf (tt_unitPrices t) f)) nf = tt_unitPrices t"
    "(f, d) \<in> set nf \<Longrightarrow> good_price (priceOf (tt_unitPrices t) f)"
proof -
  define ps where "ps = tt_unitPrices t"
  have ps: "map fst ps = map fst nf" "distinct (map fst ps)" using assms by (simp_all add: priced_def ps_def)
  have look: "priceOf ps (fst p) = snd p" if "p \<in> set ps" for p
    using map_of_is_SomeI [OF ps(2), of "fst p" "snd p"] that by (simp add: priceOf_def)
  have "map (\<lambda>(f, d). (f, priceOf ps f)) nf = map (\<lambda>f. (f, priceOf ps f)) (map fst nf)" by auto
  also have "\<dots> = map (\<lambda>p. (fst p, priceOf ps (fst p))) ps" unfolding ps(1) [symmetric] by simp
  also have "\<dots> = map id ps" by (rule map_cong) (simp_all add: look)
  finally show "map (\<lambda>(f, d). (f, priceOf (tt_unitPrices t) f)) nf = tt_unitPrices t" by (simp add: ps_def)
  assume "(f, d) \<in> set nf"
  then have "f \<in> set (map fst ps)" unfolding ps(1) by force
  then obtain p where "p \<in> set ps" "f = fst p" by auto
  then show "good_price (priceOf (tt_unitPrices t) f)"
    using look assms(1) by (auto simp: ps_def priced_def list_all_iff)
qed

definition bodyTerms :: "task_tier \<Rightarrow> usage_schema \<Rightarrow> jstring list" where
  "bodyTerms t nf = (if num_gt0 (tt_constant t) then [js_numberText (tt_constant t)] else []) @ map (priceTerm t) nf"

lemma good_constant: "good_price x \<Longrightarrow> \<not> num_gt0 x \<Longrightarrow> x = Fin 0"
  by (cases x) (auto simp: good_price_def)

lemma parseTerms_body:
  assumes "priced nf t" and "\<And>f d. (f, d) \<in> set nf \<Longrightarrow> number_field schema f d" and "distinct (map fst nf)"
  shows "\<exists>k. parseTerms schema None [] (bodyTerms t nf) = Some (k, tt_unitPrices t) \<and>
    (case k of None \<Rightarrow> Fin 0 | Some v \<Rightarrow> v) = tt_constant t"
proof -
  have P: "parseTerms schema k [] (map (priceTerm t) nf) = Some (k, tt_unitPrices t)" for k
    using parseTerms_prices [of nf schema t "[]" k] priced_prices [OF assms(1,3)] assms(2,3) by simp
  have g: "good_price (tt_constant t)" using assms(1) by (simp add: priced_def)
  show ?thesis
  proof (cases "num_gt0 (tt_constant t)")
    case True
    then show ?thesis using P good_price_text [OF g] by (simp add: bodyTerms_def)
  next
    case False
    then show ?thesis using P good_constant [OF g] by (simp add: bodyTerms_def)
  qed
qed

lemma body_pieces:
  assumes "priced nf t" and "distinct (map fst nf)" and "p \<in> set (bodyTerms t nf)"
  shows "piece PlusOp p" "segment S 1 p"
proof -
  have N: "piece PlusOp (js_numberText x)" "segment S' 1 (js_numberText x)" "unsplit PlusOp 0 (js_numberText x)" if "good_price x" for x S'
  proof -
    note T = good_price_text [OF that]
    show "unsplit PlusOp 0 (js_numberText x)" by (rule unsplit_number [OF T(1,2)])
    then show "piece PlusOp (js_numberText x)" using T(5,6) by (simp add: piece_def)
    show "segment S' 1 (js_numberText x)"
      using T(4) by (intro segment_plain) (auto simp: list_all_iff num_unit_def is_digit_def)
  qed
  have "piece PlusOp p \<and> segment S 1 p"
  proof (cases "p \<in> set (map (priceTerm t) nf)")
    case True
    then obtain f d where p: "p = priceTerm t (f, d)" "(f, d) \<in> set nf" by auto
    define n where "n = js_numberText (priceOf (tt_unitPrices t) f)"
    define tail where "tail = scaleTail (uf_unit d = Some TokenU)"
    have n: "piece PlusOp n" "segment S 1 n" "unsplit PlusOp 0 n"
      using N priced_prices(2) [OF assms(1,2) p(2)] by (simp_all add: n_def)
    have shape: "p = (usageText f @ [32, 42, 32]) @ n @ tail" by (simp add: p(1) priceTerm_text n_def tail_def)
    have tail: "segment {43} 0 tail" "segment S 1 tail" "tail \<noteq> [] \<Longrightarrow> \<not> is_ws (last tail)"
      by (auto simp: tail_def scaleTail_def js_eval is_ws_def intro!: segment_plain)
    have head: "segment {43} 0 (usageText f @ [32, 42, 32])" "segment S 1 (usageText f @ [32, 42, 32])"
      by (rule segment_append; (rule segment_usageText | rule segment_plain); auto)+
    have op: "opUnit PlusOp \<in> {43}" by (simp add: opUnit_def)
    have "unsplit PlusOp 0 p"
      unfolding shape by (rule unsplit_append [OF unsplit_segment [OF head(1) op] unsplit_append [OF n(3) unsplit_segment [OF tail(1) op]]])
    moreover have "segment S 1 p" unfolding shape by (rule segment_append [OF head(2) segment_append [OF n(2) tail(2)]])
    moreover have "js_trim p = p"
    proof (rule js_trim_fix)
      have "n \<noteq> []" "\<not> is_ws (last n)"
        using n(1) good_price_text(4) [OF priced_prices(2) [OF assms(1,2) p(2)]] num_unit_not_ws
        by (auto simp: piece_def n_def list_all_iff)
      then show "p = [] \<or> \<not> is_ws (hd p) \<and> \<not> is_ws (last p)"
        using tail(3) by (cases "tail = []") (auto simp: shape usageText_shape is_ws_def)
    qed
    ultimately show ?thesis using shape by (simp add: piece_def)
  next
    case False
    then have "p = js_numberText (tt_constant t)" using assms(3) by (auto simp: bodyTerms_def split: if_splits)
    with N assms(1) show ?thesis by (simp add: priced_def)
  qed
  then show "piece PlusOp p" "segment S 1 p" by simp_all
qed

lemma body_text: "generateTaskTierBody t nf = js_join (opText PlusOp) (bodyTerms t nf)"
  by (simp add: generateTaskTierBody_def bodyTerms_def opText_def)

lemma tier_call_shape:
  "generateTaskTierCall t nf = lit ''tier('' @ (json_quote (tt_label t) @ 44 # 32 # generateTaskTierBody t nf) @ [41]"
  by (simp add: generateTaskTierCall_def js_eval)

lemma call_ends: "generateTaskTierCall t nf \<noteq> []" "hd (generateTaskTierCall t nf) = 116" "last (generateTaskTierCall t nf) = 41"
  by (simp_all add: tier_call_shape js_eval)

lemma call_trim: "js_trim (generateTaskTierCall t nf) = generateTaskTierCall t nf"
  by (rule js_trim_fix) (simp add: call_ends is_ws_def)

lemma segment_call:
  assumes "priced nf t" and "distinct (map fst nf)" and "S \<inter> {116, 105, 101, 114} = {}"
  shows "segment S 0 (generateTaskTierCall t nf)"
proof -
  have "segment S 1 (generateTaskTierBody t nf)"
    unfolding body_text by (rule segment_join) (auto intro: body_pieces [OF assms(1,2)] segment_plain simp: opText_def js_eval)
  moreover have "segment S 1 [44, 32]" by (intro segment_plain) auto
  ultimately have "segment S 1 (json_quote (tt_label t) @ [44, 32] @ generateTaskTierBody t nf)"
    by (intro segment_append segment_json_quote)
  then have "segment S 0 (40 # (json_quote (tt_label t) @ [44, 32] @ generateTaskTierBody t nf) @ [41])"
    by (intro segment_wrap) simp_all
  moreover have "segment S 0 (lit ''tier'')" using assms(3) by (intro segment_plain) (auto simp: js_eval)
  ultimately have "segment S 0 (lit ''tier'' @ 40 # (json_quote (tt_label t) @ [44, 32] @ generateTaskTierBody t nf) @ [41])"
    by (rule segment_append [rotated])
  then show ?thesis by (simp add: generateTaskTierCall_def js_eval)
qed

lemma parseTaskTierCall_text:
  assumes "priced nf t" and "\<And>f d. (f, d) \<in> set nf \<Longrightarrow> number_field schema f d" and "distinct (map fst nf)" and "nf \<noteq> []"
  shows "parseTaskTierCall (generateTaskTierCall t nf) cs schema = Some (t\<lparr>tt_conditions := cs\<rparr>)"
proof -
  define q where "q = json_quote (tt_label t)"
  define body where "body = generateTaskTierBody t nf"
  define inner where "inner = q @ 44 # 32 # body"
  have call: "generateTaskTierCall t nf = lit ''tier('' @ inner @ [41]" by (simp add: tier_call_shape inner_def q_def body_def)
  have drop5: "butlast (drop 5 (generateTaskTierCall t nf)) = inner"
    unfolding call by (simp add: js_eval)
  have "findTop 44 0 (False, False) (q @ 44 # 32 # body) = Some (length q)"
    using findTop_segment [OF segment_json_quote, of 44 "{44}" 0 "tt_label t"] by (simp add: q_def)
  then have comma: "findTaskTopLevelCharacter inner 44 0 = Some (length q)" by (simp add: findTaskTopLevelCharacter_def inner_def)
  have take: "js_trim (take (length q) inner) = q" "drop (length q + 1) inner = 32 # body"
    by (simp_all add: inner_def q_def trim_quote)
  have "bodyTerms t nf \<noteq> []" using assms(4) by (simp add: bodyTerms_def)
  then have split: "splitTaskTopLevel (32 # body) PlusOp = bodyTerms t nf"
    unfolding body_def body_text by (rule splitTaskTopLevel_join) (rule body_pieces [OF assms(1,3)])
  obtain k where k: "parseTerms schema None [] (bodyTerms t nf) = Some (k, tt_unitPrices t)"
    "(case k of None \<Rightarrow> Fin 0 | Some v \<Rightarrow> v) = tt_constant t"
    using parseTerms_body [OF assms(1,2,3)] by blast
  have "tt_unitPrices t \<noteq> []" using assms(1,4) by (auto simp: priced_def)
  moreover have "js_startsWith (generateTaskTierCall t nf) (lit ''tier('')" "js_endsWith (generateTaskTierCall t nf) [41]"
    unfolding call by (auto simp: js_endsWith_iff)
  moreover have "json_unquote q = Some (tt_label t)" by (simp add: q_def)
  ultimately show ?thesis
    unfolding parseTaskTierCall_def call_trim Let_def drop5 comma take split
    by (simp add: take [simplified] split k)
qed

section \<open>The chain of alternatives\<close>

fun tiersText :: "usage_schema \<Rightarrow> task_tier list \<Rightarrow> jstring" where
  "tiersText nf [] = []"
| "tiersText nf [t] = generateTaskTierCall t nf"
| "tiersText nf (t # u # us) =
     (generateTaskCondition (tt_conditions t) @ [32]) @ 63 # (32 # generateTaskTierCall t nf @ [32]) @ 58 # 32 # tiersText nf (u # us)"

lemma tiersText_join:
  "ts \<noteq> [] \<Longrightarrow>
    js_join (lit '' : '') (map (\<lambda>t. generateTaskCondition (tt_conditions t) @ lit '' ? '' @ generateTaskTierCall t nf) (butlast ts)
      @ [generateTaskTierCall (last ts) nf]) = tiersText nf ts"
proof (induction nf ts rule: tiersText.induct)
  case (3 nf t u us)
  then show ?case by (cases us) (simp_all add: js_eval)
qed simp_all

definition clearLast :: "task_tier list \<Rightarrow> task_tier list" where
  "clearLast ts = (if ts = [] then [] else butlast ts @ [(last ts)\<lparr>tt_conditions := []\<rparr>])"

lemma clearLast_simps [simp]:
  "clearLast [t] = [t\<lparr>tt_conditions := []\<rparr>]" "clearLast (t # u # us) = t # clearLast (u # us)"
  by (simp_all add: clearLast_def)

lemma condition_ends:
  assumes "cs \<noteq> []"
  shows "generateTaskCondition cs \<noteq> []" "hd (generateTaskCondition cs) = 117" "last (generateTaskCondition cs) = 34"
proof -
  have C: "taskConditionText c \<noteq> [] \<and> hd (taskConditionText c) = 117 \<and> last (taskConditionText c) = 34" for c
    by (simp_all add: taskConditionText_def usageText_shape)
  have J: "js_join sep ps \<noteq> [] \<and> hd (js_join sep ps) = 117 \<and> last (js_join sep ps) = 34"
    if "ps \<noteq> []" "\<And>p. p \<in> set ps \<Longrightarrow> p \<noteq> [] \<and> hd p = 117 \<and> last p = 34" for sep ps
    using that by (induction sep ps rule: js_join.induct) auto
  have P: "p \<noteq> [] \<and> hd p = 117 \<and> last p = 34" if p: "p \<in> set (map taskConditionText cs)" for p
  proof -
    obtain c where "p = taskConditionText c" using p by auto
    then show ?thesis using C [of c] by simp
  qed
  have "js_join (lit '' && '') (map taskConditionText cs) \<noteq> [] \<and> hd (js_join (lit '' && '') (map taskConditionText cs)) = 117 \<and>
      last (js_join (lit '' && '') (map taskConditionText cs)) = 34"
    using assms by (intro J P) simp_all
  then show "generateTaskCondition cs \<noteq> []" "hd (generateTaskCondition cs) = 117" "last (generateTaskCondition cs) = 34"
    by (auto simp: generateTaskCondition_def)
qed

lemma condition_trim: "js_trim (generateTaskCondition cs) = generateTaskCondition cs"
  by (cases "cs = []") (simp_all add: generateTaskCondition_def [of "[]"] condition_ends js_trim_fix is_ws_def)

lemma segment_conditions:
  assumes "S \<inter> {117, 32, 61, 38} = {}"
  shows "segment S 0 (generateTaskCondition cs)"
  unfolding generateTaskCondition_def
proof (rule segment_join)
  show "segment S 0 p" if "p \<in> set (map taskConditionText cs)" for p
    using that assms by (auto intro!: segment_condition)
  show "segment S 0 (lit '' && '')" using assms by (intro segment_plain) (auto simp: js_eval)
qed

text \<open>Tiers as they are printed: prices for every field, and declared conditions on all but the last.\<close>

definition printable :: "usage_schema \<Rightarrow> usage_schema \<Rightarrow> task_tier list \<Rightarrow> bool" where
  "printable schema nf ts \<longleftrightarrow>
     list_all (priced nf) ts \<and>
     list_all (\<lambda>t. tt_conditions t \<noteq> [] \<and> list_all (\<lambda>(f, v). v \<in> set (enumValues schema f)) (tt_conditions t)) (butlast ts)"

lemma tiersText_ends:
  "printable schema nf ts \<Longrightarrow> ts \<noteq> [] \<Longrightarrow>
    tiersText nf ts \<noteq> [] \<and> (hd (tiersText nf ts) = 116 \<or> hd (tiersText nf ts) = 117) \<and> last (tiersText nf ts) = 41"
proof (induction nf ts rule: tiersText.induct)
  case (3 nf t u us)
  then have "tt_conditions t \<noteq> []" "printable schema nf (u # us)" by (auto simp: printable_def split: if_splits)
  with 3 condition_ends show ?case by auto
qed (simp_all add: call_ends)

lemma tiersText_trim:
  assumes "printable schema nf ts" and "ts \<noteq> []"
  shows "js_trim (tiersText nf ts) = tiersText nf ts" "js_trim (32 # tiersText nf ts) = tiersText nf ts"
proof -
  show T: "js_trim (tiersText nf ts) = tiersText nf ts"
    using tiersText_ends [OF assms] by (intro js_trim_fix) (auto simp: is_ws_def)
  show "js_trim (32 # tiersText nf ts) = tiersText nf ts"
    using js_trim_around [of "[32]" "[]" "tiersText nf ts"] T by (simp add: is_ws_def)
qed

lemma findQuestion:
  assumes "segment {63} 0 c"
  shows "findTaskTopLevelCharacter (c @ 63 # r) 63 0 = Some (length c)" "findTaskTopLevelCharacter c 63 0 = None"
proof -
  show "findTaskTopLevelCharacter (c @ 63 # r) 63 0 = Some (length c)"
    using findTop_segment [OF assms, of 63 "63 # r"] by (simp add: findTaskTopLevelCharacter_def)
  show "findTaskTopLevelCharacter c 63 0 = None"
    using findTop_segment [OF assms, of 63 "[]"] by (simp add: findTaskTopLevelCharacter_def)
qed

lemma findColon_after:
  assumes "segment {58, 63} 0 p"
  shows "findTaskTernaryColon (c @ 63 # p @ 58 # r) (length c) = Some (length c + 1 + length p)"
  using findColon_segment [OF assms, of 0 "58 # r"] by (simp add: findTaskTernaryColon_def)

lemma parseTiers_step:
  assumes "r \<noteq> []" and "findTaskTopLevelCharacter r 63 0 = Some q" and "findTaskTernaryColon r q = Some k"
    and "parseTaskConditions (js_trim (take q r)) schema = Some cs"
    and "parseTaskTierCall (js_trim (js_slice r (q + 1) k)) cs schema = Some t"
    and "parseTiers schema (js_trim (drop (k + 1) r)) = Some ts"
  shows "parseTiers schema r = Some (t # ts)"
  using assms by (subst parseTiers.simps) simp

lemma parseTiers_text:
  assumes "printable schema nf ts" and "ts \<noteq> []" and "\<And>f d. (f, d) \<in> set nf \<Longrightarrow> number_field schema f d"
    and "distinct (map fst nf)" and "nf \<noteq> []"
  shows "parseTiers schema (tiersText nf ts) = Some (clearLast ts)"
  using assms
proof (induction nf ts rule: tiersText.induct)
  case (2 nf t)
  then have "priced nf t" by (simp add: printable_def)
  then have "segment {63} 0 (generateTaskTierCall t nf)" using 2 by (intro segment_call) simp_all
  then show ?case
    using findQuestion(2) parseTaskTierCall_text [OF \<open>priced nf t\<close> 2(3,4,5), of "[]"] call_ends(1)
    by (subst parseTiers.simps) simp
next
  case (3 nf t u us)
  define c where "c = generateTaskCondition (tt_conditions t)"
  define k where "k = generateTaskTierCall t nf"
  define rest where "rest = tiersText nf (u # us)"
  have t: "priced nf t" "tt_conditions t \<noteq> []" "\<And>f v. (f, v) \<in> set (tt_conditions t) \<Longrightarrow> v \<in> set (enumValues schema f)"
    and r: "printable schema nf (u # us)"
    using 3(2) by (auto simp: printable_def list_all_iff split: if_splits)
  have ws: "\<forall>x \<in> set [32]. is_ws x" "\<forall>x \<in> set []. is_ws x" by (simp_all add: is_ws_def)
  have "segment {63} 0 [32]" "segment {58, 63} 0 [32]" by (intro segment_plain; auto)+
  then have seg: "segment {63} 0 (c @ [32])" "segment {58, 63} 0 (32 # k @ [32])"
    using segment_conditions [of "{63}"] segment_call [OF t(1) 3(5), of "{58, 63}"]
      segment_append [of "{58, 63}" 0 "[32]" "k @ [32]"]
    by (simp_all add: c_def k_def segment_append)
  define txt' where "txt' = (c @ [32]) @ 63 # (32 # k @ [32]) @ 58 # 32 # rest"
  have T: "tiersText nf (t # u # us) = txt'" by (simp add: txt'_def c_def k_def rest_def)
  have q: "findTaskTopLevelCharacter txt' 63 0 = Some (length c + 1)"
    unfolding txt'_def using findQuestion(1) [OF seg(1)] by simp
  have colon: "findTaskTernaryColon txt' (length c + 1) = Some (length c + 1 + 1 + (length k + 2))"
    unfolding txt'_def using findColon_after [OF seg(2), of "c @ [32]"] by simp
  define pre where "pre = c @ [32, 63, 32] @ k @ [32, 58]"
  have "txt' = pre @ 32 # rest" "length c + 1 + 1 + (length k + 2) + 1 = length pre" by (simp_all add: txt'_def pre_def)
  then have after: "drop (length c + 1 + 1 + (length k + 2) + 1) txt' = 32 # rest" using append_eq_conv_conj [of pre "32 # rest" txt'] by simp
  have parts: "js_trim (take (length c + 1) txt') = c" "js_trim (js_slice txt' (length c + 1 + 1) (length c + 1 + 1 + (length k + 2))) = k"
    "js_trim (drop (length c + 1 + 1 + (length k + 2) + 1) txt') = rest"
    using js_trim_around [OF ws(2,1), of c] js_trim_around [OF ws(1,1), of k] tiersText_trim [OF r]
    unfolding after by (simp_all add: txt'_def js_slice_def condition_trim call_trim c_def k_def rest_def)
  have "txt' \<noteq> []" by (simp add: txt'_def)
  moreover have "parseTaskConditions c schema = Some (tt_conditions t)" unfolding c_def by (rule parseTaskConditions_text [OF t(2,3)])
  moreover have "parseTaskTierCall k (tt_conditions t) schema = Some t"
    unfolding k_def using parseTaskTierCall_text [OF t(1) 3(4,5,6)] by simp
  moreover have "parseTiers schema rest = Some (clearLast (u # us))" unfolding rest_def using 3 r by simp
  ultimately have "parseTiers schema txt' = Some (t # clearLast (u # us))"
    by (intro parseTiers_step [OF _ q colon, unfolded parts])
  then show ?case by (simp only: T clearLast_simps)
qed simp

section \<open>No request rules in it\<close>

text \<open>A request rule is a factor in parentheses. No factor of a text starts with a parenthesis if no
  parenthesis in it follows white space.\<close>

fun no_ws_paren :: "bool \<Rightarrow> jstring \<Rightarrow> bool" where
  "no_ws_paren b [] \<longleftrightarrow> True"
| "no_ws_paren b (c # s) \<longleftrightarrow> \<not> (b \<and> c = 40) \<and> no_ws_paren (is_ws c) s"

lemma no_ws_paren_weaken: "no_ws_paren True s \<Longrightarrow> no_ws_paren b s"
  by (cases s) auto

lemma no_ws_paren_append: "no_ws_paren b p \<Longrightarrow> no_ws_paren True q \<Longrightarrow> no_ws_paren b (p @ q)"
  by (induction p arbitrary: b) (auto simp: no_ws_paren_weaken)

lemma no_ws_paren_free: "40 \<notin> set p \<Longrightarrow> no_ws_paren b p"
  by (induction p arbitrary: b) auto

lemma no_ws_paren_join:
  "(\<And>p. p \<in> set ps \<Longrightarrow> no_ws_paren True p) \<Longrightarrow> no_ws_paren True sep \<Longrightarrow> no_ws_paren True (js_join sep ps)"
  by (induction sep ps rule: js_join.induct) (auto intro!: no_ws_paren_append)

lemma trim_head: "js_trim s = [] \<or> hd (js_trim s) = hd (js_trimStart s)"
  using js_trimEnd_hd [of "js_trimStart s"] by (auto simp: js_trim_def)

definition head_ok :: "bool \<Rightarrow> jstring \<Rightarrow> bool" where
  "head_ok b acc \<longleftrightarrow> (if js_trimStart acc = [] then b else hd (js_trimStart acc) \<noteq> 40)"

lemma head_ok_snoc: "head_ok b acc \<Longrightarrow> \<not> (b \<and> c = 40) \<Longrightarrow> head_ok (is_ws c) (acc @ [c])"
  by (auto simp: head_ok_def js_trimStart_def dropWhile_append split: if_splits)

lemma splitTop_heads:
  assumes "no_ws_paren b s" and "head_ok b acc" and "p \<in> set (splitTop (lit '' * '') d acc s)"
  shows "p = [] \<or> hd p \<noteq> 40"
  using assms
proof (induction "lit '' * ''" d acc s arbitrary: b rule: splitTop.induct)
  case (1 d acc)
  then show ?case using trim_head [of acc] by (auto simp: head_ok_def js_trim_def js_trimEnd_def split: if_splits)
next
  case (2 d acc c s)
  have here: "js_trim acc = [] \<or> hd (js_trim acc) \<noteq> 40"
    using 2(4) trim_head [of acc] by (auto simp: head_ok_def js_trim_def js_trimEnd_def split: if_splits)
  show ?case
  proof (cases "depth_step c d = 0 \<and> js_startsWith (c # s) (lit '' * '')")
    case True
    then have "no_ws_paren True (drop 3 (c # s))"
      using 2(3) by (cases s; cases "tl s") (auto simp: js_eval is_ws_def)
    moreover have "head_ok True []" by (simp add: head_ok_def js_trimStart_def)
    ultimately show ?thesis using 2(1) [OF refl, of True] 2(5) True here by (auto simp: Let_def numeral_2_eq_2)
  next
    case False
    then show ?thesis using 2(2) [OF refl, of "is_ws c"] 2(3-5) head_ok_snoc [of b acc c] by (auto simp: Let_def)
  qed
qed

lemma splitTop_trimmed: "p \<in> set (splitTop sep d acc s) \<Longrightarrow> js_trim p = p"
  by (induction sep d acc s rule: splitTop.induct) (auto simp: Let_def split: if_splits)

lemma splitTop_first:
  "acc \<noteq> [] \<Longrightarrow> \<not> is_ws (hd acc) \<Longrightarrow> \<exists>p ps. splitTop sep d acc s = p # ps \<and> p \<noteq> [] \<and> hd p = hd acc"
proof (induction sep d acc s rule: splitTop.induct)
  have T: "js_trim a \<noteq> [] \<and> hd (js_trim a) = hd a" if "a \<noteq> []" "\<not> is_ws (hd a)" for a
  proof -
    have "js_trimStart a = a" using that by (intro js_trimStart_fix) simp
    moreover have "js_trim a \<noteq> []" using that js_trim_eq_Nil_iff [of a] by (auto dest: hd_in_set)
    ultimately show ?thesis using trim_head [of a] by simp
  qed
  {
    case (1 sep d acc)
    then show ?case using T by simp
  next
    case (2 sep d acc c s)
    then show ?case using T by (auto simp: Let_def)
  }
qed

lemma not_a_rule:
  assumes "p \<noteq> []" and "js_trim p = p" and "hd p \<noteq> 40"
  shows "\<exists>r. tryParseRequestRuleExpr other p = Gave r \<and> (\<forall>g gs. r \<noteq> Some (g # gs))"
proof -
  obtain c s where p: "p = c # s" using assms(1) by (cases p) auto
  have "\<not> is_ws c" using assms(1,2) trim_head [of p] js_trimStart_hd [of p] by (auto simp: p js_trim_def js_trimEnd_def)
  then have "\<not> js_startsWith (c # s) (lit '' * '')" by (auto simp: js_eval is_ws_def)
  then have "splitTop (lit '' * '') 0 [] p = splitTop (lit '' * '') (depth_step c 0) [c] s" by (simp add: p)
  moreover obtain q qs where "splitTop (lit '' * '') (depth_step c 0) [c] s = q # qs" "q \<noteq> []" "hd q = c"
    using splitTop_first [of "[c]" "lit '' * ''" "depth_step c 0" s] \<open>\<not> is_ws c\<close> by auto
  ultimately have q: "splitTop (lit '' * '') 0 [] p = q # qs" "q \<noteq> []" "hd q = c" by simp_all
  have "stripPrefix [40] q = None" using q assms(3) by (cases q) (auto simp: stripPrefix_def p)
  then have "tryParseRuleGroupFactor other q = Gave None" by (simp add: tryParseRuleGroupFactor_def ruleFactor_def)
  then show ?thesis
    using assms(1,2) q by (simp add: tryParseRequestRuleExpr_def splitTopLevelMultiply_def splitTopLevel_def)
qed

lemma sortFactors_bases:
  "(\<And>p. p \<in> set ps \<Longrightarrow> p \<noteq> [] \<and> js_trim p = p \<and> hd p \<noteq> 40) \<Longrightarrow> sortFactors other ps = Gave ([], ps)"
proof (induction ps)
  case (Cons p ps)
  obtain r where "tryParseRequestRuleExpr other p = Gave r" "\<forall>g gs. r \<noteq> Some (g # gs)"
    using not_a_rule [of p other] Cons.prems by auto
  then show ?case using Cons by (auto split: option.splits list.splits)
qed simp

lemma no_rules:
  assumes "no_ws_paren True (js_trim e)"
  shows "splitBillingExprAndRequestRules other e = Gave (js_trim e, [])"
proof -
  have "p \<noteq> [] \<and> js_trim p = p \<and> hd p \<noteq> 40" if p: "p \<in> set (splitTopLevelMultiply (js_trim e))" for p
  proof -
    have in_parts: "p \<in> set (splitTop (lit '' * '') 0 [] (js_trim e))" and "p \<noteq> []"
      using p by (simp_all add: splitTopLevelMultiply_def splitTopLevel_def)
    moreover have "head_ok True []" by (simp add: head_ok_def js_trimStart_def)
    ultimately show ?thesis using splitTop_heads [OF assms _ in_parts] splitTop_trimmed [OF in_parts] by blast
  qed
  then have "sortFactors other (splitTopLevelMultiply (js_trim e)) = Gave ([], splitTopLevelMultiply (js_trim e))"
    by (rule sortFactors_bases)
  then show ?thesis
    unfolding splitBillingExprAndRequestRules_def Let_def by (cases "js_trim e = []") simp_all
qed

end
