(* ===== verification/TaskPrices.thy ===== *)
theory TaskPrices
  imports TaskRoundtrip
begin

text \<open>
  The editor of task prices: normal configurations, and what becomes of a configuration that is
  printed, stored and read again. The search for request rules, the version prefix and the reader of
  tiers all run on the printed text.
\<close>

section \<open>Fields of a schema\<close>

text \<open>Schemas in which names do not contain an opening parenthesis, which could pass for a request rule,
  and no field is named like a member of every object or like an index.\<close>

definition index_name :: "jstring \<Rightarrow> bool" where
  "index_name f \<longleftrightarrow> f \<noteq> [] \<and> list_all is_digit f"

definition wf_schema :: "usage_schema \<Rightarrow> bool" where
  "wf_schema schema \<longleftrightarrow> distinct (map fst schema) \<and>
     list_all (\<lambda>(f, d). f \<notin> set objectPrototypeMembers \<and> \<not> index_name f \<and> 40 \<notin> set f \<and> distinct (fieldEnum d) \<and>
       list_all (\<lambda>v. 40 \<notin> set v) (fieldEnum d)) schema"

lemma wf_schema_distinct: "wf_schema schema \<Longrightarrow> distinct (map fst schema)"
  by (simp add: wf_schema_def)

lemma wf_schema_entry:
  "wf_schema schema \<Longrightarrow> (f, d) \<in> set schema \<Longrightarrow>
    map_of schema f = Some d \<and> f \<notin> set objectPrototypeMembers \<and> 40 \<notin> set f \<and> distinct (fieldEnum d) \<and> (\<forall>v \<in> set (fieldEnum d). 40 \<notin> set v)"
  by (auto simp: wf_schema_def list_all_iff)

lemma distinct_fields:
  assumes "wf_schema schema"
  shows "distinct (map fst (getTaskNumberFields lc schema))" "distinct (map fst (getTaskEnumFields lc schema))"
  using wf_schema_distinct [OF assms]
  by (simp_all add: getTaskNumberFields_def getTaskEnumFields_def distinct_js_sort distinct_map_filter)

lemma number_fields:
  "wf_schema schema \<Longrightarrow> (f, d) \<in> set (getTaskNumberFields lc schema) \<Longrightarrow> number_field schema f d"
  using wf_schema_entry by (fastforce simp: getTaskNumberFields_def number_field_def)

lemma number_field_plain: "wf_schema schema \<Longrightarrow> (f, d) \<in> set (getTaskNumberFields lc schema) \<Longrightarrow> 40 \<notin> set f"
  using wf_schema_entry by (fastforce simp: getTaskNumberFields_def)

lemma enumValues_Some: "map_of schema f = Some d \<Longrightarrow> enumValues schema f = fieldEnum d"
  by (simp add: enumValues_def fieldEnum_def)

lemma enumValues_fields:
  assumes "wf_schema schema"
  shows "enumValues (getTaskEnumFields lc schema) f = enumValues schema f"
proof (cases "map_of (getTaskEnumFields lc schema) f")
  case None
  then have "\<And>d. (f, d) \<notin> set (getTaskEnumFields lc schema)" by (force simp: map_of_eq_None_iff)
  then have no: "\<And>d. (f, d) \<in> set schema \<Longrightarrow> uf_enum d = None \<or> uf_enum d = Some []" by (auto simp: getTaskEnumFields_def)
  have "fieldEnum d = []" if "map_of schema f = Some d" for d
    using no [OF map_of_SomeD [OF that]] by (auto simp: fieldEnum_def)
  then have "enumValues schema f = []" by (cases "map_of schema f") (simp_all add: enumValues_def fieldEnum_def)
  with None show ?thesis by (simp add: enumValues_def)
next
  case (Some d)
  then have "(f, d) \<in> set schema" using map_of_SomeD [OF Some] by (simp add: getTaskEnumFields_def)
  then have "map_of schema f = Some d" using wf_schema_entry [OF assms] by blast
  with Some show ?thesis by (simp add: enumValues_Some)
qed

lemma enumValues_plain:
  assumes "wf_schema schema" and "v \<in> set (enumValues schema f)"
  shows "40 \<notin> set f \<and> 40 \<notin> set v"
proof (cases "map_of schema f")
  case None
  then show ?thesis using assms(2) by (simp add: enumValues_def)
next
  case (Some d)
  then show ?thesis using wf_schema_entry [OF assms(1) map_of_SomeD [OF Some]] assms(2) by (simp add: enumValues_Some)
qed

section \<open>Entries\<close>

lemma js_uniq_snoc: "js_uniq (xs @ [x]) = (if x \<in> set xs then js_uniq xs else js_uniq xs @ [x])"
  by (induction xs) auto

lemma update_new: "k \<notin> set (map fst m) \<Longrightarrow> AList.update k v m = m @ [(k, v)]"
  by (induction m) auto

lemma update_same: "distinct (map fst m) \<Longrightarrow> (k, v) \<in> set m \<Longrightarrow> AList.update k v m = m"
  by (induction m) (auto simp: rev_image_eqI)

lemma fromEntries_map: "fromEntries (map (\<lambda>k. (k, g k)) ks) = map (\<lambda>k. (k, g k)) (js_uniq ks)"
proof (induction ks rule: rev_induct)
  case (snoc k ks)
  have keys: "map fst (map (\<lambda>k. (k, g k)) (js_uniq ks)) = js_uniq ks" by (simp add: comp_def)
  have "fromEntries (map (\<lambda>k. (k, g k)) (ks @ [k])) = AList.update k (g k) (map (\<lambda>k. (k, g k)) (js_uniq ks))"
    using snoc by (simp add: fromEntries_def)
  also have "\<dots> = map (\<lambda>k. (k, g k)) (js_uniq (ks @ [k]))"
  proof (cases "k \<in> set ks")
    case True
    then show ?thesis using keys by (simp only: js_uniq_snoc if_True) (rule update_same; simp)
  next
    case False
    then show ?thesis using update_new [of k "map (\<lambda>k. (k, g k)) (js_uniq ks)"] by (simp add: js_uniq_snoc comp_def)
  qed
  finally show ?case .
qed (simp add: fromEntries_def)

lemma map_of_keys: "map_of (map (\<lambda>k. (k, g k)) ks) k = (if k \<in> set ks then Some (g k) else None)"
  by (simp add: map_of_map_restrict restrict_map_def)

section \<open>Normal tiers\<close>

definition is_double :: "jsnum \<Rightarrow> bool" where
  "is_double x \<longleftrightarrow> (case x of Fin q \<Rightarrow> double q | _ \<Rightarrow> True)"

lemma double_zero: "double 0"
  by (simp add: double_def js_round_def)

lemma cleanPrice_good: "is_double x \<Longrightarrow> good_price (cleanPrice x)"
  by (cases x) (auto simp: is_double_def cleanPrice_def badPrice_def good_price_def double_zero)

lemma cleanPrice_idem [simp]: "cleanPrice (cleanPrice x) = cleanPrice x"
  by (auto simp: cleanPrice_def badPrice_def)

lemma cleanPrice_zero [simp]: "cleanPrice (Fin 0) = Fin 0"
  by (simp add: cleanPrice_def)

definition storedPrice :: "task_tier \<Rightarrow> jstring \<Rightarrow> jsnum" where
  "storedPrice t field = (case map_of (tt_unitPrices t) field of None \<Rightarrow> Fin 0 | Some v \<Rightarrow> cleanPrice v)"

lemma normal_prices:
  "tt_unitPrices (normalizeTaskTier lc schema i t) = map (\<lambda>f. (f, storedPrice t f)) (js_uniq (map fst (getTaskNumberFields lc schema)))"
  by (simp add: normalizeTaskTier_def fromEntries_map storedPrice_def)

definition normal :: "compare \<Rightarrow> usage_schema \<Rightarrow> task_tier \<Rightarrow> bool" where
  "normal lc schema t \<longleftrightarrow> (\<forall>i. normalizeTaskTier lc schema i t = t)"

lemma normal_normalize: "normal lc schema (normalizeTaskTier lc schema i t)"
proof -
  define n where "n = normalizeTaskTier lc schema i t"
  have "normalizeTaskTier lc schema j n = n" for j
  proof (rule task_tier.equality)
    show "tt_label (normalizeTaskTier lc schema j n) = tt_label n" by (simp add: n_def normalizeTaskTier_def)
    show "tt_conditions (normalizeTaskTier lc schema j n) = tt_conditions n" by (simp add: n_def normalizeTaskTier_def)
    show "tt_constant (normalizeTaskTier lc schema j n) = tt_constant n" by (simp add: n_def normalizeTaskTier_def)
    have "storedPrice n f = storedPrice t f" if "f \<in> set (js_uniq (map fst (getTaskNumberFields lc schema)))" for f
      using that by (auto simp: storedPrice_def [of n] n_def normal_prices map_of_keys storedPrice_def split: option.splits)
    then show "tt_unitPrices (normalizeTaskTier lc schema j n) = tt_unitPrices n"
      unfolding normal_prices n_def by (intro map_cong) (simp_all add: n_def)
  qed simp
  then show ?thesis by (simp add: normal_def n_def)
qed

lemma normal_clear: "normal lc schema t \<Longrightarrow> normal lc schema (t\<lparr>tt_conditions := []\<rparr>)"
proof -
  assume "normal lc schema t"
  then have n: "normalizeTaskTier lc schema i t = t" for i by (simp add: normal_def)
  show ?thesis unfolding normal_def
  proof
    fix i
    show "normalizeTaskTier lc schema i (t\<lparr>tt_conditions := []\<rparr>) = t\<lparr>tt_conditions := []\<rparr>"
      using n [of i] by (cases t) (auto simp: normalizeTaskTier_def split: if_splits)
  qed
qed

lemma normal_list:
  assumes "ts \<noteq> []" and "list_all (normal lc schema) ts"
  shows "normalizeTaskVisualConfig lc (Some ts) schema = ts"
proof -
  have "map (\<lambda>(i, t). normalizeTaskTier lc schema i t) (enumerate 0 ts) = ts"
    using assms(2) by (intro nth_equalityI) (auto simp: nth_enumerate_eq normal_def list_all_length)
  then show ?thesis using assms(1) by (cases ts) (simp_all add: normalizeTaskVisualConfig_def)
qed

lemma default_normal: "list_all (normal lc schema) (createDefaultTaskVisualConfig lc schema)"
proof -
  define ks where "ks = map fst (getTaskNumberFields lc schema)"
  define t where "t = \<lparr>tt_label = lit ''base'', tt_conditions = [], tt_constant = Fin 0, tt_unitPrices = map (\<lambda>f. (f, Fin 0)) (js_uniq ks)\<rparr>"
  have "createDefaultTaskVisualConfig lc schema = [t]"
    using fromEntries_map [of "\<lambda>_. Fin 0" ks] by (simp add: createDefaultTaskVisualConfig_def t_def ks_def comp_def split_def)
  moreover have "normalizeTaskTier lc schema i t = t" for i
  proof (rule task_tier.equality)
    have "storedPrice t f = Fin 0" if "f \<in> set (js_uniq ks)" for f
      using that by (simp add: storedPrice_def t_def map_of_keys)
    then show "tt_unitPrices (normalizeTaskTier lc schema i t) = tt_unitPrices t"
      unfolding normal_prices ks_def [symmetric] by (simp add: t_def)
  qed (simp_all add: normalizeTaskTier_def t_def)
  ultimately show ?thesis by (simp add: normal_def)
qed

lemma normal_config:
  "normalizeTaskVisualConfig lc config schema \<noteq> []" "list_all (normal lc schema) (normalizeTaskVisualConfig lc config schema)"
proof -
  show "normalizeTaskVisualConfig lc config schema \<noteq> []"
    by (auto simp: normalizeTaskVisualConfig_def createDefaultTaskVisualConfig_def enumerate_eq_zip split: option.splits list.splits)
  show "list_all (normal lc schema) (normalizeTaskVisualConfig lc config schema)"
    using default_normal by (auto simp: normalizeTaskVisualConfig_def list_all_iff normal_normalize split: option.splits list.splits)
qed

interpretation task_prices: normaliser "\<lambda>tiers. normalizeTaskVisualConfig lc (Some tiers) schema" for lc schema
  by unfold_locales (rule normal_list [OF normal_config])

section \<open>Printing\<close>

text \<open>What a configuration may contain: labels without an opening parenthesis, and doubles.\<close>

definition plain_tier :: "task_tier \<Rightarrow> bool" where
  "plain_tier t \<longleftrightarrow> 40 \<notin> set (tt_label t) \<and> is_double (tt_constant t) \<and> list_all (is_double \<circ> snd) (tt_unitPrices t)"

definition plain_config :: "task_tier list option \<Rightarrow> bool" where
  "plain_config config \<longleftrightarrow> (case config of None \<Rightarrow> True | Some ts \<Rightarrow> list_all plain_tier ts)"

lemma decimal_plain: "40 \<notin> set (js_decimal n)"
  using js_decimal_digits [of 40 n] by (auto simp: is_digit_def)

lemma storedPrice_good: "plain_tier t \<Longrightarrow> good_price (storedPrice t f)"
proof (cases "map_of (tt_unitPrices t) f")
  case None
  then show ?thesis by (simp add: storedPrice_def good_price_def double_zero)
next
  case (Some v)
  assume "plain_tier t"
  then have "is_double v" using map_of_SomeD [OF Some] by (auto simp: plain_tier_def list_all_iff)
  then show ?thesis by (simp add: storedPrice_def Some cleanPrice_good)
qed

lemma normalized_tier:
  assumes "wf_schema schema" and "plain_tier t"
  shows "priced (getTaskNumberFields lc schema) (normalizeTaskTier lc schema i t)"
    "40 \<notin> set (tt_label (normalizeTaskTier lc schema i t))"
    "list_all (\<lambda>(f, v). v \<in> set (enumValues schema f)) (tt_conditions (normalizeTaskTier lc schema i t))"
proof -
  have "js_uniq (map fst (getTaskNumberFields lc schema)) = map fst (getTaskNumberFields lc schema)"
    using distinct_fields(1) [OF assms(1)] by (rule js_uniq_fix)
  then show "priced (getTaskNumberFields lc schema) (normalizeTaskTier lc schema i t)"
    using storedPrice_good [OF assms(2)] cleanPrice_good assms(2)
    by (auto simp: priced_def normal_prices comp_def list_all_iff plain_tier_def) (simp add: normalizeTaskTier_def)
  show "40 \<notin> set (tt_label (normalizeTaskTier lc schema i t))"
    using assms(2) decimal_plain by (auto simp: normalizeTaskTier_def plain_tier_def js_eval)
  show "list_all (\<lambda>(f, v). v \<in> set (enumValues schema f)) (tt_conditions (normalizeTaskTier lc schema i t))"
    by (auto simp: normalizeTaskTier_def list_all_iff enumValues_fields [OF assms(1)])
qed

lemma default_plain: "list_all plain_tier (createDefaultTaskVisualConfig lc schema)"
proof -
  have E: "map (\<lambda>(f, _). (f, Fin 0)) (getTaskNumberFields lc schema) = map (\<lambda>f. (f, Fin 0)) (map fst (getTaskNumberFields lc schema))"
    by auto
  show ?thesis
    unfolding createDefaultTaskVisualConfig_def E fromEntries_map
    by (auto simp: plain_tier_def list_all_iff is_double_def double_zero js_eval)
qed

lemma normalized_config:
  assumes "wf_schema schema" and "plain_config config" and "n \<in> set (normalizeTaskVisualConfig lc config schema)"
  shows "priced (getTaskNumberFields lc schema) n" "40 \<notin> set (tt_label n)"
    "list_all (\<lambda>(f, v). v \<in> set (enumValues schema f)) (tt_conditions n)"
proof -
  obtain i t where "n = normalizeTaskTier lc schema i t" "plain_tier t"
  proof (cases "\<exists>t ts. config = Some (t # ts)")
    case True
    then obtain t ts where c: "config = Some (t # ts)" by blast
    then obtain i u where u: "n = normalizeTaskTier lc schema i u" "(i, u) \<in> set (enumerate 0 (t # ts))"
      using assms(3) by (auto simp: normalizeTaskVisualConfig_def)
    have "u \<in> set (t # ts)" using u(2) unfolding enumerate_eq_zip by (rule set_zip_rightD)
    then have "plain_tier u" using assms(2) c by (auto simp: plain_config_def list_all_iff)
    then show thesis using u(1) by (rule that [rotated])
  next
    case False
    then have "n \<in> set (createDefaultTaskVisualConfig lc schema)"
      using assms(3) by (auto simp: normalizeTaskVisualConfig_def split: option.splits list.splits)
    then have "normalizeTaskTier lc schema 0 n = n" and "plain_tier n"
      using default_normal [of lc schema] default_plain [of lc schema] by (simp_all add: list_all_iff normal_def)
    then show thesis using that [of 0 n] by simp
  qed
  with normalized_tier [OF assms(1), of t lc i]
  show "priced (getTaskNumberFields lc schema) n" "40 \<notin> set (tt_label n)"
    "list_all (\<lambda>(f, v). v \<in> set (enumValues schema f)) (tt_conditions n)" by simp_all
qed

lemma quote_plain: "40 \<notin> set s \<Longrightarrow> 40 \<notin> set (json_quote s)"
proof -
  have "40 \<notin> set (hex4 c)" for c
  proof -
    have "hex_unit d \<noteq> 40" for d by (auto simp: hex_unit_def)
    then show ?thesis by (auto simp: hex4_def dest: sym)
  qed
  then have U: "c \<noteq> 40 \<Longrightarrow> 40 \<notin> set (quote_unit c)" for c by (auto simp: quote_unit_def)
  show "40 \<notin> set s \<Longrightarrow> 40 \<notin> set (json_quote s)"
    unfolding json_quote_def by (induction s rule: quote_units.induct) (auto dest: U [rotated] simp: U)
qed

lemma usageText_no_rule: "40 \<notin> set f \<Longrightarrow> no_ws_paren True (usageText f)"
proof -
  assume "40 \<notin> set f"
  then have "no_ws_paren True (json_quote f)" by (intro no_ws_paren_free quote_plain)
  moreover have "no_ws_paren True (lit ''u('')" by (simp add: js_eval is_ws_def)
  ultimately show ?thesis unfolding usageText_def by (intro no_ws_paren_append) simp_all
qed

lemma number_no_rule: "good_price x \<Longrightarrow> no_ws_paren True (js_numberText x)"
  using good_price_text(4) [of x] by (intro no_ws_paren_free) (auto simp: list_all_iff num_unit_def is_digit_def)

lemma call_no_rule:
  assumes "priced nf t" and "distinct (map fst nf)" and "40 \<notin> set (tt_label t)" and "\<And>f d. (f, d) \<in> set nf \<Longrightarrow> 40 \<notin> set f"
  shows "no_ws_paren True (generateTaskTierCall t nf)"
proof -
  have "no_ws_paren True p" if p: "p \<in> set (bodyTerms t nf)" for p
  proof (cases "p \<in> set (map (priceTerm t) nf)")
    case True
    then obtain f d where "p = priceTerm t (f, d)" "(f, d) \<in> set nf" by auto
    moreover have "no_ws_paren True ([32, 42, 32] :: jstring)" "no_ws_paren True (scaleTail b)" for b
      by (simp_all add: scaleTail_def js_eval is_ws_def)
    ultimately show ?thesis
      using assms(4) usageText_no_rule number_no_rule [OF priced_prices(2) [OF assms(1,2)]]
        no_ws_paren_append [of True "usageText f"] no_ws_paren_append [of True "[32, 42, 32]"] no_ws_paren_append [of True "js_numberText (priceOf (tt_unitPrices t) f)"]
      by (simp add: priceTerm_text)
  next
    case False
    then have "p = js_numberText (tt_constant t)" using p by (auto simp: bodyTerms_def split: if_splits)
    then show ?thesis using number_no_rule assms(1) by (simp add: priced_def)
  qed
  then have "no_ws_paren True (generateTaskTierBody t nf)"
    unfolding body_text by (rule no_ws_paren_join) (simp_all add: opText_def js_eval)
  moreover have "no_ws_paren True (json_quote (tt_label t))" using assms(3) by (intro no_ws_paren_free quote_plain)
  moreover have "no_ws_paren True (lit ''tier('')" "no_ws_paren True (lit '', '')" by (simp_all add: js_eval is_ws_def)
  ultimately show ?thesis unfolding generateTaskTierCall_def by (intro no_ws_paren_append) simp_all
qed

lemma condition_no_rule:
  assumes "\<And>f v. (f, v) \<in> set cs \<Longrightarrow> 40 \<notin> set f \<and> 40 \<notin> set v"
  shows "no_ws_paren True (generateTaskCondition cs)"
  unfolding generateTaskCondition_def
proof (rule no_ws_paren_join)
  show "no_ws_paren True (lit '' && '')" by (simp add: js_eval)
  fix p assume "p \<in> set (map taskConditionText cs)"
  then obtain f v where "p = taskConditionText (f, v)" "(f, v) \<in> set cs" by auto
  moreover have "no_ws_paren True (lit '' == '')" by (simp add: js_eval)
  ultimately show "no_ws_paren True p"
    using assms [of f v] usageText_no_rule by (auto simp: taskConditionText_def intro!: no_ws_paren_append no_ws_paren_free [OF quote_plain])
qed

lemma tiersText_no_rule:
  assumes "\<And>t. t \<in> set ts \<Longrightarrow> no_ws_paren True (generateTaskTierCall t nf) \<and> no_ws_paren True (generateTaskCondition (tt_conditions t))"
  shows "no_ws_paren True (tiersText nf ts)"
  using assms
proof (induction nf ts rule: tiersText.induct)
  case (3 nf t u us)
  have "no_ws_paren True (tiersText nf (t # u # us)) \<longleftrightarrow>
    no_ws_paren True (generateTaskCondition (tt_conditions t) @ [32, 63, 32] @ generateTaskTierCall t nf @ [32, 58, 32] @ tiersText nf (u # us))"
    by simp
  moreover have "no_ws_paren True ([32, 63, 32] :: jstring)" "no_ws_paren True ([32, 58, 32] :: jstring)" by simp_all
  ultimately show ?case using 3 by (simp only:) (intro no_ws_paren_append; simp)
qed simp_all

section \<open>Round trip\<close>

lemma condition_empty: "generateTaskCondition cs = [] \<longleftrightarrow> cs = []"
  using condition_ends(1) by (auto simp: generateTaskCondition_def)

lemma generate_text:
  assumes "getTaskNumberFields lc schema \<noteq> []"
  defines "tiers config \<equiv> normalizeTaskVisualConfig lc config schema"
  shows "generateTaskExprFromConfig lc config schema =
    (if list_ex (\<lambda>t. tt_conditions t = []) (butlast (tiers config)) then [] else tiersText (getTaskNumberFields lc schema) (tiers config))"
proof (cases "length (tiers config) = 1")
  case True
  then obtain t where "tiers config = [t]" by (auto simp: length_Suc_conv)
  then show ?thesis using assms(1) by (simp add: generateTaskExprFromConfig_def tiers_def)
next
  case False
  have "tiers config \<noteq> []" unfolding tiers_def by (rule normal_config(1))
  from False tiersText_join [OF this] assms(1) show ?thesis
    by (simp add: generateTaskExprFromConfig_def tiers_def [symmetric] condition_empty Let_def)
qed

lemma config_printable:
  assumes "wf_schema schema" and "plain_config config"
    and "\<not> list_ex (\<lambda>t. tt_conditions t = []) (butlast (normalizeTaskVisualConfig lc config schema))"
  shows "printable schema (getTaskNumberFields lc schema) (normalizeTaskVisualConfig lc config schema)"
proof -
  note N = normalized_config [OF assms(1,2), where lc = lc]
  show ?thesis unfolding printable_def list_all_iff [where P = "priced _"] list_all_iff [where xs = "butlast _"]
  proof (intro conjI ballI)
    fix t assume t: "t \<in> set (butlast (normalizeTaskVisualConfig lc config schema))"
    then show "tt_conditions t \<noteq> []" using assms(3) by (auto simp: list_ex_iff)
    show "list_all (\<lambda>(f, v). v \<in> set (enumValues schema f)) (tt_conditions t)" by (rule N(3) [OF in_set_butlastD [OF t]])
  qed (rule N(1))
qed

lemma parse_text:
  assumes "wf_schema schema" and "ts \<noteq> []" and "getTaskNumberFields lc schema \<noteq> []"
    and "printable schema (getTaskNumberFields lc schema) ts"
    and "\<And>t. t \<in> set ts \<Longrightarrow> 40 \<notin> set (tt_label t)"
    and "\<And>t f v. t \<in> set ts \<Longrightarrow> (f, v) \<in> set (tt_conditions t) \<Longrightarrow> v \<in> set (enumValues schema f)"
  defines "e \<equiv> tiersText (getTaskNumberFields lc schema) ts"
  shows "parseTaskTiersFromExpr other e (Some schema) = clearLast ts"
    "splitBillingExprAndRequestRules other e = Gave (e, [])" "e \<noteq> []"
proof -
  define nf where "nf = getTaskNumberFields lc schema"
  have nf: "distinct (map fst nf)" "\<And>f d. (f, d) \<in> set nf \<Longrightarrow> number_field schema f d" "\<And>f d. (f, d) \<in> set nf \<Longrightarrow> 40 \<notin> set f"
    using distinct_fields(1) number_fields number_field_plain assms(1) unfolding nf_def by blast+
  have ends: "e \<noteq> []" "hd e = 116 \<or> hd e = 117" using tiersText_ends [OF assms(4,2)] by (simp_all add: e_def)
  have trim: "js_trim e = e" using tiersText_trim(1) [OF assms(4,2)] by (simp add: e_def)
  have "no_ws_paren True e"
    unfolding e_def nf_def [symmetric]
  proof (rule tiersText_no_rule, rule conjI)
    fix t assume t: "t \<in> set ts"
    then have "priced nf t" using assms(4) by (simp add: printable_def list_all_iff nf_def)
    then show "no_ws_paren True (generateTaskTierCall t nf)" using nf(1) assms(5) [OF t] nf(3) by (rule call_no_rule)
    show "no_ws_paren True (generateTaskCondition (tt_conditions t))"
      using enumValues_plain [OF assms(1)] assms(6) [OF t] by (intro condition_no_rule) blast
  qed
  with no_rules [of e other] trim show split: "splitBillingExprAndRequestRules other e = Gave (e, [])" by simp
  have "stripPrefix [118] e = None" using ends by (cases e) (auto simp: stripPrefix_def)
  then have "snd (stripExprVersion e) = e" by (simp add: stripExprVersion_def)
  moreover have "schema \<noteq> []" using assms(3) by (auto simp: getTaskNumberFields_def js_sort_def)
  moreover have "parseTiers schema e = Some (clearLast ts)"
    unfolding e_def using parseTiers_text [OF assms(4,2) nf(2,1) [unfolded nf_def] assms(3)] by simp
  ultimately show "parseTaskTiersFromExpr other e (Some schema) = clearLast ts"
    using ends(1) by (simp add: parseTaskTiersFromExpr_def split trim)
  show "e \<noteq> []" by (rule ends(1))
qed

lemma parse_config:
  assumes "wf_schema schema" and "getTaskNumberFields lc schema \<noteq> []" and "plain_config config"
    and "\<not> list_ex (\<lambda>t. tt_conditions t = []) (butlast (normalizeTaskVisualConfig lc config schema))"
  defines "e \<equiv> generateTaskExprFromConfig lc config schema"
  shows "parseTaskTiersFromExpr other e (Some schema) = clearLast (normalizeTaskVisualConfig lc config schema)"
    "splitBillingExprAndRequestRules other e = Gave (e, [])" "e \<noteq> []"
proof -
  define ts where "ts = normalizeTaskVisualConfig lc config schema"
  have e: "e = tiersText (getTaskNumberFields lc schema) ts"
    using generate_text [OF assms(2), of config] assms(4) by (simp add: e_def ts_def)
  note N = normalized_config [OF assms(1,3), where lc = lc, folded ts_def]
  note P = parse_text [OF assms(1) _ assms(2), of ts, folded e]
  have "ts \<noteq> []" "printable schema (getTaskNumberFields lc schema) ts"
    using normal_config(1) config_printable [OF assms(1,3,4)] by (simp_all add: ts_def)
  moreover have "\<And>t f v. t \<in> set ts \<Longrightarrow> (f, v) \<in> set (tt_conditions t) \<Longrightarrow> v \<in> set (enumValues schema f)"
    using N(3) by (fastforce simp: list_all_iff)
  ultimately show "parseTaskTiersFromExpr other e (Some schema) = clearLast (normalizeTaskVisualConfig lc config schema)"
    "splitBillingExprAndRequestRules other e = Gave (e, [])" "e \<noteq> []"
    using P N(2) unfolding ts_def by blast+
qed

lemma normalize_clear:
  "normalizeTaskVisualConfig lc (Some (clearLast (normalizeTaskVisualConfig lc config schema))) schema =
    clearLast (normalizeTaskVisualConfig lc config schema)"
proof (rule normal_list)
  note N = normal_config [where lc = lc and config = config and schema = schema]
  show "clearLast (normalizeTaskVisualConfig lc config schema) \<noteq> []" using N(1) by (simp add: clearLast_def)
  show "list_all (normal lc schema) (clearLast (normalizeTaskVisualConfig lc config schema))"
    using N by (auto simp: clearLast_def list_all_iff intro!: normal_clear dest: in_set_butlastD)
qed

lemma parse_visual:
  assumes "wf_schema schema" and "getTaskNumberFields lc schema \<noteq> []" and "plain_config config"
    and "\<not> list_ex (\<lambda>t. tt_conditions t = []) (butlast (normalizeTaskVisualConfig lc config schema))"
  shows "tryParseTaskVisualConfig other lc (Some (generateTaskExprFromConfig lc config schema)) schema =
    Some (clearLast (normalizeTaskVisualConfig lc config schema))"
proof -
  have "clearLast (normalizeTaskVisualConfig lc config schema) \<noteq> []"
    using normal_config(1) by (simp add: clearLast_def)
  then show ?thesis
    using parse_config [OF assms] by (simp add: tryParseTaskVisualConfig_def normalize_clear Let_def)
qed

text \<open>A video model: priced by the second and by a million tokens, in two sizes.\<close>

fun unitCompare :: compare where
  "unitCompare [] [] = 0"
| "unitCompare [] _ = - 1"
| "unitCompare _ [] = 1"
| "unitCompare (a # s) (b # t) = (if a < b then - 1 else if b < a then 1 else unitCompare s t)"

definition video_schema :: usage_schema where
  "video_schema =
     [(lit ''tokens'', \<lparr>uf_type = Some NumberT, uf_unit = Some TokenU, uf_enum = None\<rparr>),
      (lit ''size'', \<lparr>uf_type = None, uf_unit = None, uf_enum = Some [lit ''hd'', lit ''sd'']\<rparr>),
      (lit ''seconds'', \<lparr>uf_type = Some NumberT, uf_unit = Some SecondU, uf_enum = None\<rparr>)]"

definition video_tiers :: "task_tier list" where
  "video_tiers =
     [\<lparr>tt_label = lit ''hd'', tt_conditions = [(lit ''size'', lit ''hd'')], tt_constant = Fin 2,
        tt_unitPrices = [(lit ''seconds'', Fin 3), (lit ''tokens'', Fin 0)]\<rparr>,
      \<lparr>tt_label = lit ''sd'', tt_conditions = [], tt_constant = Fin 0,
        tt_unitPrices = [(lit ''seconds'', Fin 1), (lit ''tokens'', Fin 5)]\<rparr>]"

definition video_clip :: usage_example where
  "video_clip = \<lparr>ue_label = lit ''clip'', ue_facts = [(lit ''size'', TextF (lit ''hd'')), (lit ''seconds'', NumberF (Fin 4))]\<rparr>"

definition video_draft :: usage_example where
  "video_draft = \<lparr>ue_label = lit ''draft'', ue_facts = [(lit ''size'', TextF (lit ''sd'')), (lit ''seconds'', NumberF (Fin 4))]\<rparr>"

lemma double_int: "\<bar>n\<bar> < 2 ^ 53 \<Longrightarrow> double (of_int n)"
  by (simp add: double_def js_round_int)

lemma video_schema_ok: "wf_schema video_schema" "getTaskNumberFields unitCompare video_schema \<noteq> []"
  by code_simp+

lemma video_tiers_ok: "plain_config (Some video_tiers)"
  using double_int [of 1] double_int [of 2] double_int [of 3] double_int [of 5] double_zero
  by (simp add: plain_config_def video_tiers_def plain_tier_def is_double_def js_eval)

lemma video_tiers_normal: "normalizeTaskVisualConfig unitCompare (Some video_tiers) video_schema = video_tiers"
  by code_simp



section \<open>Preview\<close>

lemma matched_clear:
  assumes "ts \<noteq> []"
  shows "tt_constant (matchedTier (clearLast ts) sample) = tt_constant (matchedTier ts sample)"
    "tt_unitPrices (matchedTier (clearLast ts) sample) = tt_unitPrices (matchedTier ts sample)"
  using assms by (simp_all add: matchedTier_def clearLast_def split: option.splits)

lemma evaluate_clear:
  assumes "ts \<noteq> []"
  shows "map_option tp_total (evaluateTaskVisualConfig (clearLast ts) sample schema) =
    map_option tp_total (evaluateTaskVisualConfig ts sample schema)"
proof -
  have "clearLast ts \<noteq> []" using assms by (simp add: clearLast_def)
  then show ?thesis
    using assms unfolding evaluateTaskVisualConfig_def Let_def matched_clear [OF assms]
    by (auto split: option.splits prod.splits)
qed

lemma video_totals:
  "map_option tp_total (evaluateTaskVisualConfig video_tiers (ue_facts video_clip) (Some video_schema)) = Some (Fin 14)"
  "evaluateTaskVisualConfig video_tiers (ue_facts video_draft) (Some video_schema) = None"
proof -
  have m: "matchedTier video_tiers (ue_facts video_clip) = video_tiers ! 0"
    "matchedTier video_tiers (ue_facts video_draft) = video_tiers ! 1" by code_simp+
  have r: "js_round 2 = Fin 2" "js_round 4 = Fin 4" "js_round 12 = Fin 12" "js_round 14 = Fin 14"
    using js_round_int [of 2] js_round_int [of 4] js_round_int [of 12] js_round_int [of 14] by simp_all
  show "map_option tp_total (evaluateTaskVisualConfig video_tiers (ue_facts video_clip) (Some video_schema)) = Some (Fin 14)"
    unfolding evaluateTaskVisualConfig_def m Let_def
    by (simp add: video_tiers_def video_clip_def video_draft_def video_schema_def usageAmount_def factNumber_def badPrice_def r js_eval)
  show "evaluateTaskVisualConfig video_tiers (ue_facts video_draft) (Some video_schema) = None"
    unfolding evaluateTaskVisualConfig_def m Let_def
    by (simp add: video_tiers_def video_clip_def video_draft_def video_schema_def usageAmount_def factNumber_def badPrice_def r js_eval)
qed

text \<open>C32. The totals that the price page computes for its usage examples from the stored expression are the totals
  of the configuration that was being edited, on every example, including which examples have none.\<close>

theorem task_preview_faithful:
  assumes "wf_schema schema" and "getTaskNumberFields lc schema \<noteq> []" and "plain_config config"
    and "\<not> list_ex (\<lambda>t. tt_conditions t = []) (butlast (normalizeTaskVisualConfig lc config schema))"
  shows "evaluateTaskUsageExamples other lc (Some (generateTaskExprFromConfig lc config schema)) (Some schema) examples =
    Gave (List.map_filter (\<lambda>ex. map_option (\<lambda>total. (ue_label ex, total))
      (map_option tp_total (evaluateTaskVisualConfig (normalizeTaskVisualConfig lc config schema) (ue_facts ex) (Some schema)))) examples)"
proof -
  define e where "e = generateTaskExprFromConfig lc config schema"
  obtain c r where e: "e = c # r" using parse_config(3) [OF assms] by (cases e) (simp_all add: e_def)
  have split: "splitBillingExprAndRequestRules other e = Gave (e, [])" unfolding e_def by (rule parse_config(2) [OF assms])
  have vis: "tryParseTaskVisualConfig other lc (Some e) schema = Some (clearLast (normalizeTaskVisualConfig lc config schema))"
    unfolding e_def by (rule parse_visual [OF assms])
  define T where "T ts ex = map_option (\<lambda>r. (ue_label ex, tp_total r)) (evaluateTaskVisualConfig ts (ue_facts ex) (Some schema))" for ts and ex :: usage_example
  have "evaluateTaskUsageExamples other lc (Some e) (Some schema) examples =
      Gave (List.map_filter (T (clearLast (normalizeTaskVisualConfig lc config schema))) examples)"
    using split vis unfolding T_def e
    by (cases "examples = []") (simp_all add: evaluateTaskUsageExamples_def List.map_filter_simps)
  moreover have "T (clearLast (normalizeTaskVisualConfig lc config schema)) =
    (\<lambda>ex. map_option (\<lambda>total. (ue_label ex, total)) (map_option tp_total (evaluateTaskVisualConfig (normalizeTaskVisualConfig lc config schema) (ue_facts ex) (Some schema))))"
    unfolding evaluate_clear [OF normal_config(1), symmetric] T_def by (simp add: option.map_comp comp_def)
  ultimately show ?thesis unfolding e_def by simp
qed

theorem task_preview_faithful_witness:
  "evaluateTaskUsageExamples (\<lambda>_. None) unitCompare (Some (generateTaskExprFromConfig unitCompare (Some video_tiers) video_schema))
     (Some video_schema) [video_clip, video_draft] = Gave [(lit ''clip'', Fin 14)]"
proof -
  have "\<not> list_ex (\<lambda>t. tt_conditions t = []) (butlast video_tiers)" by code_simp
  moreover have "ue_label video_clip = lit ''clip''" by (simp add: video_clip_def)
  ultimately show ?thesis
    using task_preview_faithful [OF video_schema_ok video_tiers_ok, of "\<lambda>_. None" "[video_clip, video_draft]"]
    unfolding video_tiers_normal by (simp add: List.map_filter_simps video_totals)
qed

end
