(* ===== verification/TaskMatrix.thy ===== *)
theory TaskMatrix
  imports TaskPrices
begin

text \<open>
  The price matrix: a row for every combination of the enumerated fields. It is stored as a chain of
  tiers whose last one, the fallback, stands for the last combination. The combinations are shown to be
  distinct and complete and their keys to identify them; then a stored matrix is read back as it was, and
  the chain charges for every combination what its row says.
\<close>

section \<open>Combinations\<close>

lemma extend_product:
  assumes "\<And>c. c \<in> set cs \<Longrightarrow> fst e \<notin> set (map fst c)"
  shows "extendCombinations e cs = map (\<lambda>(c, v). c @ [(fst e, v)]) (List.product cs (fieldEnum (snd e)))"
  using assms by (induction cs) (auto simp: extendCombinations_def update_new comp_def)

lemma combinations_of:
  assumes "distinct (map fst es)" and "\<And>f d. (f, d) \<in> set es \<Longrightarrow> distinct (fieldEnum d) \<and> fieldEnum d \<noteq> []"
  shows "distinct (fold extendCombinations es [[]]) \<and> fold extendCombinations es [[]] \<noteq> [] \<and>
    (\<forall>c \<in> set (fold extendCombinations es [[]]). map fst c = map fst es \<and> (\<forall>(f, v) \<in> set c. \<exists>d. (f, d) \<in> set es \<and> v \<in> set (fieldEnum d)))"
  using assms
proof (induction es rule: rev_induct)
  case (snoc e es)
  define cs where "cs = fold extendCombinations es [[]]"
  have P: "distinct (map fst es)" "\<And>f d. (f, d) \<in> set es \<Longrightarrow> distinct (fieldEnum d) \<and> fieldEnum d \<noteq> []"
    using snoc.prems by auto
  have IH: "distinct cs" "cs \<noteq> []" "\<And>c. c \<in> set cs \<Longrightarrow> map fst c = map fst es"
    "\<And>c f v. c \<in> set cs \<Longrightarrow> (f, v) \<in> set c \<Longrightarrow> \<exists>d. (f, d) \<in> set es \<and> v \<in> set (fieldEnum d)"
    using snoc.IH [OF P] unfolding cs_def [symmetric] by fastforce+
  have e: "fst e \<notin> set (map fst es)" "distinct (fieldEnum (snd e))" "fieldEnum (snd e) \<noteq> []"
    using snoc.prems(1) snoc.prems(2) [of "fst e" "snd e"] by auto
  have new: "fold extendCombinations (es @ [e]) [[]] = map (\<lambda>(c, v). c @ [(fst e, v)]) (List.product cs (fieldEnum (snd e)))"
    using extend_product [of cs e] IH(3) e(1) by (simp add: cs_def)
  have "distinct (List.product cs (fieldEnum (snd e)))" using IH(1) e(2) by (rule distinct_product)
  then have "distinct (map (\<lambda>(c, v). c @ [(fst e, v)]) (List.product cs (fieldEnum (snd e))))"
    by (auto simp: distinct_map inj_on_def)
  moreover have "List.product cs (fieldEnum (snd e)) \<noteq> []" using IH(2) e(3) by (cases cs; cases "fieldEnum (snd e)") auto
  moreover have "map fst x = map fst (es @ [e]) \<and> (\<forall>(f, v) \<in> set x. \<exists>d. (f, d) \<in> set (es @ [e]) \<and> v \<in> set (fieldEnum d))"
    if x: "x \<in> set (map (\<lambda>(c, v). c @ [(fst e, v)]) (List.product cs (fieldEnum (snd e))))" for x
  proof -
    obtain c v where c: "x = c @ [(fst e, v)]" "c \<in> set cs" "v \<in> set (fieldEnum (snd e))" using x by auto
    show ?thesis using IH(3,4) [OF c(2)] c(3) by (auto simp: c(1)) (metis prod.collapse)+
  qed
  ultimately show ?case unfolding new by blast
qed simp

lemma enum_fields:
  assumes "wf_schema schema" and "(f, d) \<in> set (getTaskEnumFields lc schema)"
  shows "distinct (fieldEnum d)" "fieldEnum d \<noteq> []" "enumValues schema f = fieldEnum d"
proof -
  have d: "(f, d) \<in> set schema" "uf_enum d \<noteq> None" "uf_enum d \<noteq> Some []" using assms(2) by (auto simp: getTaskEnumFields_def)
  show "distinct (fieldEnum d)" "enumValues schema f = fieldEnum d"
    using wf_schema_entry [OF assms(1) d(1)] enumValues_Some by blast+
  show "fieldEnum d \<noteq> []" using d(2,3) by (auto simp: fieldEnum_def)
qed

lemma combinations:
  assumes "wf_schema schema"
  shows "distinct (getTaskEnumCombinations lc schema)" "getTaskEnumCombinations lc schema \<noteq> []"
    "c \<in> set (getTaskEnumCombinations lc schema) \<Longrightarrow> map fst c = map fst (getTaskEnumFields lc schema)"
    "c \<in> set (getTaskEnumCombinations lc schema) \<Longrightarrow> (f, v) \<in> set c \<Longrightarrow> v \<in> set (enumValues schema f)"
proof -
  note C = combinations_of [OF distinct_fields(2) [OF assms], of lc, folded getTaskEnumCombinations_def]
  have E: "\<And>f d. (f, d) \<in> set (getTaskEnumFields lc schema) \<Longrightarrow> distinct (fieldEnum d) \<and> fieldEnum d \<noteq> []"
    using enum_fields [OF assms] by blast
  show "distinct (getTaskEnumCombinations lc schema)" "getTaskEnumCombinations lc schema \<noteq> []"
    "c \<in> set (getTaskEnumCombinations lc schema) \<Longrightarrow> map fst c = map fst (getTaskEnumFields lc schema)"
    using C E by blast+
  assume "c \<in> set (getTaskEnumCombinations lc schema)" "(f, v) \<in> set c"
  then obtain d where "(f, d) \<in> set (getTaskEnumFields lc schema)" "v \<in> set (fieldEnum d)" using C E by blast
  then show "v \<in> set (enumValues schema f)" using enum_fields(3) [OF assms] by metis
qed

section \<open>Keys\<close>

lemma quote_inj: "json_quote s @ r = json_quote s' @ r' \<Longrightarrow> s = s' \<and> r = r'"
proof -
  assume "json_quote s @ r = json_quote s' @ r'"
  then have "quote_units s @ 34 # r = quote_units s' @ 34 # r'" by (simp add: json_quote_def)
  then have "unquote_units (quote_units s @ 34 # r) = unquote_units (quote_units s' @ 34 # r')" by (rule arg_cong)
  then show ?thesis by (simp only: unquote_quote_units option.inject prod.inject)
qed

lemma join_quotes_inj:
  "length vs = length vs' \<Longrightarrow> js_join [44] (map json_quote vs) @ r = js_join [44] (map json_quote vs') @ r' \<Longrightarrow> vs = vs' \<and> r = r'"
proof (induction vs arbitrary: vs')
  case (Cons v vs)
  obtain v' ws where vs': "vs' = v' # ws" "length vs = length ws" using Cons.prems(1) by (cases vs') auto
  show ?case
  proof (cases "vs = []")
    case True
    then have "json_quote v @ r = json_quote v' @ r'" "ws = []" using Cons.prems(2) vs' by simp_all
    with quote_inj [OF this(1)] True vs'(1) show ?thesis by simp
  next
    case False
    then have "ws \<noteq> []" using vs'(2) by auto
    have J: "js_join [44] (map json_quote (x # xs)) = json_quote x @ [44] @ js_join [44] (map json_quote xs)" if "xs \<noteq> []" for x xs
      using that by (cases xs) simp_all
    have "json_quote v @ [44] @ js_join [44] (map json_quote vs) @ r = json_quote v' @ [44] @ js_join [44] (map json_quote ws) @ r'"
      using Cons.prems(2) unfolding vs'(1) J [OF False] J [OF \<open>ws \<noteq> []\<close>] by simp
    from quote_inj [OF this] have "v = v'" "js_join [44] (map json_quote vs) @ r = js_join [44] (map json_quote ws) @ r'" by simp_all
    with Cons.IH [OF vs'(2)] vs'(1) show ?thesis by simp
  qed
qed simp

lemma lookup_snd: "distinct (map fst c) \<Longrightarrow> p \<in> set c \<Longrightarrow> map_of c (fst p) = Some (snd p)"
  by (intro map_of_is_SomeI) simp_all

lemma lookup_keys:
  assumes "map fst c = map fst es" and "distinct (map fst es)"
  shows "map (\<lambda>(f, _). g (map_of c f)) es = map (\<lambda>p. g (Some (snd p))) c"
proof -
  have "map (\<lambda>(f, _). g (map_of c f)) es = map (\<lambda>f. g (map_of c f)) (map fst es)" by auto
  also have "\<dots> = map (\<lambda>p. g (map_of c (fst p))) c" unfolding assms(1) [symmetric] by simp
  also have "\<dots> = map (\<lambda>p. g (Some (snd p))) c" using assms by (intro map_cong) (simp_all add: lookup_snd)
  finally show ?thesis .
qed

lemma key_text:
  assumes "map fst c = map fst es" and "distinct (map fst es)"
  shows "taskMatrixCombinationKey c es = [91] @ js_join [44] (map json_quote (map snd c)) @ [93]"
  using lookup_keys [OF assms, of "\<lambda>x. case x of None \<Rightarrow> lit ''null'' | Some v \<Rightarrow> json_quote v"]
  by (simp add: taskMatrixCombinationKey_def comp_def)

lemma key_inj:
  assumes "map fst c = map fst es" and "map fst c' = map fst es" and "distinct (map fst es)"
    and "taskMatrixCombinationKey c es = taskMatrixCombinationKey c' es"
  shows "c = c'"
proof -
  have "length (map snd c) = length (map snd c')" using assms(1,2) by (metis length_map)
  then have "map snd c = map snd c'"
    using join_quotes_inj [of "map snd c" "map snd c'" "[93]" "[93]"] assms(4) key_text [OF assms(1,3)] key_text [OF assms(2,3)] by simp
  then show ?thesis using assms(1,2) by (metis zip_map_fst_snd)
qed

lemma map_of_sort: "distinct (map fst c) \<Longrightarrow> map_of (js_sort cmp c) = map_of c"
proof
  fix k
  assume "distinct (map fst c)"
  then have "map_of (js_sort cmp c) k = Some v \<longleftrightarrow> map_of c k = Some v" for v
    by (simp add: map_of_eq_Some_iff distinct_js_sort)
  then show "map_of (js_sort cmp c) k = map_of c k" by (metis option.exhaust)
qed

lemma conditionMap_all:
  assumes "distinct (map fst (m @ cs))" and "\<And>f v. (f, v) \<in> set cs \<Longrightarrow> v \<in> set (enumValues schema f)"
  shows "conditionMap schema m cs = Some (m @ cs)"
  using assms by (induction schema m cs rule: conditionMap.induct) (auto simp: rev_image_eqI)

lemma tierKey_combination:
  assumes "wf_schema schema" and "c \<in> set (getTaskEnumCombinations lc schema)" and "tt_conditions t = js_sort cmp c"
  shows "tierKey schema (getTaskEnumFields lc schema) t = Some (taskMatrixCombinationKey c (getTaskEnumFields lc schema))"
proof -
  define ef where "ef = getTaskEnumFields lc schema"
  have c: "map fst c = map fst ef" "distinct (map fst ef)"
    using combinations(3) [OF assms(1,2)] distinct_fields(2) [OF assms(1)] by (simp_all add: ef_def)
  have len: "length (js_sort cmp c) = length ef" using c(1) by (metis length_js_sort length_map)
  have m: "conditionMap schema [] (js_sort cmp c) = Some (js_sort cmp c)"
    using conditionMap_all [of "[]" "js_sort cmp c" schema] c combinations(4) [OF assms(1,2)] by (simp add: distinct_js_sort)
  have E: "map (\<lambda>(f, _). (f, case map_of (js_sort cmp c) f of None \<Rightarrow> [] | Some v \<Rightarrow> v)) ef =
      map (\<lambda>f. (f, case map_of c f of None \<Rightarrow> [] | Some v \<Rightarrow> v)) (map fst ef)"
    using map_of_sort [of c cmp] c by auto
  have "fromEntries (map (\<lambda>(f, _). (f, case map_of (js_sort cmp c) f of None \<Rightarrow> [] | Some v \<Rightarrow> v)) ef) =
      map (\<lambda>f. (f, case map_of c f of None \<Rightarrow> [] | Some v \<Rightarrow> v)) (map fst ef)"
    unfolding E fromEntries_map using js_uniq_fix [OF c(2)] by simp
  also have "\<dots> = map (\<lambda>p. (fst p, case map_of c (fst p) of None \<Rightarrow> [] | Some v \<Rightarrow> v)) c" unfolding c(1) [symmetric] by simp
  also have "\<dots> = map id c" using c by (intro map_cong) (simp_all add: lookup_snd)
  finally show ?thesis using len m assms(3) unfolding tierKey_def ef_def [symmetric] by simp
qed

lemma keyTiers_all:
  assumes "list_all2 (\<lambda>k t. tierKey schema ef t = Some k) ks ts" and "distinct (map fst m @ ks)"
  shows "keyTiers schema ef m ts = Some (m @ zip ks ts)"
  using assms by (induction arbitrary: m rule: list_all2_induct) auto

lemma keys_distinct:
  assumes "wf_schema schema"
  shows "distinct (map (\<lambda>c. taskMatrixCombinationKey c (getTaskEnumFields lc schema)) (getTaskEnumCombinations lc schema))"
proof -
  have "inj_on (\<lambda>c. taskMatrixCombinationKey c (getTaskEnumFields lc schema)) (set (getTaskEnumCombinations lc schema))"
    using key_inj [OF combinations(3) combinations(3) distinct_fields(2)] assms by (intro inj_onI) blast
  then show ?thesis using combinations(1) [OF assms] by (simp add: distinct_map)
qed

section \<open>Rows as tiers\<close>

text \<open>A matrix that fits a schema: its rows are the combinations in order, priced by doubles.\<close>

definition matrix_ok :: "compare \<Rightarrow> usage_schema \<Rightarrow> task_row list \<Rightarrow> bool" where
  "matrix_ok lc schema rows \<longleftrightarrow> map tr_combination rows = getTaskEnumCombinations lc schema \<and>
     list_all (\<lambda>r. map fst (tr_unitPrices r) = map fst (getTaskNumberFields lc schema) \<and>
       good_price (tr_constant r) \<and> list_all (good_price \<circ> snd) (tr_unitPrices r)) rows"

lemma matrix_row:
  assumes "matrix_ok lc schema rows" and "r \<in> set rows"
  shows "map fst (tr_unitPrices r) = map fst (getTaskNumberFields lc schema)" "good_price (tr_constant r)"
    "list_all (good_price \<circ> snd) (tr_unitPrices r)" "tr_combination r \<in> set (getTaskEnumCombinations lc schema)"
  using assms by (auto simp: matrix_ok_def list_all_iff) (metis image_eqI list.set_map)

lemma fieldPrices_same:
  assumes "map fst ps = map fst nf" and "distinct (map fst nf)"
  shows "fieldPrices nf ps = ps"
proof -
  have E: "map (\<lambda>(f, _). (f, priceOf ps f)) nf = map (\<lambda>f. (f, priceOf ps f)) (map fst nf)" by auto
  have "fieldPrices nf ps = map (\<lambda>f. (f, priceOf ps f)) (map fst ps)"
    unfolding fieldPrices_def E fromEntries_map using js_uniq_fix [OF assms(2)] assms(1) by simp
  also have "\<dots> = map (\<lambda>p. (fst p, priceOf ps (fst p))) ps" by simp
  also have "\<dots> = map id ps" using assms by (intro map_cong) (simp_all add: priceOf_def lookup_snd)
  finally show ?thesis by simp
qed

lemma normalize_priced:
  assumes "wf_schema schema" and "priced (getTaskNumberFields lc schema) t"
    and "\<And>f v. (f, v) \<in> set (tt_conditions t) \<Longrightarrow> v \<in> set (enumValues schema f)"
  shows "tt_conditions (normalizeTaskTier lc schema i t) = tt_conditions t"
    "tt_constant (normalizeTaskTier lc schema i t) = tt_constant t"
    "tt_unitPrices (normalizeTaskTier lc schema i t) = tt_unitPrices t"
proof -
  have clean: "cleanPrice x = x" if "good_price x" for x using good_price_text(7) [OF that] by (simp add: cleanPrice_def)
  show "tt_conditions (normalizeTaskTier lc schema i t) = tt_conditions t"
    using assms(3) by (auto simp: normalizeTaskTier_def enumValues_fields [OF assms(1)] filter_id_conv)
  show "tt_constant (normalizeTaskTier lc schema i t) = tt_constant t"
    using clean assms(2) by (simp add: normalizeTaskTier_def priced_def)
  define ps where "ps = tt_unitPrices t"
  have ps: "map fst ps = map fst (getTaskNumberFields lc schema)" "distinct (map fst ps)" "list_all (good_price \<circ> snd) ps"
    using assms(2) distinct_fields(1) [OF assms(1), of lc] by (simp_all add: priced_def ps_def)
  have "tt_unitPrices (normalizeTaskTier lc schema i t) = map (\<lambda>f. (f, storedPrice t f)) (map fst ps)"
    unfolding normal_prices ps(1) [symmetric] js_uniq_fix [OF ps(2)] ..
  also have "\<dots> = map (\<lambda>p. (fst p, storedPrice t (fst p))) ps" by simp
  also have "\<dots> = map id ps"
    using ps(2,3) clean by (intro map_cong) (simp_all add: storedPrice_def ps_def [symmetric] lookup_snd list_all_iff)
  finally show "tt_unitPrices (normalizeTaskTier lc schema i t) = tt_unitPrices t" by (simp add: ps_def)
qed

lemma join_free: "c \<notin> set sep \<Longrightarrow> list_all (\<lambda>w. c \<notin> set w) ws \<Longrightarrow> c \<notin> set (js_join sep ws)"
  by (induction sep ws rule: js_join.induct) auto

lemma label_plain:
  assumes "wf_schema schema" and "c \<in> set (getTaskEnumCombinations lc schema)"
  shows "40 \<notin> set (taskMatrixRowLabel lc' c)"
proof -
  have "list_all (\<lambda>w. 40 \<notin> set w) (map snd (js_sort (byName lc') c))"
    using combinations(4) [OF assms] enumValues_plain [OF assms(1)] by (fastforce simp: list_all_iff)
  then show ?thesis using join_free [of 40 "[183]"] by (simp add: taskMatrixRowLabel_def Let_def js_eval)
qed

text \<open>The tiers of a matrix whose rows differ.\<close>

lemma tiers_of_rows:
  assumes "wf_schema schema" and "getTaskNumberFields lc schema \<noteq> []" and "matrix_ok lc schema rows"
    and "\<not> isUniform (getTaskNumberFields lc schema) (hd rows) rows"
  defines "ts \<equiv> taskMatrixToTiers lc rows schema"
  shows "length ts = length rows"
    "i < length rows \<Longrightarrow> tt_conditions (ts ! i) = (if i = length rows - 1 then [] else js_sort (byName lc) (tr_combination (rows ! i)))"
    "i < length rows \<Longrightarrow> tt_constant (ts ! i) = tr_constant (rows ! i)"
    "i < length rows \<Longrightarrow> tt_unitPrices (ts ! i) = tr_unitPrices (rows ! i)"
    "i < length rows \<Longrightarrow> 40 \<notin> set (tt_label (ts ! i))"
proof -
  have "rows \<noteq> []" using assms(3) combinations(2) [OF assms(1), of lc] by (auto simp: matrix_ok_def)
  then have ts: "ts = map (\<lambda>i. let row = rows ! i in
     \<lparr>tt_label = taskMatrixRowLabel lc (tr_combination row),
      tt_conditions = (if i = length rows - 1 then [] else js_sort (byName lc) (tr_combination row)),
      tt_constant = tr_constant row, tt_unitPrices = fieldPrices (getTaskNumberFields lc schema) (tr_unitPrices row)\<rparr>) [0..<length rows]"
    using assms(2,4) by (simp add: ts_def taskMatrixToTiers_def)
  show "length ts = length rows" by (simp add: ts)
  assume i: "i < length rows"
  then have r: "rows ! i \<in> set rows" by simp
  show "tt_conditions (ts ! i) = (if i = length rows - 1 then [] else js_sort (byName lc) (tr_combination (rows ! i)))"
    "tt_constant (ts ! i) = tr_constant (rows ! i)"
    using i by (simp_all add: ts Let_def)
  show "tt_unitPrices (ts ! i) = tr_unitPrices (rows ! i)"
    using i fieldPrices_same [OF matrix_row(1) [OF assms(3) r] distinct_fields(1) [OF assms(1)]] by (simp add: ts Let_def)
  show "40 \<notin> set (tt_label (ts ! i))"
    using i label_plain [OF assms(1) matrix_row(4) [OF assms(3) r]] by (simp add: ts Let_def)
qed

section \<open>Reading a matrix\<close>

lemma good_is_double: "good_price x \<Longrightarrow> is_double x"
  by (cases x) (simp_all add: good_price_def is_double_def)

lemma clearLast_nth: "i < length ts \<Longrightarrow> clearLast ts ! i = (if i = length ts - 1 then (ts ! i)\<lparr>tt_conditions := []\<rparr> else ts ! i)"
  by (auto simp: clearLast_def nth_append nth_butlast last_conv_nth)

lemma length_clearLast: "length (clearLast ts) = length ts"
  by (simp add: clearLast_def)

text \<open>Configurations that normalising keeps, up to the labels.\<close>

definition same_prices :: "task_tier \<Rightarrow> task_tier \<Rightarrow> bool" where
  "same_prices t u \<longleftrightarrow> tt_conditions t = tt_conditions u \<and> tt_constant t = tt_constant u \<and> tt_unitPrices t = tt_unitPrices u"

definition kept_config :: "compare \<Rightarrow> usage_schema \<Rightarrow> task_tier list \<Rightarrow> bool" where
  "kept_config lc schema ts \<longleftrightarrow> ts \<noteq> [] \<and> tt_conditions (last ts) = [] \<and> (\<forall>i < length ts - 1. tt_conditions (ts ! i) \<noteq> []) \<and>
     (\<forall>t \<in> set ts. priced (getTaskNumberFields lc schema) t \<and> 40 \<notin> set (tt_label t) \<and>
       (\<forall>(f, v) \<in> set (tt_conditions t). v \<in> set (enumValues schema f)))"

lemma kept_normal:
  assumes "wf_schema schema" and "kept_config lc schema ts"
  defines "N \<equiv> normalizeTaskVisualConfig lc (Some ts) schema"
  shows "list_all2 same_prices (clearLast N) ts" "plain_config (Some ts)" "\<not> list_ex (\<lambda>t. tt_conditions t = []) (butlast N)"
proof -
  have ne: "ts \<noteq> []" using assms(2) by (simp add: kept_config_def)
  then have N: "N = map (\<lambda>(i, t). normalizeTaskTier lc schema i t) (enumerate 0 ts)"
    by (cases ts) (simp_all add: N_def normalizeTaskVisualConfig_def)
  have len: "length N = length ts" by (simp add: N)
  have nth: "same_prices (N ! i) (ts ! i)" if i: "i < length ts" for i
  proof -
    have "N ! i = normalizeTaskTier lc schema i (ts ! i)" using i by (simp add: N nth_enumerate_eq)
    moreover have "priced (getTaskNumberFields lc schema) (ts ! i)" "\<And>f v. (f, v) \<in> set (tt_conditions (ts ! i)) \<Longrightarrow> v \<in> set (enumValues schema f)"
      using assms(2) nth_mem [OF i] by (auto simp: kept_config_def)
    ultimately show ?thesis using normalize_priced [OF assms(1), of lc "ts ! i" i] by (simp add: same_prices_def)
  qed
  show "plain_config (Some ts)"
    using assms(2) by (auto simp: kept_config_def plain_config_def plain_tier_def priced_def list_all_iff good_is_double)
  have "tt_conditions (N ! i) \<noteq> []" if "i < length ts - 1" for i
    using nth [of i] that assms(2) by (simp add: kept_config_def same_prices_def)
  then show "\<not> list_ex (\<lambda>t. tt_conditions t = []) (butlast N)" using len by (auto simp: list_ex_length nth_butlast)
  have "tt_conditions (ts ! (length ts - 1)) = []" using assms(2) ne by (simp add: kept_config_def last_conv_nth)
  then have "same_prices (clearLast N ! i) (ts ! i)" if "i < length ts" for i
    using nth [OF that] that by (cases "i = length ts - 1") (simp_all add: clearLast_nth len same_prices_def)
  then show "list_all2 same_prices (clearLast N) ts" by (simp add: list_all2_conv_all_nth length_clearLast len)
qed

lemma parse_kept:
  assumes "wf_schema schema" and "getTaskNumberFields lc schema \<noteq> []" and "kept_config lc schema ts"
  shows "list_all2 same_prices (parseTaskTiersFromExpr other (generateTaskExprFromConfig lc (Some ts) schema) (Some schema)) ts"
  using parse_config(1) [OF assms(1,2)] kept_normal [OF assms(1,3)] by simp

lemma visual_kept:
  assumes "wf_schema schema" and "getTaskNumberFields lc schema \<noteq> []" and "kept_config lc schema ts"
  shows "\<exists>us. tryParseTaskVisualConfig other lc (Some (generateTaskExprFromConfig lc (Some ts) schema)) schema = Some us \<and> list_all2 same_prices us ts"
  using parse_visual [OF assms(1,2)] kept_normal [OF assms(1,3)] by simp

lemma uniform_row:
  assumes "matrix_ok lc schema rows" and "wf_schema schema" and "isUniform (getTaskNumberFields lc schema) q rows" and "r \<in> set rows" and "q \<in> set rows"
  shows "tr_constant r = tr_constant q" "tr_unitPrices r = tr_unitPrices q"
proof -
  define nf where "nf = getTaskNumberFields lc schema"
  have u: "tr_constant r = tr_constant q" "\<And>f d. (f, d) \<in> set nf \<Longrightarrow> samePrice (map_of (tr_unitPrices r) f) (map_of (tr_unitPrices q) f)"
    using assms(3,4) by (fastforce simp: isUniform_def list_all_iff num_eq_def nf_def)+
  show "tr_constant r = tr_constant q" by (rule u(1))
  have "(case e of (f, _) \<Rightarrow> (f, priceOf (tr_unitPrices r) f)) = (case e of (f, _) \<Rightarrow> (f, priceOf (tr_unitPrices q) f))" if "e \<in> set nf" for e
    using u(2) [of "fst e" "snd e"] that by (cases e) (auto simp: priceOf_def samePrice_def num_eq_def split: option.splits)
  then have "fieldPrices nf (tr_unitPrices r) = fieldPrices nf (tr_unitPrices q)"
    unfolding fieldPrices_def by (intro arg_cong [where f = fromEntries] map_cong) simp_all
  moreover have "fieldPrices nf (tr_unitPrices x) = tr_unitPrices x" if "x \<in> set rows" for x
    using fieldPrices_same matrix_row(1) [OF assms(1) that] distinct_fields(1) [OF assms(2)] by (simp add: nf_def)
  ultimately show "tr_unitPrices r = tr_unitPrices q" using assms(4,5) by metis
qed

lemma single_uniform: "matrix_ok lc schema [r] \<Longrightarrow> isUniform (getTaskNumberFields lc schema) r [r]"
proof -
  assume ok: "matrix_ok lc schema [r]"
  have "num_eq x x" if "good_price x" for x using that by (cases x) (simp_all add: good_price_def num_eq_def)
  moreover from this have "samePrice (map_of (tr_unitPrices r) f) (map_of (tr_unitPrices r) f)" for f
    using matrix_row(3) [OF ok, of r] by (auto simp: samePrice_def list_all_iff dest!: map_of_SomeD split: option.splits)
  ultimately show ?thesis using matrix_row(2) [OF ok, of r] by (auto simp: isUniform_def list_all_iff)
qed

text \<open>Once every combination has its tier, the rows are read off.\<close>

lemma rows_of_tiers:
  assumes "wf_schema schema" and "matrix_ok lc schema rows" and "length ps = length rows"
    and "\<And>i. i < length rows \<Longrightarrow> tt_constant (ps ! i) = tr_constant (rows ! i) \<and> tt_unitPrices (ps ! i) = tr_unitPrices (rows ! i)"
  defines "key \<equiv> \<lambda>c. taskMatrixCombinationKey c (getTaskEnumFields lc schema)" and "cs \<equiv> getTaskEnumCombinations lc schema"
  shows "those (map (\<lambda>c. map_option (matrixRow (getTaskNumberFields lc schema) c) (map_of (zip (map key cs) ps) (key c))) cs) = Some rows"
proof -
  define look where "look = (\<lambda>c. map_option (matrixRow (getTaskNumberFields lc schema) c) (map_of (zip (map key cs) ps) (key c)))"
  have cs: "cs = map tr_combination rows" using assms(2) by (simp add: matrix_ok_def cs_def)
  have keys: "distinct (map key cs)" using keys_distinct [OF assms(1), of lc] by (simp add: key_def cs_def)
  have "look (tr_combination r) = Some r" if r: "r \<in> set rows" for r
  proof -
    obtain i where i: "i < length rows" "r = rows ! i" using r by (metis in_set_conv_nth)
    have "map key cs ! i = key (tr_combination r)" using i by (simp add: cs)
    moreover have "map_of (zip (map key cs) ps) (map key cs ! i) = Some (ps ! i)"
      using keys i(1) cs assms(3) by (intro map_of_zip_nth) simp_all
    moreover have "matrixRow (getTaskNumberFields lc schema) (tr_combination r) (ps ! i) = r"
      using assms(4) [OF i(1)] i(2) fieldPrices_same [OF matrix_row(1) [OF assms(2) r] distinct_fields(1) [OF assms(1)]]
      by (intro task_row.equality) (simp_all add: matrixRow_def)
    ultimately show ?thesis by (simp add: look_def)
  qed
  then have "those (map (look \<circ> tr_combination) rows) = Some (map id rows)" by (intro those_map_Some) simp
  moreover have "map look cs = map (look \<circ> tr_combination) rows" by (simp add: cs)
  ultimately show ?thesis by (simp add: look_def)
qed

lemma read_tiers:
  assumes "wf_schema schema" and "matrix_ok lc schema rows" and "2 \<le> length rows"
    and "length ps = length rows"
    and "\<And>i. i < length rows \<Longrightarrow> tt_conditions (ps ! i) = (if i = length rows - 1 then [] else js_sort (byName lc) (tr_combination (rows ! i)))"
    and "\<And>i. i < length rows \<Longrightarrow> tt_constant (ps ! i) = tr_constant (rows ! i) \<and> tt_unitPrices (ps ! i) = tr_unitPrices (rows ! i)"
    and "parseTaskTiersFromExpr other e (Some schema) = ps"
  shows "tryParseTaskMatrixConfig other lc (Some e) schema = Some rows"
proof -
  define ef nf cs where "ef = getTaskEnumFields lc schema" and "nf = getTaskNumberFields lc schema" and "cs = getTaskEnumCombinations lc schema"
  define key where "key = (\<lambda>c. taskMatrixCombinationKey c ef)"
  have cs: "cs = map tr_combination rows" using assms(2) by (simp add: matrix_ok_def cs_def)
  have ne: "cs \<noteq> []" "ps \<noteq> []" using cs assms(3,4) by auto
  obtain b l where b: "cs = b @ [l]" using ne(1) by (metis append_butlast_last_id)
  have lb: "length b = length rows - 1" using arg_cong [OF cs, of length] b by simp
  have keys: "distinct (map key b)" "key l \<notin> set (map key b)"
    using keys_distinct [OF assms(1), of lc] by (simp_all add: b key_def ef_def cs_def [symmetric])
  have "tierKey schema ef (butlast ps ! i) = Some (map key b ! i)" if i: "i < length b" for i
  proof -
    have "cs ! i = b ! i" using i b by (simp add: nth_append)
    then have c: "tt_conditions (butlast ps ! i) = js_sort (byName lc) (b ! i)"
      using assms(4) assms(5) [of i] i lb cs b by (simp add: nth_butlast)
    have "b ! i \<in> set cs" unfolding b using i by simp
    from tierKey_combination [OF assms(1) this [unfolded cs_def] c] i show ?thesis by (simp add: ef_def key_def)
  qed
  then have "list_all2 (\<lambda>k t. tierKey schema ef t = Some k) (map key b) (butlast ps)"
    using lb assms(4) by (simp add: list_all2_conv_all_nth)
  then have m: "keyTiers schema ef [] (butlast ps) = Some (zip (map key b) (butlast ps))"
    using keyTiers_all [of schema ef _ _ "[]"] keys(1) by simp
  have fst_m: "map fst (zip (map key b) (butlast ps)) = map key b" using lb assms(4) by (simp add: map_fst_zip)
  have miss: "filter (\<lambda>c. key c \<notin> set (map key b)) cs = [l]" using keys(2) by (simp add: b)
  have "AList.update (key l) (last ps) (zip (map key b) (butlast ps)) = zip (map key b) (butlast ps) @ [(key l, last ps)]"
    using keys(2) fst_m by (intro update_new) simp
  also have "\<dots> = zip (map key b @ [key l]) (butlast ps @ [last ps])" using lb assms(4) by (subst zip_append) simp_all
  finally have upd: "AList.update (key l) (last ps) (zip (map key b) (butlast ps)) = zip (map key cs) ps" using ne(2) b by simp
  have "tt_conditions (last ps) = []" "length ps \<noteq> 1" "length ps = length cs"
    using assms(3,4) assms(5) [of "length rows - 1"] ne(2) cs by (simp_all add: last_conv_nth)
  moreover have "taskMatrixCombinationKey c ef = key c" for c by (simp add: key_def)
  moreover note rows_of_tiers [OF assms(1,2,4,6), folded ef_def nf_def cs_def, folded key_def]
  ultimately show ?thesis
    using ne(2) unfolding tryParseTaskMatrixConfig_def option.case assms(7) Let_def ef_def [symmetric] nf_def [symmetric] cs_def [symmetric]
    by (simp only: m fst_m miss upd bind.simps list.case simp_thms if_False if_True)
qed

text \<open>The tiers of a fitting matrix are such a configuration.\<close>

lemma matrix_nonempty: "wf_schema schema \<Longrightarrow> matrix_ok lc schema rows \<Longrightarrow> rows \<noteq> []"
  using combinations(2) [of schema lc] by (auto simp: matrix_ok_def)

lemma uniform_tiers:
  assumes "wf_schema schema" and "getTaskNumberFields lc schema \<noteq> []" and "matrix_ok lc schema rows"
    and "isUniform (getTaskNumberFields lc schema) (hd rows) rows"
  shows "taskMatrixToTiers lc rows schema =
    [\<lparr>tt_label = lit ''base'', tt_conditions = [], tt_constant = tr_constant (hd rows), tt_unitPrices = tr_unitPrices (hd rows)\<rparr>]"
proof -
  have ne: "rows \<noteq> []" using matrix_nonempty [OF assms(1,3)] .
  then have "fieldPrices (getTaskNumberFields lc schema) (tr_unitPrices (hd rows)) = tr_unitPrices (hd rows)"
    using fieldPrices_same [OF matrix_row(1) [OF assms(3)] distinct_fields(1) [OF assms(1)]] by simp
  with ne assms(2,4) show ?thesis by (simp add: taskMatrixToTiers_def Let_def)
qed

lemma several_rows:
  assumes "wf_schema schema" and "matrix_ok lc schema rows" and "\<not> isUniform (getTaskNumberFields lc schema) (hd rows) rows"
  shows "2 \<le> length rows" "getTaskEnumFields lc schema \<noteq> []"
proof -
  show "2 \<le> length rows"
  proof (cases rows)
    case (Cons r rs)
    then show ?thesis using single_uniform [of lc schema r] assms(2,3) by (cases rs) auto
  qed (use matrix_nonempty [OF assms(1,2)] in simp)
  then have "2 \<le> length (getTaskEnumCombinations lc schema)" using assms(2) by (metis length_map matrix_ok_def)
  then show "getTaskEnumFields lc schema \<noteq> []" by (auto simp: getTaskEnumCombinations_def)
qed

lemma matrix_kept:
  assumes "wf_schema schema" and "getTaskNumberFields lc schema \<noteq> []" and "matrix_ok lc schema rows"
  shows "kept_config lc schema (taskMatrixToTiers lc rows schema)"
proof (cases "isUniform (getTaskNumberFields lc schema) (hd rows) rows")
  case True
  have "hd rows \<in> set rows" using matrix_nonempty [OF assms(1,3)] by simp
  then show ?thesis
    using matrix_row [OF assms(3)] by (simp add: uniform_tiers [OF assms True] kept_config_def priced_def js_eval)
next
  case False
  note T = tiers_of_rows [OF assms False] and S = several_rows [OF assms(1,3) False]
  define ts where "ts = taskMatrixToTiers lc rows schema"
  have len: "length ts = length rows" "ts \<noteq> []" using T(1) S(1) by (auto simp: ts_def)
  have "tt_conditions (last ts) = []" using T(2) [of "length rows - 1"] S(1) len by (simp add: last_conv_nth ts_def)
  moreover have "tt_conditions (ts ! i) \<noteq> []" if i: "i < length ts - 1" for i
  proof -
    have "tr_combination (rows ! i) \<in> set (getTaskEnumCombinations lc schema)" using i len matrix_row(4) [OF assms(3), of "rows ! i"] by simp
    then have "length (tr_combination (rows ! i)) \<noteq> 0" using combinations(3) [OF assms(1)] S(2) by (metis length_map length_0_conv)
    then have "length (tt_conditions (ts ! i)) \<noteq> 0" using T(2) [of i] i len by (simp add: ts_def)
    then show ?thesis by auto
  qed
  moreover have "priced (getTaskNumberFields lc schema) (ts ! i) \<and> 40 \<notin> set (tt_label (ts ! i)) \<and>
      (\<forall>(f, v) \<in> set (tt_conditions (ts ! i)). v \<in> set (enumValues schema f))" if i: "i < length rows" for i
  proof -
    have r: "rows ! i \<in> set rows" using i by simp
    show ?thesis
      using T(2-5) [OF i] matrix_row [OF assms(3) r] combinations(4) [OF assms(1) matrix_row(4) [OF assms(3) r]]
      by (auto simp: priced_def ts_def split: if_splits)
  qed
  ultimately show ?thesis using len unfolding kept_config_def ts_def [symmetric] by (metis in_set_conv_nth)
qed

section \<open>Charging for a combination\<close>

lemma matched_nth:
  assumes "i < length ts" and "\<And>j. j < length ts - 1 \<Longrightarrow> tierMatches sample (ts ! j) \<longleftrightarrow> j = i"
  shows "matchedTier ts sample = ts ! i"
proof (cases "i = length ts - 1")
  case True
  then have "List.find (tierMatches sample) (butlast ts) = None"
    using assms(2) by (auto simp: find_None_iff in_set_conv_nth nth_butlast)
  moreover have "ts \<noteq> []" using assms(1) by auto
  ultimately show ?thesis using True by (simp add: matchedTier_def last_conv_nth)
next
  case False
  then have "List.find (tierMatches sample) (butlast ts) = Some (ts ! i)"
    using assms by (auto simp: find_Some_iff nth_butlast intro!: exI [of _ i])
  then show ?thesis by (simp add: matchedTier_def)
qed

lemma matched_same:
  assumes "list_all2 same_prices us ts" and "ts \<noteq> []"
  shows "same_prices (matchedTier us sample) (matchedTier ts sample)"
proof -
  have F: "rel_option same_prices (List.find (tierMatches sample) xs) (List.find (tierMatches sample) ys)" if "list_all2 same_prices xs ys" for xs ys
    using that by (induction rule: list_all2_induct) (auto simp: same_prices_def tierMatches_def)
  have ne: "us \<noteq> []" and len: "length us = length ts" using assms list_all2_lengthD by auto
  have "list_all2 same_prices (butlast us) (butlast ts)"
    using assms(1) len by (simp add: list_all2_conv_all_nth nth_butlast)
  from F [OF this] have "rel_option same_prices (List.find (tierMatches sample) (butlast us)) (List.find (tierMatches sample) (butlast ts))" .
  moreover have "same_prices (last us) (last ts)" using assms ne len by (simp add: list_all2_conv_all_nth last_conv_nth)
  ultimately show ?thesis by (auto simp: matchedTier_def split: option.splits elim: option.rel_cases)
qed

definition chosen :: "(jstring \<times> usage_fact) list \<Rightarrow> combination \<Rightarrow> bool" where
  "chosen sample c \<longleftrightarrow> list_all (\<lambda>(field, value). map_of sample field = Some (TextF value)) c"

lemma chosen_unique:
  assumes "map fst c = map fst c'" and "chosen sample c" and "chosen sample c'"
  shows "c = c'"
proof -
  have "c ! i = c' ! i" if i: "i < length c" for i
  proof -
    have l: "i < length c'" using i assms(1) by (metis length_map)
    then have "fst (c ! i) = fst (c' ! i)" using i assms(1) by (metis nth_map)
    then show ?thesis using i l assms(2,3) by (auto simp: chosen_def list_all_length prod_eq_iff split_def)
  qed
  then show ?thesis using assms(1) by (intro nth_equalityI) (metis length_map)+
qed

lemma matrix_matched:
  assumes "wf_schema schema" and "getTaskNumberFields lc schema \<noteq> []" and "matrix_ok lc schema rows"
    and "i < length rows" and "chosen sample (tr_combination (rows ! i))"
  shows "tt_constant (matchedTier (taskMatrixToTiers lc rows schema) sample) = tr_constant (rows ! i)"
    "tt_unitPrices (matchedTier (taskMatrixToTiers lc rows schema) sample) = tr_unitPrices (rows ! i)"
proof -
  define ts where "ts = taskMatrixToTiers lc rows schema"
  have "tt_constant (matchedTier ts sample) = tr_constant (rows ! i) \<and> tt_unitPrices (matchedTier ts sample) = tr_unitPrices (rows ! i)"
  proof (cases "isUniform (getTaskNumberFields lc schema) (hd rows) rows")
    case True
    have "hd rows \<in> set rows" using matrix_nonempty [OF assms(1,3)] by simp
    then show ?thesis
      using uniform_row [OF assms(3,1) True nth_mem [OF assms(4)]] by (simp add: ts_def uniform_tiers [OF assms(1-3) True] matchedTier_def)
  next
    case False
    note T = tiers_of_rows [OF assms(1-3) False, folded ts_def]
    have C: "map tr_combination rows = getTaskEnumCombinations lc schema" using assms(3) by (simp add: matrix_ok_def)
    then have D: "distinct (map tr_combination rows)" using combinations(1) [OF assms(1)] by simp
    have "tierMatches sample (ts ! j) \<longleftrightarrow> j = i" if j: "j < length ts - 1" for j
    proof -
      have j': "j < length rows" "j \<noteq> length rows - 1" using j T(1) by auto
      have "tierMatches sample (ts ! j) \<longleftrightarrow> chosen sample (tr_combination (rows ! j))"
        using T(2) [OF j'(1)] j'(2) by (simp add: tierMatches_def chosen_def list_all_iff)
      also have "\<dots> \<longleftrightarrow> tr_combination (rows ! j) = tr_combination (rows ! i)"
        using assms(5) chosen_unique combinations(3) [OF assms(1)] matrix_row(4) [OF assms(3)] j'(1) assms(4) by (metis nth_mem)
      also have "\<dots> \<longleftrightarrow> j = i" using D j'(1) assms(4) by (metis distinct_conv_nth length_map nth_map)
      finally show ?thesis .
    qed
    then have "matchedTier ts sample = ts ! i" using matched_nth [of i ts] assms(4) T(1) by simp
    then show ?thesis using T(3,4) [OF assms(4)] by simp
  qed
  then show "tt_constant (matchedTier (taskMatrixToTiers lc rows schema) sample) = tr_constant (rows ! i)"
    "tt_unitPrices (matchedTier (taskMatrixToTiers lc rows schema) sample) = tr_unitPrices (rows ! i)" by (simp_all add: ts_def)
qed

section \<open>Properties\<close>

definition video_rows :: "task_row list" where
  "video_rows =
     [\<lparr>tr_combination = [(lit ''size'', lit ''hd'')], tr_constant = Fin 2, tr_unitPrices = [(lit ''seconds'', Fin 3), (lit ''tokens'', Fin 0)]\<rparr>,
      \<lparr>tr_combination = [(lit ''size'', lit ''sd'')], tr_constant = Fin 0, tr_unitPrices = [(lit ''seconds'', Fin 1), (lit ''tokens'', Fin 5)]\<rparr>]"

lemma video_rows_ok: "matrix_ok unitCompare video_schema video_rows"
proof -
  have "map tr_combination video_rows = getTaskEnumCombinations unitCompare video_schema"
    "map fst (getTaskNumberFields unitCompare video_schema) = [lit ''seconds'', lit ''tokens'']" by code_simp+
  then show ?thesis
    using double_int [of 1] double_int [of 2] double_int [of 3] double_int [of 5] double_zero
    by (simp add: matrix_ok_def video_rows_def good_price_def)
qed

text \<open>C33. A price matrix whose rows are the combinations of the enumerated fields, in order, survives being turned
  into tiers, printed, stored and read again: the reader gives back exactly its rows. This holds when all
  rows agree, where a single tier without conditions is stored, and when they differ, where the last
  combination is found again as the one that no condition names.\<close>

theorem task_matrix_roundtrip:
  assumes "wf_schema schema" and "getTaskNumberFields lc schema \<noteq> []" and "matrix_ok lc schema rows"
  shows "tryParseTaskMatrixConfig other lc (Some (generateTaskExprFromConfig lc (Some (taskMatrixToTiers lc rows schema)) schema)) schema = Some rows"
proof -
  define ts where "ts = taskMatrixToTiers lc rows schema"
  define e where "e = generateTaskExprFromConfig lc (Some ts) schema"
  define ps where "ps = parseTaskTiersFromExpr other e (Some schema)"
  have P: "list_all2 same_prices ps ts" unfolding ps_def e_def ts_def by (rule parse_kept [OF assms(1,2) matrix_kept [OF assms]])
  show ?thesis unfolding e_def [symmetric] ts_def [symmetric]
  proof (cases "isUniform (getTaskNumberFields lc schema) (hd rows) rows")
    case True
    define q where "q = hd rows"
    have q: "q \<in> set rows" using matrix_nonempty [OF assms(1,3)] by (simp add: q_def)
    from P obtain t where t: "ps = [t]" "tt_conditions t = []" "tt_constant t = tr_constant q" "tt_unitPrices t = tr_unitPrices q"
      by (auto simp: ts_def uniform_tiers [OF assms True] q_def [symmetric] list_all2_Cons2 same_prices_def)
    have C: "map tr_combination rows = getTaskEnumCombinations lc schema" using assms(3) by (simp add: matrix_ok_def)
    have row: "matrixRow (getTaskNumberFields lc schema) (tr_combination r) t = r" if r: "r \<in> set rows" for r
      using uniform_row [OF assms(3,1) True r] q fieldPrices_same [OF matrix_row(1) [OF assms(3) r] distinct_fields(1) [OF assms(1)]] t(3,4)
      by (simp add: matrixRow_def q_def)
    have "map (\<lambda>c. matrixRow (getTaskNumberFields lc schema) c t) (getTaskEnumCombinations lc schema) = map id rows"
      using row unfolding C [symmetric] map_map by (intro map_cong) simp_all
    then show "tryParseTaskMatrixConfig other lc (Some e) schema = Some rows"
      using t(1,2) by (simp add: tryParseTaskMatrixConfig_def ps_def [symmetric] Let_def)
  next
    case False
    note T = tiers_of_rows [OF assms False, folded ts_def]
    have "length ps = length rows" using P T(1) by (simp add: list_all2_lengthD)
    moreover have "same_prices (ps ! i) (ts ! i)" if "i < length rows" for i using P T(1) that by (simp add: list_all2_conv_all_nth)
    ultimately show "tryParseTaskMatrixConfig other lc (Some e) schema = Some rows"
      using T several_rows(1) [OF assms(1,3) False] ps_def
      by (intro read_tiers [OF assms(1,3)]) (simp_all add: same_prices_def)
  qed
qed

theorem task_matrix_roundtrip_witness:
  "tryParseTaskMatrixConfig (\<lambda>_. None) unitCompare
     (Some (generateTaskExprFromConfig unitCompare (Some (taskMatrixToTiers unitCompare video_rows video_schema)) video_schema)) video_schema = Some video_rows"
  by (rule task_matrix_roundtrip [OF video_schema_ok video_rows_ok])

text \<open>C34. The stored expression of a price matrix charges every usage by its own row: read as a configuration of
  tiers, the tier it applies to a usage whose enumerated facts are a combination of the schema has the
  constant and the unit prices of the row of that combination. No other row shadows it, and the
  fallback serves the last combination only.\<close>

theorem task_matrix_prices:
  assumes "wf_schema schema" and "getTaskNumberFields lc schema \<noteq> []" and "matrix_ok lc schema rows"
    and "i < length rows" and "chosen sample (tr_combination (rows ! i))"
  shows "\<exists>config. tryParseTaskVisualConfig other lc (Some (generateTaskExprFromConfig lc (Some (taskMatrixToTiers lc rows schema)) schema)) schema = Some config \<and>
    tt_constant (matchedTier config sample) = tr_constant (rows ! i) \<and>
    tt_unitPrices (matchedTier config sample) = tr_unitPrices (rows ! i)"
proof -
  note K = matrix_kept [OF assms(1-3)]
  then have ne: "taskMatrixToTiers lc rows schema \<noteq> []" by (simp add: kept_config_def)
  obtain us where us: "tryParseTaskVisualConfig other lc (Some (generateTaskExprFromConfig lc (Some (taskMatrixToTiers lc rows schema)) schema)) schema = Some us"
    and "list_all2 same_prices us (taskMatrixToTiers lc rows schema)"
    using visual_kept [OF assms(1,2) K] by blast
  from matched_same [OF this(2) ne] us matrix_matched [OF assms] show ?thesis by (simp add: same_prices_def)
qed

theorem task_matrix_prices_witness:
  "\<exists>config. tryParseTaskVisualConfig (\<lambda>_. None) unitCompare
       (Some (generateTaskExprFromConfig unitCompare (Some (taskMatrixToTiers unitCompare video_rows video_schema)) video_schema)) video_schema = Some config \<and>
     tt_constant (matchedTier config (ue_facts video_draft)) = Fin 0 \<and>
     tt_unitPrices (matchedTier config (ue_facts video_draft)) = [(lit ''seconds'', Fin 1), (lit ''tokens'', Fin 5)]"
proof -
  have "chosen (ue_facts video_draft) (tr_combination (video_rows ! 1))" by code_simp
  then show ?thesis
    using task_matrix_prices [OF video_schema_ok video_rows_ok, of 1 "ue_facts video_draft" "\<lambda>_. None"] by (simp add: video_rows_def)
qed

end
