(* ===== verification/Flow.thy ===== *)
theory Flow
  imports JSArith
begin

text \<open>
  The flow chart of the dashboard: \<^verbatim>\<open>web/src/features/dashboard/lib/flow.ts\<close>.

  Usage rows become paths through the stages a role may see (user, node, token, group, model, channel);
  the paths are limited to the largest nodes of each stage and added up to nodes and links. The callbacks
  of the caller and the host are arguments: \<open>flow_env\<close> holds \<open>localeCompare\<close>, the number format and the
  colour schemes of the chart library.
\<close>

section \<open>Types\<close>

datatype flow_kind = UserK | NodeK | TokenK | GroupK | ModelK | ChannelK

datatype flow_metric = QuotaM | TokensM | RequestsM

datatype flow_role = UserR | AdminR | RootR

datatype flow_overflow = Aggregate | Hide

record flow_row =
  user_id :: "jsnum option"
  username :: "jstring option"
  node_name :: "jstring option"
  use_group :: "jstring option"
  token_id :: "jsnum option"
  token_name :: "jstring option"
  channel_id :: "jsnum option"
  channel_name :: "jstring option"
  model_name :: "jstring option"
  uncached_input_tokens :: "jsnum option"
  uncached_output_tokens :: "jsnum option"
  cache_read_tokens :: "jsnum option"
  cache_write_tokens :: "jsnum option"
  row_count :: "jsnum option"
  row_quota :: "jsnum option"

record flow_metrics =
  m_quota :: jsnum
  m_tokens :: jsnum
  m_requests :: jsnum

record path_node =
  pn_id :: jstring
  pn_label :: jstring
  pn_kind :: flow_kind

record prepared_path =
  pp_path :: "path_node list"
  pp_metrics :: flow_metrics

record flow_node =
  fn_id :: jstring
  fn_label :: jstring
  fn_kind :: flow_kind
  fn_value :: jsnum
  fn_requests :: jsnum
  fn_quota :: jsnum
  fn_tokens :: jsnum
  fn_color :: jstring
  fn_colorKey :: jstring
  fn_highlighted :: "bool option"
  fn_dimmed :: "bool option"

record flow_link =
  fl_source :: jstring
  fl_target :: jstring
  fl_value :: jsnum
  fl_requests :: jsnum
  fl_quota :: jsnum
  fl_tokens :: jsnum
  fl_sourceLabel :: jstring
  fl_targetLabel :: jstring
  fl_color :: jstring
  fl_linkColor :: jstring
  fl_linkAlpha :: jsnum
  fl_hoverColor :: jstring
  fl_colorKey :: jstring
  fl_share :: jsnum
  fl_highlighted :: "bool option"
  fl_dimmed :: "bool option"

record flow_graph =
  fg_nodes :: "flow_node list"
  fg_links :: "flow_link list"

type_synonym node_filter = "flow_kind \<times> jstring"
type_synonym link_selection = "jstring \<times> jstring"
type_synonym token_labeler = "(jsnum \<Rightarrow> jstring) option"

record flow_options =
  fo_role :: "flow_role option"
  fo_selectedUsers :: "jstring list option"
  fo_selectedNodes :: "node_filter list option"
  fo_activeNode :: "node_filter option"
  fo_activeLink :: "link_selection option"
  fo_colorPalette :: "jstring list option"
  fo_visibleStages :: "flow_kind list option"
  fo_topNodeLimit :: "jsnum option"
  fo_overflowMode :: "flow_overflow option"
  fo_maskSensitive :: bool
  fo_deletedTokenLabel :: token_labeler
  fo_otherNodeLabel :: "(flow_kind \<Rightarrow> jstring) option"

record color_scheme =
  maxDomainLength :: "nat option"
  scheme :: "jstring option list"

record flow_env =
  dataScheme :: "color_scheme list"
  localeCompare :: "jstring \<Rightarrow> jstring \<Rightarrow> int"
  formatNumber :: "jsnum \<Rightarrow> jstring"

section \<open>Rows and paths\<close>

definition kindName :: "flow_kind \<Rightarrow> jstring" where
  "kindName k =
     (case k of UserK \<Rightarrow> lit ''user'' | NodeK \<Rightarrow> lit ''node'' | TokenK \<Rightarrow> lit ''token''
      | GroupK \<Rightarrow> lit ''group'' | ModelK \<Rightarrow> lit ''model'' | ChannelK \<Rightarrow> lit ''channel'')"

definition OTHER_FLOW_NODE_IDS :: "flow_kind \<Rightarrow> jstring" where
  "OTHER_FLOW_NODE_IDS k =
     (case k of UserK \<Rightarrow> lit ''user:__other__'' | NodeK \<Rightarrow> lit ''node:__other__'' | TokenK \<Rightarrow> lit ''token:__other__''
      | GroupK \<Rightarrow> lit ''group:__other__'' | ModelK \<Rightarrow> lit ''model:__other__'' | ChannelK \<Rightarrow> lit ''channel:__other__'')"

definition DEFAULT_OTHER_FLOW_NODE_LABELS :: "flow_kind \<Rightarrow> jstring" where
  "DEFAULT_OTHER_FLOW_NODE_LABELS k =
     (case k of UserK \<Rightarrow> lit ''Other users'' | NodeK \<Rightarrow> lit ''Other nodes'' | TokenK \<Rightarrow> lit ''Other tokens''
      | GroupK \<Rightarrow> lit ''Other groups'' | ModelK \<Rightarrow> lit ''Other models'' | ChannelK \<Rightarrow> lit ''Other channels'')"

definition SENSITIVE_FLOW_KINDS :: "flow_kind list" where
  "SENSITIVE_FLOW_KINDS = [UserK, NodeK, TokenK, GroupK, ChannelK]"

definition OTHER_FLOW_NODE_ID_SET :: "jstring list" where
  "OTHER_FLOW_NODE_ID_SET = map OTHER_FLOW_NODE_IDS [UserK, NodeK, TokenK, GroupK, ModelK, ChannelK]"

definition numberValue :: "jsnum option \<Rightarrow> jsnum" where
  "numberValue v = (case v of Some (Fin q) \<Rightarrow> Fin q | _ \<Rightarrow> Fin 0)"

definition rowMetrics :: "flow_row \<Rightarrow> flow_metrics" where
  "rowMetrics row =
     \<lparr>m_quota = numberValue (row_quota row),
      m_tokens = num_add (num_add (num_add (numberValue (uncached_input_tokens row)) (numberValue (uncached_output_tokens row)))
        (numberValue (cache_read_tokens row))) (numberValue (cache_write_tokens row)),
      m_requests = numberValue (row_count row)\<rparr>"

fun metricValue :: "flow_metrics \<Rightarrow> flow_metric \<Rightarrow> jsnum" where
  "metricValue m RequestsM = m_requests m"
| "metricValue m TokensM = m_tokens m"
| "metricValue m QuotaM = m_quota m"

text \<open>\<open>value || fallback\<close> on an optional string.\<close>

definition orText :: "jstring option \<Rightarrow> jstring \<Rightarrow> jstring" where
  "orText v d = (case v of Some s \<Rightarrow> if s = [] then d else s | None \<Rightarrow> d)"

definition userNode :: "flow_row \<Rightarrow> path_node" where
  "userNode row =
     (let userID = numberValue (user_id row)
      in \<lparr>pn_id = (if num_gt0 userID then lit ''user:'' @ js_numberText userID else lit ''user:'' @ orText (username row) (lit ''unknown'')),
          pn_label = orText (username row) (if num_gt0 userID then lit ''user-'' @ js_numberText userID else lit ''Unknown User''),
          pn_kind = UserK\<rparr>)"

definition nodeNameNode :: "flow_row \<Rightarrow> path_node" where
  "nodeNameNode row =
     (let nodeName = orText (node_name row) (lit ''default-node'')
      in \<lparr>pn_id = lit ''node:'' @ nodeName, pn_label = nodeName, pn_kind = NodeK\<rparr>)"

definition deletedTokenLabel :: "jsnum \<Rightarrow> token_labeler \<Rightarrow> jstring" where
  "deletedTokenLabel tokenID ctx =
     (if \<not> num_gt0 tokenID then lit ''Unknown Token''
      else case ctx of Some f \<Rightarrow> f tokenID | None \<Rightarrow> lit ''token-'' @ js_numberText tokenID)"

definition tokenNode :: "token_labeler \<Rightarrow> flow_row \<Rightarrow> path_node" where
  "tokenNode ctx row =
     (let tokenID = numberValue (token_id row)
      in \<lparr>pn_id = (if num_gt0 tokenID then lit ''token:'' @ js_numberText tokenID else lit ''token:'' @ orText (token_name row) (lit ''unknown'')),
          pn_label = orText (token_name row) (deletedTokenLabel tokenID ctx),
          pn_kind = TokenK\<rparr>)"

definition groupNode :: "flow_row \<Rightarrow> path_node" where
  "groupNode row =
     (let useGroup = orText (use_group row) (lit ''unknown'')
      in \<lparr>pn_id = lit ''group:'' @ useGroup, pn_label = useGroup, pn_kind = GroupK\<rparr>)"

definition modelNode :: "flow_row \<Rightarrow> path_node" where
  "modelNode row =
     \<lparr>pn_id = lit ''model:'' @ orText (model_name row) (lit ''unknown''),
      pn_label = orText (model_name row) (lit ''Unknown Model''), pn_kind = ModelK\<rparr>"

definition channelNode :: "flow_row \<Rightarrow> path_node" where
  "channelNode row =
     (let channelID = numberValue (channel_id row)
      in \<lparr>pn_id = (if num_gt0 channelID then lit ''channel:'' @ js_numberText channelID
            else lit ''channel:'' @ orText (channel_name row) (lit ''unknown'')),
          pn_label = orText (channel_name row) (if num_gt0 channelID then lit ''channel-'' @ js_numberText channelID else lit ''Unknown''),
          pn_kind = ChannelK\<rparr>)"

fun NODE_BUILDERS :: "flow_kind \<Rightarrow> flow_row \<Rightarrow> token_labeler \<Rightarrow> path_node" where
  "NODE_BUILDERS UserK row ctx = userNode row"
| "NODE_BUILDERS NodeK row ctx = nodeNameNode row"
| "NODE_BUILDERS TokenK row ctx = tokenNode ctx row"
| "NODE_BUILDERS GroupK row ctx = groupNode row"
| "NODE_BUILDERS ModelK row ctx = modelNode row"
| "NODE_BUILDERS ChannelK row ctx = channelNode row"

fun getFlowStages :: "flow_role \<Rightarrow> flow_kind list" where
  "getFlowStages RootR = [UserK, NodeK, TokenK, GroupK, ModelK, ChannelK]"
| "getFlowStages AdminR = [UserK, GroupK, ModelK, ChannelK]"
| "getFlowStages UserR = [TokenK, GroupK, ModelK]"

definition MIN_FLOW_STAGES :: nat where "MIN_FLOW_STAGES = 2"

definition resolveVisibleStages :: "flow_role \<Rightarrow> flow_kind list option \<Rightarrow> flow_kind list" where
  "resolveVisibleStages r visibleStages =
     (let stages = getFlowStages r
      in case visibleStages of
           None \<Rightarrow> stages
         | Some visible \<Rightarrow>
             let filtered = filter (\<lambda>s. s \<in> set visible) stages
             in if length filtered \<ge> MIN_FLOW_STAGES then filtered else stages)"

definition flowPathForStages :: "flow_row \<Rightarrow> flow_kind list \<Rightarrow> token_labeler \<Rightarrow> path_node list" where
  "flowPathForStages row stages ctx = map (\<lambda>stage. NODE_BUILDERS stage row ctx) stages"

section \<open>Colours\<close>

definition DEFAULT_FLOW_CHART_COLOR :: jstring where
  "DEFAULT_FLOW_CHART_COLOR = 35 # lit ''1664FF''"

definition getDashboardChartColors :: "flow_env \<Rightarrow> nat \<Rightarrow> jstring list" where
  "getDashboardChartColors env n =
     (case List.find (\<lambda>s. maxDomainLength s = None \<or> maxDomainLength s = Some 0 \<or> n \<le> the (maxDomainLength s)) (dataScheme env) of
        Some s \<Rightarrow> List.map_filter id (scheme s)
      | None \<Rightarrow> if dataScheme env = [] then [] else List.map_filter id (scheme (last (dataScheme env))))"

definition nonEmpty :: "'a list option \<Rightarrow> 'a list option" where
  "nonEmpty p = (case p of Some (x # xs) \<Rightarrow> Some (x # xs) | _ \<Rightarrow> None)"

definition colorAt :: "flow_env \<Rightarrow> nat \<Rightarrow> jstring list option \<Rightarrow> jstring" where
  "colorAt env i palette =
     (let colors = (case nonEmpty palette of Some p \<Rightarrow> p | None \<Rightarrow> getDashboardChartColors env (i + 1))
      in if colors = [] then DEFAULT_FLOW_CHART_COLOR else colors ! (i mod length colors))"

definition colorPalette :: "flow_env \<Rightarrow> nat \<Rightarrow> jstring list option \<Rightarrow> jstring list" where
  "colorPalette env n palette =
     (case nonEmpty palette of
        Some p \<Rightarrow> p
      | None \<Rightarrow> let colors = getDashboardChartColors env n in if colors = [] then [DEFAULT_FLOW_CHART_COLOR] else colors)"

definition hexDigit :: "code_unit \<Rightarrow> nat option" where
  "hexDigit c =
     (if is_digit c then Some (c - 48) else if 97 \<le> c \<and> c \<le> 102 then Some (c - 87)
      else if 65 \<le> c \<and> c \<le> 70 then Some (c - 55) else None)"

text \<open>\<open>x.toFixed(2)\<close> for \<open>0 \<le> x < 10\<^sup>21\<close>: the closest multiple of a hundredth, the larger one on a tie.\<close>

definition toFixed2 :: "rat \<Rightarrow> jstring" where
  "toFixed2 x =
     (let n = nat \<lfloor>x * 100 + 1 / 2\<rfloor>
      in js_decimal (n div 100) @ [46] @ js_decimal (n mod 100 div 10) @ js_decimal (n mod 10))"

definition alphaColor :: "jstring \<Rightarrow> jsnum \<Rightarrow> jstring \<times> jsnum" where
  "alphaColor color alpha =
     (let normalized = js_trim color;
          hex = (if js_startsWith normalized [35] then drop 1 normalized else normalized);
          ds = map hexDigit hex
      in if length hex \<noteq> 6 \<or> None \<in> set ds then (normalized, alpha)
         else
           let value = foldl (\<lambda>a d. 16 * a + the d) 0 ds
           in (lit ''rgba('' @ js_decimal (value div 65536 mod 256) @ lit '', '' @ js_decimal (value div 256 mod 256) @ lit '', '' @
                 js_decimal (value mod 256) @ lit '', '' @ (case alpha of Fin a \<Rightarrow> toFixed2 a | _ \<Rightarrow> js_numberText alpha) @ [41], Fin 1))"

definition stableColorMap :: "flow_env \<Rightarrow> jstring list \<Rightarrow> jstring list option \<Rightarrow> (jstring \<times> jstring) list" where
  "stableColorMap env keys palette =
     (let uniqueKeys = js_uniq keys; colors = colorPalette env (length uniqueKeys) palette
      in map (\<lambda>i. (uniqueKeys ! i, colorAt env i (Some colors))) [0..<length uniqueKeys])"

section \<open>Filters\<close>

definition filterRows :: "flow_row list \<Rightarrow> jstring list option \<Rightarrow> flow_row list" where
  "filterRows rows selectedUsers =
     (let users = (case selectedUsers of None \<Rightarrow> [] | Some us \<Rightarrow> us)
      in if users = [] then rows else filter (\<lambda>row. pn_id (userNode row) \<in> set users) rows)"

definition addToSet :: "'a \<Rightarrow> 'a list \<Rightarrow> 'a list" where
  "addToSet x xs = (if x \<in> set xs then xs else xs @ [x])"

definition normalizeSelectedNodeFilters :: "node_filter list option \<Rightarrow> flow_kind list \<Rightarrow> (flow_kind \<times> jstring list) list" where
  "normalizeSelectedNodeFilters selectedNodes stages =
     fold (\<lambda>(kind, i) filters. if kind \<notin> set stages then filters else bumpAt kind [] (addToSet i) filters)
       (case selectedNodes of None \<Rightarrow> [] | Some fs \<Rightarrow> fs) []"

definition pathMatchesNodeFilters :: "path_node list \<Rightarrow> (flow_kind \<times> jstring list) list \<Rightarrow> bool" where
  "pathMatchesNodeFilters path filters =
     (if filters = [] then True
      else
        let pathNodesByKind = fold (\<lambda>n. bumpAt (pn_kind n) [] (addToSet (pn_id n))) path []
        in list_all (\<lambda>(kind, selectedIds).
             case map_of pathNodesByKind kind of
               None \<Rightarrow> False
             | Some pathIds \<Rightarrow> list_ex (\<lambda>i. i \<in> set pathIds) selectedIds) filters)"

definition filterRowsByNodes ::
  "flow_row list \<Rightarrow> node_filter list option \<Rightarrow> flow_kind list \<Rightarrow> token_labeler \<Rightarrow> flow_row list" where
  "filterRowsByNodes rows selectedNodes stages ctx =
     (let filters = normalizeSelectedNodeFilters selectedNodes stages
      in if filters = [] then rows
         else filter (\<lambda>row. pathMatchesNodeFilters (flowPathForStages row stages ctx) filters) rows)"

definition selectedNodeFiltersExceptKind :: "node_filter list option \<Rightarrow> flow_kind \<Rightarrow> node_filter list option" where
  "selectedNodeFiltersExceptKind selectedNodes kind =
     (let filtered = filter (\<lambda>f. fst f \<noteq> kind) (case selectedNodes of None \<Rightarrow> [] | Some fs \<Rightarrow> fs)
      in if filtered = [] then None else Some filtered)"

section \<open>Adding up\<close>

definition newNode :: "path_node \<Rightarrow> jstring \<Rightarrow> jstring \<Rightarrow> flow_node" where
  "newNode n color colorKey =
     \<lparr>fn_id = pn_id n, fn_label = pn_label n, fn_kind = pn_kind n, fn_value = Fin 0, fn_requests = Fin 0, fn_quota = Fin 0,
      fn_tokens = Fin 0, fn_color = color, fn_colorKey = colorKey, fn_highlighted = None, fn_dimmed = None\<rparr>"

definition bumpNode :: "flow_metrics \<Rightarrow> flow_metric \<Rightarrow> flow_node \<Rightarrow> flow_node" where
  "bumpNode metrics metric n =
     n\<lparr>fn_value := num_add (fn_value n) (metricValue metrics metric), fn_requests := num_add (fn_requests n) (m_requests metrics),
       fn_quota := num_add (fn_quota n) (m_quota metrics), fn_tokens := num_add (fn_tokens n) (m_tokens metrics)\<rparr>"

definition addNode ::
  "path_node \<Rightarrow> flow_metrics \<Rightarrow> flow_metric \<Rightarrow> jstring \<Rightarrow> jstring \<Rightarrow> (jstring \<times> flow_node) list \<Rightarrow> (jstring \<times> flow_node) list" where
  "addNode n metrics metric color colorKey = bumpAt (pn_id n) (newNode n color colorKey) (bumpNode metrics metric)"

definition pathLinkKey :: "path_node \<Rightarrow> path_node \<Rightarrow> jstring" where
  "pathLinkKey s t = pn_id s @ [0] @ pn_id t"

definition newLink :: "path_node \<Rightarrow> path_node \<Rightarrow> jstring \<Rightarrow> jstring \<Rightarrow> flow_link" where
  "newLink s t color colorKey =
     \<lparr>fl_source = pn_id s, fl_target = pn_id t, fl_value = Fin 0, fl_requests = Fin 0, fl_quota = Fin 0, fl_tokens = Fin 0,
      fl_sourceLabel = pn_label s, fl_targetLabel = pn_label t, fl_color = color, fl_linkColor = color, fl_linkAlpha = Fin 1,
      fl_hoverColor = color, fl_colorKey = colorKey, fl_share = Fin 0, fl_highlighted = None, fl_dimmed = None\<rparr>"

definition bumpLink :: "flow_metrics \<Rightarrow> flow_metric \<Rightarrow> flow_link \<Rightarrow> flow_link" where
  "bumpLink metrics metric l =
     l\<lparr>fl_value := num_add (fl_value l) (metricValue metrics metric), fl_requests := num_add (fl_requests l) (m_requests metrics),
       fl_quota := num_add (fl_quota l) (m_quota metrics), fl_tokens := num_add (fl_tokens l) (m_tokens metrics)\<rparr>"

definition addLink ::
  "path_node \<Rightarrow> path_node \<Rightarrow> flow_metrics \<Rightarrow> flow_metric \<Rightarrow> jstring \<Rightarrow> jstring \<Rightarrow> (jstring \<times> flow_link) list \<Rightarrow> (jstring \<times> flow_link) list" where
  "addLink s t metrics metric color colorKey = bumpAt (pathLinkKey s t) (newLink s t color colorKey) (bumpLink metrics metric)"

definition linkStableKey :: "flow_link \<Rightarrow> jstring" where
  "linkStableKey l = fl_source l @ [0] @ fl_target l"

definition byLinkValue :: "flow_env \<Rightarrow> flow_link \<Rightarrow> flow_link \<Rightarrow> int" where
  "byLinkValue env a b =
     or_else (num_sign (num_sub (fl_value b) (fl_value a))) (localeCompare env (linkStableKey a) (linkStableKey b))"

definition linkAlphaAt :: "nat \<Rightarrow> nat \<Rightarrow> jsnum" where
  "linkAlphaAt n i =
     (if n = 1 then js_round (34 / 100)
      else num_add (js_round (24 / 100)) (num_mul (num_div (Fin (of_nat i)) (Fin (of_nat (max (n - 1) 1)))) (js_round (2 / 10))))"

definition displayLink :: "nat \<Rightarrow> nat \<Rightarrow> flow_link \<Rightarrow> flow_link" where
  "displayLink n i l =
     (let (c, a) = alphaColor (fl_color l) (linkAlphaAt n i)
      in l\<lparr>fl_linkColor := c, fl_linkAlpha := a, fl_hoverColor := fl_color l\<rparr>)"

text \<open>The links of a source share its colour in decreasing strength. The loops change the link objects in
  place; a link is found again by its key.\<close>

definition assignLinkDisplayColors :: "flow_env \<Rightarrow> flow_link list \<Rightarrow> flow_link list" where
  "assignLinkDisplayColors env links =
     (let linksBySource = fold (\<lambda>l. bumpAt (fl_source l) [] (\<lambda>ls. ls @ [l])) links [];
          displayed = concat (map (\<lambda>(_, ls). let s = js_sort (byLinkValue env) ls
                        in map (\<lambda>i. displayLink (length s) i (s ! i)) [0..<length s]) linksBySource)
      in map (\<lambda>l. case List.find (\<lambda>d. linkStableKey d = linkStableKey l) displayed of Some d \<Rightarrow> d | None \<Rightarrow> l) links)"

definition byValueThenLabel :: "flow_env \<Rightarrow> flow_node \<Rightarrow> flow_node \<Rightarrow> int" where
  "byValueThenLabel env a b = or_else (num_sign (num_sub (fn_value b) (fn_value a))) (localeCompare env (fn_label a) (fn_label b))"

definition addMetrics :: "flow_metrics \<Rightarrow> flow_metrics \<Rightarrow> flow_metrics" where
  "addMetrics s m =
     \<lparr>m_quota = num_add (m_quota s) (m_quota m), m_tokens = num_add (m_tokens s) (m_tokens m),
      m_requests = num_add (m_requests s) (m_requests m)\<rparr>"

definition noMetrics :: flow_metrics where
  "noMetrics = \<lparr>m_quota = Fin 0, m_tokens = Fin 0, m_requests = Fin 0\<rparr>"

definition buildSummary :: "flow_row list \<Rightarrow> flow_metrics" where
  "buildSummary rows = foldl (\<lambda>s row. addMetrics s (rowMetrics row)) noMetrics rows"

section \<open>The largest nodes\<close>

definition normalizeTopNodeLimit :: "jsnum option \<Rightarrow> nat option" where
  "normalizeTopNodeLimit limit = (case limit of Some (Fin q) \<Rightarrow> if 0 < \<lfloor>q\<rfloor> then Some (nat \<lfloor>q\<rfloor>) else None | _ \<Rightarrow> None)"

definition otherFlowNode :: "flow_kind \<Rightarrow> (flow_kind \<Rightarrow> jstring) option \<Rightarrow> path_node" where
  "otherFlowNode kind labeler =
     \<lparr>pn_id = OTHER_FLOW_NODE_IDS kind,
      pn_label = (case labeler of Some f \<Rightarrow> f kind | None \<Rightarrow> DEFAULT_OTHER_FLOW_NODE_LABELS kind),
      pn_kind = kind\<rparr>"

type_synonym node_rank = "path_node \<times> jsnum"
type_synonym top_sets = "(flow_kind \<times> jstring list) list"

definition addRank :: "jsnum \<Rightarrow> path_node \<Rightarrow> (jstring \<times> node_rank) list \<Rightarrow> (jstring \<times> node_rank) list" where
  "addRank v n = bumpAt (pn_id n) (n, Fin 0) (\<lambda>(n', t). (n', num_add t v))"

definition addStageRank ::
  "jsnum \<Rightarrow> path_node \<Rightarrow> (flow_kind \<times> (jstring \<times> node_rank) list) list \<Rightarrow> (flow_kind \<times> (jstring \<times> node_rank) list) list" where
  "addStageRank v n totals =
     (case map_of totals (pn_kind n) of
        None \<Rightarrow> totals
      | Some stageTotals \<Rightarrow> AList.update (pn_kind n) (addRank v n stageTotals) totals)"

definition byRank :: "flow_env \<Rightarrow> node_rank \<Rightarrow> node_rank \<Rightarrow> int" where
  "byRank env a b =
     or_else (num_sign (num_sub (snd b) (snd a)))
       (or_else (localeCompare env (pn_label (fst a)) (pn_label (fst b))) (localeCompare env (pn_id (fst a)) (pn_id (fst b))))"

definition buildTopNodeSets ::
  "flow_env \<Rightarrow> flow_row list \<Rightarrow> flow_metric \<Rightarrow> flow_kind list \<Rightarrow> nat option \<Rightarrow> token_labeler \<Rightarrow> top_sets option" where
  "buildTopNodeSets env rows metric stages limit ctx =
     (case limit of
        None \<Rightarrow> None
      | Some k \<Rightarrow>
          let totals = fold (\<lambda>row. fold (addStageRank (metricValue (rowMetrics row) metric)) (flowPathForStages row stages ctx)) rows
                (map (\<lambda>s. (s, [])) stages)
          in Some (map (\<lambda>(kind, stageTotals). (kind, map (pn_id \<circ> fst) (take k (js_sort (byRank env) (map snd stageTotals))))) totals))"

definition isTopFlowNode :: "path_node \<Rightarrow> top_sets option \<Rightarrow> bool" where
  "isTopFlowNode n topNodeSets =
     (case topNodeSets of
        None \<Rightarrow> True
      | Some sets \<Rightarrow> (case map_of sets (pn_kind n) of None \<Rightarrow> True | Some ids \<Rightarrow> pn_id n \<in> set ids))"

definition applyTopNodeLimit ::
  "path_node list \<Rightarrow> top_sets option \<Rightarrow> flow_overflow \<Rightarrow> (flow_kind \<Rightarrow> jstring) option \<Rightarrow> path_node list option" where
  "applyTopNodeLimit path topNodeSets mode labeler =
     (if topNodeSets = None then Some path
      else if \<not> list_ex (\<lambda>n. \<not> isTopFlowNode n topNodeSets) path then Some path
      else if mode = Hide then None
      else Some (map (\<lambda>n. if isTopFlowNode n topNodeSets then n else otherFlowNode (pn_kind n) labeler) path))"

section \<open>Highlighting and masking\<close>

definition pathContainsFlowNode :: "path_node list \<Rightarrow> node_filter \<Rightarrow> bool" where
  "pathContainsFlowNode path f = list_ex (\<lambda>n. pn_kind n = fst f \<and> pn_id n = snd f) path"

fun pathContainsFlowLink :: "path_node list \<Rightarrow> link_selection \<Rightarrow> bool" where
  "pathContainsFlowLink (a # b # p) l \<longleftrightarrow> pn_id a = fst l \<and> pn_id b = snd l \<or> pathContainsFlowLink (b # p) l"
| "pathContainsFlowLink _ l \<longleftrightarrow> False"

text \<open>The neighbours of a path: \<open>path[i]\<close> and \<open>path[i + 1]\<close>.\<close>

fun pathSteps :: "path_node list \<Rightarrow> (path_node \<times> path_node) list" where
  "pathSteps (a # b # p) = (a, b) # pathSteps (b # p)"
| "pathSteps _ = []"

definition highlightMatches :: "node_filter option \<Rightarrow> link_selection option \<Rightarrow> path_node list \<Rightarrow> bool" where
  "highlightMatches activeNode activeLink path =
     (case activeLink of
        Some l \<Rightarrow> pathContainsFlowLink path l
      | None \<Rightarrow> (case activeNode of Some f \<Rightarrow> pathContainsFlowNode path f | None \<Rightarrow> False))"

definition buildFlowHighlightSets ::
  "prepared_path list \<Rightarrow> node_filter option \<Rightarrow> link_selection option \<Rightarrow> flow_kind list \<Rightarrow> (jstring list \<times> jstring list) option" where
  "buildFlowHighlightSets preparedPaths activeNode activeLink stages =
     (let nodeActive = (case activeNode of Some f \<Rightarrow> fst f \<in> set stages | None \<Rightarrow> False);
          paths = filter (highlightMatches activeNode activeLink) (map pp_path preparedPaths);
          nodes = js_uniq (map pn_id (concat paths));
          links = js_uniq (map (\<lambda>(s, t). pathLinkKey s t) (concat (map pathSteps paths)))
      in if \<not> nodeActive \<and> activeLink = None then None
         else if nodes = [] then None
         else Some (nodes, links))"

definition FLOW_MASK_TEXT :: jstring where "FLOW_MASK_TEXT = replicate 4 8226"

definition maskFlowLabel :: "jstring \<Rightarrow> jstring" where
  "maskFlowLabel label = (if label = [] then label else FLOW_MASK_TEXT)"

definition isMasked :: "flow_node \<Rightarrow> bool" where
  "isMasked n \<longleftrightarrow> fn_kind n \<in> set SENSITIVE_FLOW_KINDS \<and> fn_id n \<notin> set OTHER_FLOW_NODE_ID_SET"

definition maskNode :: "flow_node \<Rightarrow> flow_node" where
  "maskNode n = (if isMasked n then n\<lparr>fn_label := maskFlowLabel (fn_label n)\<rparr> else n)"

definition maskLink :: "(jstring \<times> jstring) list \<Rightarrow> flow_link \<Rightarrow> flow_link" where
  "maskLink maskedById l =
     l\<lparr>fl_sourceLabel := (case map_of maskedById (fl_source l) of Some m \<Rightarrow> m | None \<Rightarrow> fl_sourceLabel l),
       fl_targetLabel := (case map_of maskedById (fl_target l) of Some m \<Rightarrow> m | None \<Rightarrow> fl_targetLabel l)\<rparr>"

definition maskFlowGraphLabels ::
  "(jstring \<times> flow_node) list \<Rightarrow> (jstring \<times> flow_link) list \<Rightarrow> (jstring \<times> flow_node) list \<times> (jstring \<times> flow_link) list" where
  "maskFlowGraphLabels nodes links =
     (let maskedById = fold (\<lambda>(_, n). if isMasked n then AList.update (fn_id n) (maskFlowLabel (fn_label n)) else id) nodes []
      in (map (\<lambda>(k, n). (k, maskNode n)) nodes, map (\<lambda>(k, l). (k, maskLink maskedById l)) links))"

definition highlightNode :: "(jstring list \<times> jstring list) option \<Rightarrow> flow_node \<Rightarrow> flow_node" where
  "highlightNode sets n =
     (case sets of
        None \<Rightarrow> n
      | Some (nodes, _) \<Rightarrow> n\<lparr>fn_highlighted := Some (fn_id n \<in> set nodes), fn_dimmed := Some (fn_id n \<notin> set nodes)\<rparr>)"

definition highlightLink :: "(jstring list \<times> jstring list) option \<Rightarrow> flow_link \<Rightarrow> flow_link" where
  "highlightLink sets l =
     (case sets of
        None \<Rightarrow> l
      | Some (_, links) \<Rightarrow> l\<lparr>fl_highlighted := Some (linkStableKey l \<in> set links), fl_dimmed := Some (linkStableKey l \<notin> set links)\<rparr>)"

section \<open>The graph\<close>

definition preparePaths ::
  "flow_row list \<Rightarrow> flow_kind list \<Rightarrow> top_sets option \<Rightarrow> flow_overflow \<Rightarrow> (flow_kind \<Rightarrow> jstring) option \<Rightarrow> token_labeler \<Rightarrow> prepared_path list" where
  "preparePaths rows stages topNodeSets mode labeler ctx =
     List.map_filter (\<lambda>row. map_option (\<lambda>path. \<lparr>pp_path = path, pp_metrics = rowMetrics row\<rparr>)
       (applyTopNodeLimit (flowPathForStages row stages ctx) topNodeSets mode labeler)) rows"

definition rootIds :: "prepared_path list \<Rightarrow> jstring list" where
  "rootIds paths = filter (\<lambda>i. i \<noteq> []) (map (\<lambda>p. pn_id (hd (pp_path p))) (filter (\<lambda>p. pp_path p \<noteq> []) paths))"

definition rootColor :: "flow_env \<Rightarrow> (jstring \<times> jstring) list \<Rightarrow> jstring list option \<Rightarrow> prepared_path \<Rightarrow> jstring" where
  "rootColor env colors palette p =
     (case map_of colors (pn_id (hd (pp_path p))) of Some c \<Rightarrow> c | None \<Rightarrow> colorAt env 0 palette)"

definition addPathNodes ::
  "flow_metric \<Rightarrow> (prepared_path \<Rightarrow> jstring) \<Rightarrow> prepared_path \<Rightarrow> (jstring \<times> flow_node) list \<Rightarrow> (jstring \<times> flow_node) list" where
  "addPathNodes metric color p nodes =
     (if pp_path p = [] then nodes
      else fold (\<lambda>n. addNode n (pp_metrics p) metric (color p) (pn_id (hd (pp_path p)))) (pp_path p) nodes)"

definition addPathLinks ::
  "flow_metric \<Rightarrow> (prepared_path \<Rightarrow> jstring) \<Rightarrow> prepared_path \<Rightarrow> (jstring \<times> flow_link) list \<Rightarrow> (jstring \<times> flow_link) list" where
  "addPathLinks metric color p links =
     (if pp_path p = [] then links
      else fold (\<lambda>(s, t). addLink s t (pp_metrics p) metric (color p) (pn_id (hd (pp_path p)))) (pathSteps (pp_path p)) links)"

definition byLinkEnds :: "flow_env \<Rightarrow> flow_link \<Rightarrow> flow_link \<Rightarrow> int" where
  "byLinkEnds env a b = or_else (localeCompare env (fl_source a) (fl_source b)) (localeCompare env (fl_target a) (fl_target b))"

definition shareLinks :: "jstring list \<Rightarrow> flow_link list \<Rightarrow> flow_link list" where
  "shareLinks firstStepSources flowLinks =
     (let total = num_sum (map fl_value (filter (\<lambda>l. fl_source l \<in> set firstStepSources) flowLinks))
      in map (\<lambda>l. l\<lparr>fl_share := (if num_gt0 total then num_div (fl_value l) total else Fin 0)\<rparr>) flowLinks)"

definition finishGraph ::
  "flow_env \<Rightarrow> prepared_path list \<Rightarrow> (jstring \<times> flow_node) list \<Rightarrow> (jstring \<times> flow_link) list \<Rightarrow> flow_graph" where
  "finishGraph env paths nodes links =
     \<lparr>fg_nodes = js_sort (byValueThenLabel env) (map snd nodes),
      fg_links = assignLinkDisplayColors env (shareLinks (rootIds paths) (js_sort (byLinkEnds env) (map snd links)))\<rparr>"

definition graphOfPaths ::
  "flow_env \<Rightarrow> flow_metric \<Rightarrow> jstring list option \<Rightarrow> flow_kind list \<Rightarrow> flow_options \<Rightarrow> prepared_path list \<Rightarrow> flow_graph" where
  "graphOfPaths env metric palette stages options paths =
     (let colors = stableColorMap env (js_sort (localeCompare env) (rootIds paths)) palette;
          color = rootColor env colors palette;
          nodes = fold (addPathNodes metric color) paths [];
          links = fold (addPathLinks metric color) paths [];
          (nodes, links) = (if fo_maskSensitive options then maskFlowGraphLabels nodes links else (nodes, links));
          sets = buildFlowHighlightSets paths (fo_activeNode options) (fo_activeLink options) stages
      in finishGraph env paths (map (\<lambda>(k, n). (k, highlightNode sets n)) nodes) (map (\<lambda>(k, l). (k, highlightLink sets l)) links))"

definition graphPaths :: "flow_env \<Rightarrow> flow_row list \<Rightarrow> flow_metric \<Rightarrow> flow_kind list \<Rightarrow> token_labeler \<Rightarrow> flow_options \<Rightarrow> prepared_path list" where
  "graphPaths env rows metric stages ctx options =
     preparePaths rows stages (buildTopNodeSets env rows metric stages (normalizeTopNodeLimit (fo_topNodeLimit options)) ctx)
       (case fo_overflowMode options of Some m \<Rightarrow> m | None \<Rightarrow> Aggregate) (fo_otherNodeLabel options) ctx"

definition buildFlowGraph ::
  "flow_env \<Rightarrow> flow_row list \<Rightarrow> flow_metric \<Rightarrow> flow_role \<Rightarrow> jstring list option \<Rightarrow> flow_kind list option \<Rightarrow> token_labeler \<Rightarrow> flow_options \<Rightarrow> flow_graph" where
  "buildFlowGraph env rows metric r palette visibleStages ctx options =
     (let stages = resolveVisibleStages r visibleStages
      in graphOfPaths env metric palette stages options (graphPaths env rows metric stages ctx options))"

section \<open>Filter options\<close>

record user_option =
  uo_value :: jstring
  uo_label :: jstring
  uo_valueLabel :: jstring
  uo_valueRaw :: jsnum
  uo_color :: jstring

record node_option =
  no_kind :: flow_kind
  no_value :: jstring
  no_label :: jstring
  no_valueLabel :: jstring
  no_valueRaw :: jsnum
  no_color :: jstring

definition namedUser :: "flow_row \<Rightarrow> bool" where
  "namedUser row \<longleftrightarrow> (case user_id row of Some n \<Rightarrow> num_truthy n | None \<Rightarrow> False) \<or> orText (username row) [] \<noteq> []"

definition byUserValue :: "flow_env \<Rightarrow> user_option \<Rightarrow> user_option \<Rightarrow> int" where
  "byUserValue env a b = or_else (num_sign (num_sub (uo_valueRaw b) (uo_valueRaw a))) (localeCompare env (uo_label a) (uo_label b))"

definition addUserTotal ::
  "(flow_row \<Rightarrow> jstring) \<Rightarrow> flow_metric \<Rightarrow> flow_row \<Rightarrow> (jstring \<times> jstring \<times> jsnum \<times> jstring) list \<Rightarrow> (jstring \<times> jstring \<times> jsnum \<times> jstring) list" where
  "addUserTotal color metric row =
     bumpAt (pn_id (userNode row)) (pn_label (userNode row), Fin 0, color row)
       (\<lambda>(l, v, c). (l, num_add v (metricValue (rowMetrics row) metric), c))"

definition buildUserFilterOptions :: "flow_env \<Rightarrow> flow_row list \<Rightarrow> flow_metric \<Rightarrow> jstring list option \<Rightarrow> user_option list" where
  "buildUserFilterOptions env rows metric palette =
     (let colors = stableColorMap env (js_sort (localeCompare env) (map (pn_id \<circ> userNode) rows)) palette;
          color = (\<lambda>row. case map_of colors (pn_id (userNode row)) of Some c \<Rightarrow> c | None \<Rightarrow> colorAt env 0 palette);
          users = fold (\<lambda>row. if namedUser row then addUserTotal color metric row else id) rows []
      in js_sort (byUserValue env)
           (map (\<lambda>(v, l, t, c). \<lparr>uo_value = v, uo_label = l, uo_valueLabel = formatNumber env t, uo_valueRaw = t, uo_color = c\<rparr>) users))"

definition nodeFilterKey :: "node_filter \<Rightarrow> jstring" where
  "nodeFilterKey f = kindName (fst f) @ [0] @ snd f"

definition addOptionTotal ::
  "flow_metric \<Rightarrow> flow_kind \<Rightarrow> token_labeler \<Rightarrow> flow_row \<Rightarrow> (jstring \<times> node_rank) list \<Rightarrow> (jstring \<times> node_rank) list" where
  "addOptionTotal metric stage ctx row =
     (let n = NODE_BUILDERS stage row ctx
      in bumpAt (nodeFilterKey (pn_kind n, pn_id n)) (n, Fin 0) (\<lambda>(n', v). (n', num_add v (metricValue (rowMetrics row) metric))))"

definition stageOptions ::
  "flow_env \<Rightarrow> flow_row list \<Rightarrow> flow_metric \<Rightarrow> flow_kind list \<Rightarrow> (jstring \<Rightarrow> jstring) \<Rightarrow> token_labeler \<Rightarrow> node_filter list option \<Rightarrow>
     flow_kind \<Rightarrow> node_option list" where
  "stageOptions env rows metric stages color ctx selectedNodes stage =
     (let candidateRows = filterRowsByNodes rows (selectedNodeFiltersExceptKind selectedNodes stage) stages ctx;
          totals = fold (addOptionTotal metric stage ctx) candidateRows []
      in map (\<lambda>(_, n, v). \<lparr>no_kind = pn_kind n, no_value = pn_id n, no_label = pn_label n, no_valueLabel = formatNumber env v,
            no_valueRaw = v, no_color = color (pn_id n)\<rparr>) totals)"

definition stageIndex :: "flow_kind list \<Rightarrow> flow_kind \<Rightarrow> nat" where
  "stageIndex stages k = (case map_of (zip stages [0..<length stages]) k of Some i \<Rightarrow> i | None \<Rightarrow> 0)"

definition byStageThenValue :: "flow_env \<Rightarrow> flow_kind list \<Rightarrow> node_option \<Rightarrow> node_option \<Rightarrow> int" where
  "byStageThenValue env stages a b =
     or_else (int (stageIndex stages (no_kind a)) - int (stageIndex stages (no_kind b)))
       (or_else (num_sign (num_sub (no_valueRaw b) (no_valueRaw a)))
         (or_else (localeCompare env (no_label a) (no_label b)) (localeCompare env (no_value a) (no_value b))))"

definition buildNodeFilterOptions ::
  "flow_env \<Rightarrow> flow_row list \<Rightarrow> flow_metric \<Rightarrow> flow_role \<Rightarrow> flow_kind list option \<Rightarrow> jstring list option \<Rightarrow> token_labeler \<Rightarrow>
     node_filter list option \<Rightarrow> node_option list" where
  "buildNodeFilterOptions env rows metric r visibleStages palette ctx selectedNodes =
     (let stages = resolveVisibleStages r visibleStages;
          colorIds = js_uniq (concat (map (\<lambda>row. map pn_id (flowPathForStages row stages ctx)) rows));
          colors = stableColorMap env (js_sort (localeCompare env) colorIds) palette;
          color = (\<lambda>i. case map_of colors i of Some c \<Rightarrow> c | None \<Rightarrow> colorAt env 0 palette)
      in js_sort (byStageThenValue env stages)
           (concat (map (stageOptions env rows metric stages color ctx selectedNodes) stages)))"

definition buildFlowFilterOptions ::
  "flow_env \<Rightarrow> flow_row list \<Rightarrow> flow_metric \<Rightarrow> jstring list option \<Rightarrow> flow_role \<Rightarrow> flow_kind list option \<Rightarrow> node_filter list option \<Rightarrow>
     user_option list \<times> node_option list" where
  "buildFlowFilterOptions env rows metric palette r visibleStages selectedNodes =
     (buildUserFilterOptions env rows metric palette,
      buildNodeFilterOptions env rows metric r visibleStages palette None selectedNodes)"

record flow_data =
  fd_summary :: flow_metrics
  fd_flow :: flow_graph
  fd_users :: "user_option list"
  fd_nodes :: "node_option list"

definition buildDashboardFlowData :: "flow_env \<Rightarrow> flow_row list \<Rightarrow> flow_metric \<Rightarrow> flow_options \<Rightarrow> flow_data" where
  "buildDashboardFlowData env rows metric options =
     (let r = (case fo_role options of Some r \<Rightarrow> r | None \<Rightarrow> UserR);
          palette = fo_colorPalette options;
          ctx = fo_deletedTokenLabel options;
          stages = resolveVisibleStages r (fo_visibleStages options);
          userFilteredRows = filterRows rows (fo_selectedUsers options);
          filteredRows = filterRowsByNodes userFilteredRows (fo_selectedNodes options) stages ctx
      in \<lparr>fd_summary = buildSummary filteredRows,
          fd_flow = buildFlowGraph env filteredRows metric r palette (fo_visibleStages options) ctx options,
          fd_users = buildUserFilterOptions env rows metric palette,
          fd_nodes = buildNodeFilterOptions env userFilteredRows metric r (fo_visibleStages options) palette ctx (fo_selectedNodes options)\<rparr>)"

section \<open>The data of the chart\<close>

text \<open>\<open>Number(flag)\<close> is NaN for a flag that is not set.\<close>

definition flagNumber :: "bool option \<Rightarrow> jsnum" where
  "flagNumber b = (case b of None \<Rightarrow> NaN | Some True \<Rightarrow> Fin 1 | Some False \<Rightarrow> Fin 0)"

definition byLinkDrawPriority :: "flow_env \<Rightarrow> flow_link \<Rightarrow> flow_link \<Rightarrow> int" where
  "byLinkDrawPriority env a b =
     or_else (num_sign (num_sub (flagNumber (fl_dimmed a)) (flagNumber (fl_dimmed b))))
       (or_else (num_sign (num_sub (flagNumber (fl_highlighted b)) (flagNumber (fl_highlighted a)))) (byLinkValue env a b))"

definition linkZIndex :: "flow_link \<Rightarrow> nat \<Rightarrow> nat" where
  "linkZIndex l i =
     (if fl_highlighted l = Some True then 1000000 + i else if fl_dimmed l = Some True then i else 100000 + i)"

definition sankeyLinks :: "flow_env \<Rightarrow> flow_graph \<Rightarrow> (flow_link \<times> nat) list" where
  "sankeyLinks env flow =
     (let links = js_sort (byLinkDrawPriority env) (filter (\<lambda>l. num_gt0 (fl_value l)) (fg_links flow))
      in map (\<lambda>i. (links ! i, linkZIndex (links ! i) i)) [0..<length links])"

end
