(* ===== verification/FlowTotals.thy ===== *)
theory FlowTotals
  imports Flow
begin

text \<open>
  What the flow graph adds up: the graph built by the loops refines the totals of the paths, and where the
  numbers are whole and below \<open>2\<^sup>53\<close> nothing is lost on the way through the stages.
\<close>

section \<open>Paths through the stages\<close>

lemma stages_distinct [simp]: "distinct (getFlowStages r)" "2 \<le> length (getFlowStages r)"
  by (cases r; simp)+

lemma visible_stages: "distinct (resolveVisibleStages r v)" "2 \<le> length (resolveVisibleStages r v)"
  by (auto simp: resolveVisibleStages_def Let_def MIN_FLOW_STAGES_def split: option.splits)

definition kinded :: "path_node \<Rightarrow> bool" where
  "kinded n \<longleftrightarrow> (\<exists>name. pn_id n = kindName (pn_kind n) @ 58 # name)"

definition path_ok :: "flow_kind list \<Rightarrow> path_node list \<Rightarrow> bool" where
  "path_ok stages path \<longleftrightarrow> map pn_kind path = stages \<and> list_all kinded path"

lemma kind_of_id: "kindName k @ 58 # a = kindName k' @ 58 # b \<Longrightarrow> k = k'"
  by (cases k; cases k'; simp add: kindName_def js_eval)

lemma kinded_same: "kinded m \<Longrightarrow> kinded n \<Longrightarrow> pn_id m = pn_id n \<Longrightarrow> pn_kind m = pn_kind n"
  unfolding kinded_def using kind_of_id by metis

lemma builder_kind [simp]: "pn_kind (NODE_BUILDERS k row ctx) = k"
  by (cases k) (simp_all add: userNode_def nodeNameNode_def tokenNode_def groupNode_def modelNode_def channelNode_def Let_def)

lemma builder_kinded: "kinded (NODE_BUILDERS k row ctx)"
  by (cases k) (auto simp: kinded_def kindName_def js_eval userNode_def nodeNameNode_def tokenNode_def groupNode_def modelNode_def
      channelNode_def Let_def)

lemma other_kinded: "kinded (otherFlowNode k labeler)" "pn_kind (otherFlowNode k labeler) = k"
  by (cases k; auto simp: kinded_def kindName_def js_eval otherFlowNode_def OTHER_FLOW_NODE_IDS_def)+

lemma row_path_ok: "path_ok stages (flowPathForStages row stages ctx)"
  by (auto simp: path_ok_def flowPathForStages_def builder_kinded list_all_iff comp_def)

lemma limited_path_ok:
  assumes "path_ok stages path" and "applyTopNodeLimit path sets mode labeler = Some path'"
  shows "path_ok stages path'"
  using assms by (auto simp: path_ok_def applyTopNodeLimit_def list_all_iff other_kinded split: if_splits)

lemma prepared_ok: "p \<in> set (preparePaths rows stages sets mode labeler ctx) \<Longrightarrow> path_ok stages (pp_path p)"
  using limited_path_ok [OF row_path_ok] by (fastforce simp: preparePaths_def List.map_filter_def)

lemma path_ids_distinct:
  assumes "path_ok stages path" and "distinct stages"
  shows "distinct (map pn_id path)"
proof -
  have "distinct (map pn_kind path)" using assms by (simp add: path_ok_def)
  then have "distinct path" "inj_on pn_kind (set path)" by (simp_all add: distinct_map)
  moreover have "inj_on pn_id (set path)"
    using assms(1) calculation(2) kinded_same unfolding path_ok_def list_all_iff inj_on_def by metis
  ultimately show ?thesis by (simp add: distinct_map)
qed

lemma steps_ends: "map fst (pathSteps p) = butlast p" "map snd (pathSteps p) = tl p"
  by (induction p rule: pathSteps.induct) auto

section \<open>The loops as tallies\<close>

type_synonym node_event = "path_node \<times> prepared_path"
type_synonym link_event = "(path_node \<times> path_node) \<times> prepared_path"

definition nodeEvents :: "prepared_path list \<Rightarrow> node_event list" where
  "nodeEvents paths = concat (map (\<lambda>p. map (\<lambda>n. (n, p)) (pp_path p)) paths)"

definition linkEvents :: "prepared_path list \<Rightarrow> link_event list" where
  "linkEvents paths = concat (map (\<lambda>p. map (\<lambda>s. (s, p)) (pathSteps (pp_path p))) paths)"

definition rootId :: "prepared_path \<Rightarrow> jstring" where
  "rootId p = pn_id (hd (pp_path p))"

definition eventKey :: "link_event \<Rightarrow> jstring" where
  "eventKey e = pathLinkKey (fst (fst e)) (snd (fst e))"

interpretation nt: tally "\<lambda>e. pn_id (fst e)" "\<lambda>e. newNode (fst e) (color (snd e)) (rootId (snd e))"
  "\<lambda>e. bumpNode (pp_metrics (snd e)) metric" "\<lambda>e. addNode (fst e) (pp_metrics (snd e)) metric (color (snd e)) (rootId (snd e))"
  for color metric
  unfolding addNode_def by (rule bumpAt_tally)

interpretation lt: tally eventKey "\<lambda>e. newLink (fst (fst e)) (snd (fst e)) (color (snd e)) (rootId (snd e))"
  "\<lambda>e. bumpLink (pp_metrics (snd e)) metric"
  "\<lambda>e. addLink (fst (fst e)) (snd (fst e)) (pp_metrics (snd e)) metric (color (snd e)) (rootId (snd e))"
  for color metric
  unfolding addLink_def eventKey_def [symmetric] by (rule bumpAt_tally)

lemma fold_concat: "fold f (concat xss) = fold (\<lambda>xs. fold f xs) xss"
  by (induction xss) (auto simp: fun_eq_iff)

lemma path_nodes_fold:
  "fold (addPathNodes metric color) paths =
    fold (\<lambda>e. addNode (fst e) (pp_metrics (snd e)) metric (color (snd e)) (rootId (snd e))) (nodeEvents paths)"
  by (induction paths) (auto simp: nodeEvents_def addPathNodes_def fold_map rootId_def comp_def fun_eq_iff)

lemma path_links_fold:
  "fold (addPathLinks metric color) paths =
    fold (\<lambda>e. addLink (fst (fst e)) (snd (fst e)) (pp_metrics (snd e)) metric (color (snd e)) (rootId (snd e))) (linkEvents paths)"
  by (induction paths) (auto simp: linkEvents_def addPathLinks_def fold_map rootId_def comp_def fun_eq_iff case_prod_unfold)

text \<open>The totals a node or a link carries.\<close>

definition nodeTotals :: "flow_node \<Rightarrow> jsnum \<times> flow_metrics" where
  "nodeTotals n = (fn_value n, \<lparr>m_quota = fn_quota n, m_tokens = fn_tokens n, m_requests = fn_requests n\<rparr>)"

definition linkTotals :: "flow_link \<Rightarrow> jsnum \<times> flow_metrics" where
  "linkTotals l = (fl_value l, \<lparr>m_quota = fl_quota l, m_tokens = fl_tokens l, m_requests = fl_requests l\<rparr>)"

definition addTotals :: "flow_metric \<Rightarrow> flow_metrics \<Rightarrow> jsnum \<times> flow_metrics \<Rightarrow> jsnum \<times> flow_metrics" where
  "addTotals metric m t = (num_add (fst t) (metricValue m metric), addMetrics (snd t) m)"

text \<open>The specification: what the paths through a node or over a link come to.\<close>

definition pathTotals :: "flow_metric \<Rightarrow> flow_metrics list \<Rightarrow> (jsnum \<times> flow_metrics) option" where
  "pathTotals metric ms =
     (if ms = [] then None else Some (num_sum (map (\<lambda>m. metricValue m metric) ms), foldl addMetrics noMetrics ms))"

definition nodeVisits :: "prepared_path list \<Rightarrow> jstring \<Rightarrow> flow_metrics list" where
  "nodeVisits paths i = map (pp_metrics \<circ> snd) (filter (\<lambda>e. pn_id (fst e) = i) (nodeEvents paths))"

definition linkVisits :: "prepared_path list \<Rightarrow> jstring \<Rightarrow> flow_metrics list" where
  "linkVisits paths k = map (pp_metrics \<circ> snd) (filter (\<lambda>e. eventKey e = k) (linkEvents paths))"

lemma addTotals_pair: "addTotals metric m (v, t) = (num_add v (metricValue m metric), addMetrics t m)"
  by (simp add: addTotals_def)

lemma fold_addTotals:
  "fold (\<lambda>e. addTotals metric (f e)) es (v, m) =
    (foldl num_add v (map (\<lambda>e. metricValue (f e) metric) es), foldl addMetrics m (map f es))"
  by (induction es arbitrary: v m) (simp_all add: addTotals_pair)

lemma fold_project:
  assumes "\<And>e v. g (b e v) = c e (g v)"
  shows "g (fold b es v) = fold c es (g v)"
  by (induction es arbitrary: v) (simp_all add: assms)

lemma node_total:
  "map_option nodeTotals (map_of (fold (addPathNodes metric color) paths []) i) = pathTotals metric (nodeVisits paths i)"
proof -
  let ?es = "filter (\<lambda>e. pn_id (fst e) = i) (nodeEvents paths)"
  have bump: "nodeTotals (bumpNode m metric n) = addTotals metric m (nodeTotals n)" for m n
    by (simp add: nodeTotals_def bumpNode_def addTotals_def addMetrics_def)
  have "nodeTotals (fold (\<lambda>e. bumpNode (pp_metrics (snd e)) metric) es n) = fold (\<lambda>e. addTotals metric (pp_metrics (snd e))) es (nodeTotals n)"
    for es :: "node_event list" and n
    by (rule fold_project) (rule bump)
  moreover have "nodeTotals (newNode n c k) = (Fin 0, noMetrics)" for n c k by (simp add: nodeTotals_def newNode_def noMetrics_def)
  ultimately show ?thesis
    unfolding path_nodes_fold nt.lookup_total nt.total_def pathTotals_def nodeVisits_def
    by (cases ?es) (simp_all add: bump addTotals_pair fold_addTotals num_sum_def comp_def)
qed

lemma link_total:
  "map_option linkTotals (map_of (fold (addPathLinks metric color) paths []) k) = pathTotals metric (linkVisits paths k)"
proof -
  let ?es = "filter (\<lambda>e. eventKey e = k) (linkEvents paths)"
  have bump: "linkTotals (bumpLink m metric n) = addTotals metric m (linkTotals n)" for m n
    by (simp add: linkTotals_def bumpLink_def addTotals_def addMetrics_def)
  have "linkTotals (fold (\<lambda>e. bumpLink (pp_metrics (snd e)) metric) es n) = fold (\<lambda>e. addTotals metric (pp_metrics (snd e))) es (linkTotals n)"
    for es :: "link_event list" and n
    by (rule fold_project) (rule bump)
  moreover have "linkTotals (newLink s t c k) = (Fin 0, noMetrics)" for s t c k by (simp add: linkTotals_def newLink_def noMetrics_def)
  ultimately show ?thesis
    unfolding path_links_fold lt.lookup_total lt.total_def pathTotals_def linkVisits_def
    by (cases ?es) (simp_all add: bump addTotals_pair fold_addTotals num_sum_def comp_def)
qed

section \<open>What the finished graph keeps\<close>

lemma stored_node:
  assumes "(k, n) \<in> set (fold (addPathNodes metric color) paths [])"
  obtains e es where "filter (\<lambda>e. pn_id (fst e) = k) (nodeEvents paths) = e # es"
    "n = fold (\<lambda>e. bumpNode (pp_metrics (snd e)) metric) (e # es) (newNode (fst e) (color (snd e)) (rootId (snd e)))"
proof -
  have "map_of (fold (addPathNodes metric color) paths []) k = Some n"
    using assms nt.distinct_keys by (simp add: path_nodes_fold)
  then have "nt.total color metric (filter (\<lambda>e. pn_id (fst e) = k) (nodeEvents paths)) = Some n"
    by (simp only: path_nodes_fold nt.lookup_total)
  then show ?thesis
    by (cases "filter (\<lambda>e. pn_id (fst e) = k) (nodeEvents paths)") (auto simp: nt.total_def intro: that)
qed

lemma stored_link:
  assumes "(k, l) \<in> set (fold (addPathLinks metric color) paths [])"
  obtains e es where "filter (\<lambda>e. eventKey e = k) (linkEvents paths) = e # es"
    "l = fold (\<lambda>e. bumpLink (pp_metrics (snd e)) metric) (e # es)
       (newLink (fst (fst e)) (snd (fst e)) (color (snd e)) (rootId (snd e)))"
proof -
  have "map_of (fold (addPathLinks metric color) paths []) k = Some l"
    using assms lt.distinct_keys by (simp add: path_links_fold)
  then have "lt.total color metric (filter (\<lambda>e. eventKey e = k) (linkEvents paths)) = Some l"
    by (simp only: path_links_fold lt.lookup_total)
  then show ?thesis
    by (cases "filter (\<lambda>e. eventKey e = k) (linkEvents paths)") (auto simp: lt.total_def intro: that)
qed

lemma fold_keeps: "(\<And>e v. g (b e v) = g v) \<Longrightarrow> g (fold b es v) = g v"
  by (induction es arbitrary: v) simp_all

lemma bumps_keep [simp]:
  "fn_id (bumpNode m metric n) = fn_id n" "fn_kind (bumpNode m metric n) = fn_kind n" "fn_label (bumpNode m metric n) = fn_label n"
  "fl_source (bumpLink m metric l) = fl_source l" "fl_target (bumpLink m metric l) = fl_target l"
  by (simp_all add: bumpNode_def bumpLink_def)

lemma filter_ConsD: "filter P xs = y # ys \<Longrightarrow> y \<in> set xs \<and> P y"
  by (drule arg_cong [where f = set]) auto

lemma stored_node_event:
  assumes "(k, n) \<in> set (fold (addPathNodes metric color) paths [])"
  obtains e where "e \<in> set (nodeEvents paths)" "fn_id n = k" "pn_id (fst e) = k" "fn_kind n = pn_kind (fst e)"
    "fn_label n = pn_label (fst e)"
proof -
  obtain e es where e: "filter (\<lambda>e. pn_id (fst e) = k) (nodeEvents paths) = e # es"
    "n = fold (\<lambda>e. bumpNode (pp_metrics (snd e)) metric) (e # es) (newNode (fst e) (color (snd e)) (rootId (snd e)))"
    using stored_node [OF assms] .
  have "fn_id n = pn_id (fst e)" "fn_kind n = pn_kind (fst e)" "fn_label n = pn_label (fst e)"
    unfolding e(2) by (subst fold_keeps; simp add: newNode_def)+
  with filter_ConsD [OF e(1)] that show ?thesis by metis
qed

lemma stored_link_event:
  assumes "(k, l) \<in> set (fold (addPathLinks metric color) paths [])"
  obtains e where "e \<in> set (linkEvents paths)" "linkStableKey l = k" "eventKey e = k"
    "fl_source l = pn_id (fst (fst e))" "fl_target l = pn_id (snd (fst e))"
proof -
  obtain e es where e: "filter (\<lambda>e. eventKey e = k) (linkEvents paths) = e # es"
    "l = fold (\<lambda>e. bumpLink (pp_metrics (snd e)) metric) (e # es)
       (newLink (fst (fst e)) (snd (fst e)) (color (snd e)) (rootId (snd e)))"
    using stored_link [OF assms] .
  have ends: "fl_source l = pn_id (fst (fst e))" "fl_target l = pn_id (snd (fst e))"
    unfolding e(2) by (subst fold_keeps; simp add: newLink_def)+
  moreover have "linkStableKey l = eventKey e" using ends by (simp add: linkStableKey_def eventKey_def pathLinkKey_def)
  ultimately show ?thesis using filter_ConsD [OF e(1)] that by metis
qed

interpretation gt: tally fl_source "\<lambda>_. []" "\<lambda>l ls. ls @ [l]" "\<lambda>l. bumpAt (fl_source l) [] (\<lambda>ls. ls @ [l])"
  by (rule bumpAt_tally)

lemma link_group:
  fixes links :: "flow_link list"
  assumes "(s, ls) \<in> set (fold (\<lambda>l. bumpAt (fl_source l) [] (\<lambda>ls. ls @ [l])) links [])"
  shows "ls = filter (\<lambda>l. fl_source l = s) links"
proof -
  have snoc: "fold (\<lambda>l ls. ls @ [l]) xs ys = ys @ xs" for xs ys :: "flow_link list" by (induction xs arbitrary: ys) simp_all
  have "map_of (fold (\<lambda>l. bumpAt (fl_source l) [] (\<lambda>ls. ls @ [l])) links []) s = Some ls"
    using assms gt.distinct_keys by (intro map_of_is_SomeI)
  then show ?thesis unfolding gt.lookup_total gt.total_def by (auto simp: snoc split: list.splits)
qed

lemma assign_keeps:
  assumes "distinct (map linkStableKey links)" and "\<And>n i l. g (displayLink n i l) = g l"
  shows "map g (assignLinkDisplayColors env links) = map g links"
proof -
  define groups where "groups = fold (\<lambda>l. bumpAt (fl_source l) [] (\<lambda>ls. ls @ [l])) links []"
  define displayed where "displayed = concat (map (\<lambda>(_, ls). let s = js_sort (byLinkValue env) ls
      in map (\<lambda>i. displayLink (length s) i (s ! i)) [0..<length s]) groups)"
  have "g (case List.find (\<lambda>d. linkStableKey d = linkStableKey l) displayed of Some d \<Rightarrow> d | None \<Rightarrow> l) = g l"
    if l: "l \<in> set links" for l
  proof (cases "List.find (\<lambda>d. linkStableKey d = linkStableKey l) displayed")
    case (Some d)
    then have d: "d \<in> set displayed" "linkStableKey d = linkStableKey l" by (auto simp: find_Some_iff)
    from d(1) obtain s ls n i where ls: "(s, ls) \<in> set groups" "i < length ls" "d = displayLink n i (js_sort (byLinkValue env) ls ! i)"
      by (auto simp: displayed_def Let_def)
    define l' where "l' = js_sort (byLinkValue env) ls ! i"
    have "l' \<in> set (js_sort (byLinkValue env) ls)" using ls(2) unfolding l'_def by (intro nth_mem) simp
    then have "l' \<in> set links" using link_group [of s ls links] ls(1) by (auto simp: groups_def)
    moreover have "linkStableKey l' = linkStableKey l" using d(2) ls(3) by (simp add: l'_def linkStableKey_def displayLink_def split_beta)
    ultimately have "l' = l" using assms(1) l by (metis distinct_map inj_onD)
    then show ?thesis using Some ls(3) assms(2) by (simp add: l'_def)
  qed simp
  moreover have "assignLinkDisplayColors env links =
      map (\<lambda>l. case List.find (\<lambda>d. linkStableKey d = linkStableKey l) displayed of Some d \<Rightarrow> d | None \<Rightarrow> l) links"
    by (simp only: assignLinkDisplayColors_def displayed_def groups_def Let_def)
  ultimately show ?thesis by simp
qed

text \<open>A view of nodes or links that masking, highlighting, shares and display colours do not touch.\<close>

definition node_view :: "(flow_node \<Rightarrow> 'a) \<Rightarrow> bool" where
  "node_view g \<longleftrightarrow> (\<forall>s n. g (highlightNode s n) = g n) \<and> (\<forall>n. g (maskNode n) = g n)"

definition link_view :: "(flow_link \<Rightarrow> 'a) \<Rightarrow> bool" where
  "link_view g \<longleftrightarrow> (\<forall>s l. g (highlightLink s l) = g l) \<and> (\<forall>m l. g (maskLink m l) = g l) \<and>
     (\<forall>l x. g (l\<lparr>fl_share := x\<rparr>) = g l) \<and> (\<forall>n i l. g (displayLink n i l) = g l)"

lemma totals_views [simp]:
  "node_view (\<lambda>n. (fn_id n, nodeTotals n))" "node_view fn_id" "node_view (\<lambda>n. (fn_id n, fn_kind n, fn_value n))"
  "link_view (\<lambda>l. (linkStableKey l, linkTotals l))" "link_view linkStableKey" "link_view (\<lambda>l. (fl_source l, fl_target l, fl_value l))"
  "link_view (\<lambda>l. (fl_source l, fl_value l))"
  by (simp_all add: node_view_def link_view_def highlightNode_def maskNode_def highlightLink_def maskLink_def displayLink_def
      nodeTotals_def linkTotals_def linkStableKey_def split_beta split: option.split)

definition graphNodes :: "flow_env \<Rightarrow> flow_metric \<Rightarrow> jstring list option \<Rightarrow> prepared_path list \<Rightarrow> (jstring \<times> flow_node) list" where
  "graphNodes env metric palette paths =
     fold (addPathNodes metric (rootColor env (stableColorMap env (js_sort (localeCompare env) (rootIds paths)) palette) palette)) paths []"

definition graphLinks :: "flow_env \<Rightarrow> flow_metric \<Rightarrow> jstring list option \<Rightarrow> prepared_path list \<Rightarrow> (jstring \<times> flow_link) list" where
  "graphLinks env metric palette paths =
     fold (addPathLinks metric (rootColor env (stableColorMap env (js_sort (localeCompare env) (rootIds paths)) palette) palette)) paths []"

definition maskedLabels :: "(jstring \<times> flow_node) list \<Rightarrow> (jstring \<times> jstring) list" where
  "maskedLabels nodes = fold (\<lambda>(_, n). if isMasked n then AList.update (fn_id n) (maskFlowLabel (fn_label n)) else id) nodes []"

lemma graph_shape:
  fixes env metric palette stages options paths
  defines "sets \<equiv> buildFlowHighlightSets paths (fo_activeNode options) (fo_activeLink options) stages"
  shows "fg_nodes (graphOfPaths env metric palette stages options paths) =
      js_sort (byValueThenLabel env) (map (\<lambda>(k, n). highlightNode sets (if fo_maskSensitive options then maskNode n else n))
        (graphNodes env metric palette paths))" (is ?nodes)
    and "fg_links (graphOfPaths env metric palette stages options paths) =
      assignLinkDisplayColors env (shareLinks (rootIds paths) (js_sort (byLinkEnds env)
        (map (\<lambda>(k, l). highlightLink sets
            (if fo_maskSensitive options then maskLink (maskedLabels (graphNodes env metric palette paths)) l else l))
          (graphLinks env metric palette paths))))" (is ?links)
proof -
  show ?nodes ?links
    by (cases "fo_maskSensitive options"; simp add: graphOfPaths_def finishGraph_def Let_def graphNodes_def graphLinks_def
        maskFlowGraphLabels_def maskedLabels_def sets_def comp_def case_prod_unfold)+
qed

lemma graph_nodes:
  assumes "node_view g"
  shows "mset (map g (fg_nodes (graphOfPaths env metric palette stages options paths))) =
    mset (map (g \<circ> snd) (graphNodes env metric palette paths))"
proof -
  have "g (highlightNode s (if b then maskNode n else n)) = g n" for s b n using assms by (simp add: node_view_def)
  then show ?thesis by (simp add: graph_shape(1) case_prod_unfold comp_def multiset.map_comp)
qed

lemma node_keys:
  "map (fn_id \<circ> snd) (graphNodes env metric palette paths) = map fst (graphNodes env metric palette paths)"
  "distinct (map fst (graphNodes env metric palette paths))"
proof -
  show "map (fn_id \<circ> snd) (graphNodes env metric palette paths) = map fst (graphNodes env metric palette paths)"
    by (auto simp: graphNodes_def elim: stored_node_event)
  show "distinct (map fst (graphNodes env metric palette paths))"
    unfolding graphNodes_def path_nodes_fold by (rule nt.distinct_keys)
qed

lemma link_keys:
  "map (linkStableKey \<circ> snd) (graphLinks env metric palette paths) = map fst (graphLinks env metric palette paths)"
  "distinct (map fst (graphLinks env metric palette paths))"
proof -
  show "map (linkStableKey \<circ> snd) (graphLinks env metric palette paths) = map fst (graphLinks env metric palette paths)"
    by (auto simp: graphLinks_def elim: stored_link_event)
  show "distinct (map fst (graphLinks env metric palette paths))"
    unfolding graphLinks_def path_links_fold by (rule lt.distinct_keys)
qed

lemma link_keys_distinct: "distinct (map (linkStableKey \<circ> snd) (graphLinks env metric palette paths))"
  unfolding link_keys(1) by (rule link_keys(2))

definition rawLinks ::
  "flow_env \<Rightarrow> flow_metric \<Rightarrow> jstring list option \<Rightarrow> flow_kind list \<Rightarrow> flow_options \<Rightarrow> prepared_path list \<Rightarrow> flow_link list" where
  "rawLinks env metric palette stages options paths =
     js_sort (byLinkEnds env)
       (map (\<lambda>(k, l). highlightLink (buildFlowHighlightSets paths (fo_activeNode options) (fo_activeLink options) stages)
           (if fo_maskSensitive options then maskLink (maskedLabels (graphNodes env metric palette paths)) l else l))
         (graphLinks env metric palette paths))"

lemma raw_links_keys: "distinct (map linkStableKey (shareLinks src (rawLinks env metric palette stages options paths)))"
proof -
  have "linkStableKey (highlightLink s (if b then maskLink m l else l)) = linkStableKey l" for s b m l
    by (simp add: linkStableKey_def highlightLink_def maskLink_def split: option.split)
  then show ?thesis
    using link_keys_distinct [of env metric palette paths]
    by (simp add: shareLinks_def Let_def rawLinks_def linkStableKey_def [abs_def] distinct_js_sort comp_def case_prod_unfold
        del: append.simps append_Cons)
qed

lemma graph_links_shared:
  assumes "\<And>n i l. g (displayLink n i l) = g l"
  shows "map g (fg_links (graphOfPaths env metric palette stages options paths)) =
    map g (shareLinks (rootIds paths) (rawLinks env metric palette stages options paths))"
  unfolding graph_shape(2) rawLinks_def [symmetric] by (rule assign_keeps [OF raw_links_keys assms])

lemma graph_links_raw:
  assumes "link_view g"
  shows "map g (fg_links (graphOfPaths env metric palette stages options paths)) = map g (rawLinks env metric palette stages options paths)"
proof -
  have "map g (shareLinks src ls) = map g ls" for src ls using assms by (simp add: shareLinks_def Let_def link_view_def)
  then show ?thesis using assms graph_links_shared [of g] by (simp add: link_view_def)
qed

lemma graph_links:
  assumes "link_view g"
  shows "mset (map g (fg_links (graphOfPaths env metric palette stages options paths))) =
    mset (map (g \<circ> snd) (graphLinks env metric palette paths))"
proof -
  have "g (highlightLink s (if b then maskLink m l else l)) = g l" for s b m l using assms by (simp add: link_view_def)
  then show ?thesis
    unfolding graph_links_raw [OF assms] rawLinks_def by (simp add: case_prod_unfold comp_def multiset.map_comp)
qed

section \<open>Refinement\<close>

text \<open>The totals of a graph as maps from the identity of a node or a link.\<close>

definition nodeMap :: "flow_graph \<Rightarrow> jstring \<Rightarrow> (jsnum \<times> flow_metrics) option" where
  "nodeMap g = map_of (map (\<lambda>n. (fn_id n, nodeTotals n)) (fg_nodes g))"

definition linkMap :: "flow_graph \<Rightarrow> jstring \<Rightarrow> (jsnum \<times> flow_metrics) option" where
  "linkMap g = map_of (map (\<lambda>l. (linkStableKey l, linkTotals l)) (fg_links g))"

lemma map_of_permuted:
  assumes "mset xs = mset ys" and "distinct (map fst ys)"
  shows "map_of xs = map_of ys" "distinct (map fst xs)"
proof -
  show "distinct (map fst xs)" using assms by (metis mset_eq_imp_distinct_iff mset_map)
  then show "map_of xs = map_of ys" using assms by (metis map_of_inject_set mset_eq_setD)
qed

lemma map_of_keyed:
  assumes "map (f \<circ> snd) xs = map fst xs"
  shows "map_of (map ((\<lambda>v. (f v, h v)) \<circ> snd) xs) k = map_option h (map_of xs k)"
  using assms by (induction xs) auto

lemma node_map_raw:
  "nodeMap (graphOfPaths env metric palette stages options paths) i = map_option nodeTotals (map_of (graphNodes env metric palette paths) i)"
  "distinct (map fn_id (fg_nodes (graphOfPaths env metric palette stages options paths)))"
proof -
  let ?g = "graphOfPaths env metric palette stages options paths"
  let ?xs = "map ((\<lambda>n. (fn_id n, nodeTotals n)) \<circ> snd) (graphNodes env metric palette paths)"
  have "mset (map (\<lambda>n. (fn_id n, nodeTotals n)) (fg_nodes ?g)) = mset ?xs" by (rule graph_nodes) simp
  moreover have "map fst ?xs = map fst (graphNodes env metric palette paths)"
    using node_keys(1) [of env metric palette paths] by (simp add: comp_def)
  then have "distinct (map fst ?xs)" by (simp only: node_keys(2))
  ultimately have "map_of (map (\<lambda>n. (fn_id n, nodeTotals n)) (fg_nodes ?g)) = map_of ?xs"
      "distinct (map fst (map (\<lambda>n. (fn_id n, nodeTotals n)) (fg_nodes ?g)))"
    by (rule map_of_permuted)+
  then show "nodeMap ?g i = map_option nodeTotals (map_of (graphNodes env metric palette paths) i)" "distinct (map fn_id (fg_nodes ?g))"
    using map_of_keyed [OF node_keys(1) [of env metric palette paths], of nodeTotals i] by (simp_all add: nodeMap_def comp_def)
qed

lemma link_map_raw:
  "linkMap (graphOfPaths env metric palette stages options paths) k = map_option linkTotals (map_of (graphLinks env metric palette paths) k)"
  "distinct (map linkStableKey (fg_links (graphOfPaths env metric palette stages options paths)))"
proof -
  let ?g = "graphOfPaths env metric palette stages options paths"
  let ?xs = "map ((\<lambda>l. (linkStableKey l, linkTotals l)) \<circ> snd) (graphLinks env metric palette paths)"
  have "mset (map (\<lambda>l. (linkStableKey l, linkTotals l)) (fg_links ?g)) = mset ?xs" by (rule graph_links) simp
  moreover have "map fst ?xs = map fst (graphLinks env metric palette paths)"
    using link_keys(1) [of env metric palette paths] by (simp add: comp_def)
  then have "distinct (map fst ?xs)" by (simp only: link_keys(2))
  ultimately have "map_of (map (\<lambda>l. (linkStableKey l, linkTotals l)) (fg_links ?g)) = map_of ?xs"
      "distinct (map fst (map (\<lambda>l. (linkStableKey l, linkTotals l)) (fg_links ?g)))"
    by (rule map_of_permuted)+
  then show "linkMap ?g k = map_option linkTotals (map_of (graphLinks env metric palette paths) k)" "distinct (map linkStableKey (fg_links ?g))"
    using map_of_keyed [OF link_keys(1) [of env metric palette paths], of linkTotals k] by (simp_all add: linkMap_def comp_def)
qed

text \<open>C35. The flow graph refines the paths it was built from: whatever is masked, highlighted or coloured, it has
  one node for every identity and one link for every key the paths visit, and each carries, rounding
  included, the metrics of the visits added up in the order of the rows.\<close>

theorem flow_graph_refines_paths:
  "nodeMap (buildFlowGraph env rows metric r palette visible ctx options) =
      (\<lambda>i. pathTotals metric (nodeVisits (graphPaths env rows metric (resolveVisibleStages r visible) ctx options) i)) \<and>
   linkMap (buildFlowGraph env rows metric r palette visible ctx options) =
      (\<lambda>k. pathTotals metric (linkVisits (graphPaths env rows metric (resolveVisibleStages r visible) ctx options) k)) \<and>
   distinct (map fn_id (fg_nodes (buildFlowGraph env rows metric r palette visible ctx options))) \<and>
   distinct (map linkStableKey (fg_links (buildFlowGraph env rows metric r palette visible ctx options)))"
  unfolding buildFlowGraph_def Let_def fun_eq_iff
  by (intro conjI allI; simp add: node_map_raw link_map_raw graphNodes_def graphLinks_def node_total link_total)

end
