(* ===== verification/FlowConserved.thy ===== *)
theory FlowConserved
  imports FlowTotals
begin

text \<open>
  Conservation in the flow graph: with whole numbers and a total below \<open>2\<^sup>53\<close> the sums are exact, every stage
  carries the whole flow, and what flows into a node flows out of it.
\<close>

section \<open>Grouped sums\<close>

lemma sum_split_filter: "(\<Sum>e \<leftarrow> es. w e) = (\<Sum>e \<leftarrow> filter P es. w e) + (\<Sum>e \<leftarrow> filter (\<lambda>e. \<not> P e) es. (w e :: int))"
  by (induction es) auto

lemma sum_grouped:
  fixes val :: "'v \<Rightarrow> int" and w :: "'e \<Rightarrow> int"
  assumes "distinct (map fst m)" and "\<forall>e \<in> set es. key e \<in> set (map fst m)"
    and "\<And>k v. (k, v) \<in> set m \<Longrightarrow> val v = (\<Sum>e \<leftarrow> filter (\<lambda>e. key e = k) es. w e)"
  shows "(\<Sum>(k, v) \<leftarrow> filter (\<lambda>(k, v). P k) m. val v) = (\<Sum>e \<leftarrow> filter (\<lambda>e. P (key e)) es. w e)"
  using assms
proof (induction m arbitrary: es)
  case (Cons kv m)
  obtain k v where kv: "kv = (k, v)" by (cases kv)
  let ?rest = "filter (\<lambda>e. key e \<noteq> k) es"
  have same: "filter (\<lambda>e. key e = k') ?rest = filter (\<lambda>e. key e = k') es" if "k' \<noteq> k" for k'
    using that by (induction es) auto
  have "(\<Sum>(k, v) \<leftarrow> filter (\<lambda>(k, v). P k) m. val v) = (\<Sum>e \<leftarrow> filter (\<lambda>e. P (key e)) ?rest. w e)"
  proof (rule Cons.IH)
    fix k' v' assume *: "(k', v') \<in> set m"
    then have "k' \<noteq> k" using Cons.prems(1) kv by force
    from same [OF this] show "val v' = (\<Sum>e \<leftarrow> filter (\<lambda>e. key e = k') ?rest. w e)"
      using Cons.prems(3) [of k' v'] * by (simp only: list.set_intros)
  qed (use Cons.prems kv in auto)
  moreover have "val v = (\<Sum>e \<leftarrow> filter (\<lambda>e. key e = k) es. w e)" using Cons.prems(3) kv by simp
  moreover have "filter (\<lambda>e. key e = k) (filter (\<lambda>e. P (key e)) es) = (if P k then filter (\<lambda>e. key e = k) es else [])"
    by (induction es) auto
  moreover have "filter (\<lambda>e. key e \<noteq> k) (filter (\<lambda>e. P (key e)) es) = filter (\<lambda>e. P (key e)) ?rest"
    by (induction es) auto
  ultimately show ?case
    using sum_split_filter [of w "filter (\<lambda>e. P (key e)) es" "\<lambda>e. key e = k"] kv by auto
qed auto

section \<open>Exact totals\<close>

definition weight :: "flow_metric \<Rightarrow> prepared_path \<Rightarrow> int" where
  "weight metric p = int_of (metricValue (pp_metrics p) metric)"

definition exact_paths :: "flow_metric \<Rightarrow> prepared_path list \<Rightarrow> bool" where
  "exact_paths metric paths \<longleftrightarrow>
     list_all (\<lambda>p. whole (metricValue (pp_metrics p) metric)) paths \<and> (\<Sum>p \<leftarrow> paths. weight metric p) < 2 ^ 53"

lemma weight_nonneg: "exact_paths metric paths \<Longrightarrow> p \<in> set paths \<Longrightarrow> 0 \<le> weight metric p"
  using whole_Fin by (auto simp: exact_paths_def list_all_iff weight_def)

lemma filtered_sum_le:
  assumes "\<forall>x \<in> set xs. 0 \<le> f x"
  shows "(\<Sum>x \<leftarrow> filter P xs. f x) \<le> (\<Sum>x \<leftarrow> xs. (f x :: int))"
  using assms by (induction xs) auto

text \<open>Events of a path are visited at most once, so their weights stay below the weight of the paths.\<close>

lemma events_sum:
  "(\<Sum>e \<leftarrow> filter (\<lambda>e. Q (fst e)) (concat (map (\<lambda>p. map (\<lambda>x. (x, p)) (ev p)) paths)). weight metric (snd e)) =
    (\<Sum>p \<leftarrow> paths. int (length (filter Q (ev p))) * weight metric p)"
proof (induction paths)
  case (Cons p paths)
  have "filter (\<lambda>e. Q (fst e)) (map (\<lambda>x. (x, p)) (ev p)) = map (\<lambda>x. (x, p)) (filter Q (ev p))"
    by (simp add: filter_map comp_def)
  then have "(\<Sum>e \<leftarrow> filter (\<lambda>e. Q (fst e)) (map (\<lambda>x. (x, p)) (ev p)). weight metric (snd e)) =
      int (length (filter Q (ev p))) * weight metric p"
    by (simp add: comp_def sum_list_triv)
  with Cons show ?case by simp
qed simp

lemma events_sum_le:
  assumes "exact_paths metric paths" and "\<And>p. p \<in> set paths \<Longrightarrow> length (filter Q (ev p)) \<le> 1"
  shows "(\<Sum>e \<leftarrow> filter (\<lambda>e. Q (fst e)) (concat (map (\<lambda>p. map (\<lambda>x. (x, p)) (ev p)) paths)). weight metric (snd e))
    \<le> (\<Sum>p \<leftarrow> paths. weight metric p)"
  unfolding events_sum
proof (rule sum_list_mono)
  fix p assume "p \<in> set paths"
  then have "0 \<le> weight metric p" "int (length (filter Q (ev p))) \<le> 1"
    using assms(2) [of p] weight_nonneg [OF assms(1)] by auto
  then show "int (length (filter Q (ev p))) * weight metric p \<le> weight metric p"
    using mult_right_mono [of "int (length (filter Q (ev p)))" 1 "weight metric p"] by simp
qed

lemma exact_visits:
  assumes "exact_paths metric paths" and "\<And>p. p \<in> set paths \<Longrightarrow> length (filter Q (ev p)) \<le> 1"
  defines "es \<equiv> filter (\<lambda>e. Q (fst e)) (concat (map (\<lambda>p. map (\<lambda>x. (x, p)) (ev p)) paths))"
  shows "int_of (num_sum (map (\<lambda>e. metricValue (pp_metrics (snd e)) metric) es)) = (\<Sum>e \<leftarrow> es. weight metric (snd e))"
    and "whole (num_sum (map (\<lambda>e. metricValue (pp_metrics (snd e)) metric) es))"
proof -
  let ?xs = "map (\<lambda>e. metricValue (pp_metrics (snd e)) metric) es"
  have sum: "(\<Sum>x \<leftarrow> ?xs. int_of x) = (\<Sum>e \<leftarrow> es. weight metric (snd e))" by (simp add: weight_def comp_def)
  have whole: "list_all whole ?xs" using assms(1) by (auto simp: es_def exact_paths_def list_all_iff)
  have "(\<Sum>e \<leftarrow> es. weight metric (snd e)) < 2 ^ 53"
    using events_sum_le [OF assms(1,2)] assms(1) unfolding es_def exact_paths_def by fastforce
  moreover have "0 \<le> (\<Sum>e \<leftarrow> es. weight metric (snd e))"
    using weight_nonneg [OF assms(1)] by (intro sum_list_nonneg) (auto simp: es_def)
  ultimately show "int_of (num_sum ?xs) = (\<Sum>e \<leftarrow> es. weight metric (snd e))" "whole (num_sum ?xs)"
    using exact_sum [OF whole] by (simp_all only: sum whole_of_int)
qed

section \<open>Values of nodes and links\<close>

definition clean_paths :: "flow_kind list \<Rightarrow> prepared_path list \<Rightarrow> bool" where
  "clean_paths stages paths \<longleftrightarrow> list_all (\<lambda>p. path_ok stages (pp_path p) \<and> list_all (\<lambda>n. 0 \<notin> set (pn_id n)) (pp_path p)) paths"

definition keySource :: "jstring \<Rightarrow> jstring" where
  "keySource k = takeWhile (\<lambda>c. c \<noteq> 0) k"

definition keyTarget :: "jstring \<Rightarrow> jstring" where
  "keyTarget k = drop (Suc (length (keySource k))) k"

lemma key_ends: "0 \<notin> set s \<Longrightarrow> keySource (s @ 0 # t) = s \<and> keyTarget (s @ 0 # t) = t"
proof -
  assume "0 \<notin> set s"
  then have "c \<in> set s \<Longrightarrow> c \<noteq> 0" for c by metis
  then have "takeWhile (\<lambda>c. c \<noteq> 0) (s @ 0 # t) = s" using takeWhile_append2 [of s "\<lambda>c. c \<noteq> 0" "0 # t"] by simp
  then show ?thesis by (simp add: keySource_def keyTarget_def)
qed

lemma distinct_filter_le1: "distinct (map f xs) \<Longrightarrow> length (filter (\<lambda>x. f x = a) xs) \<le> 1"
  by (induction xs) (auto simp: filter_empty_conv rev_image_eqI)

lemma length_filter_mono: "\<forall>x \<in> set xs. P x \<longrightarrow> Q x \<Longrightarrow> length (filter P xs) \<le> length (filter Q xs)"
  by (induction xs) auto

lemma steps_in_path: "(s, t) \<in> set (pathSteps path) \<Longrightarrow> s \<in> set path \<and> t \<in> set path"
  by (induction path rule: pathSteps.induct) auto

lemma step_key:
  assumes "clean_paths stages paths" and "p \<in> set paths" and "st \<in> set (pathSteps (pp_path p))"
  shows "keySource (pathLinkKey (fst st) (snd st)) = pn_id (fst st)" "keyTarget (pathLinkKey (fst st) (snd st)) = pn_id (snd st)"
proof -
  have "fst st \<in> set (pp_path p)" using assms(3) steps_in_path [of "fst st" "snd st"] by simp
  then have "0 \<notin> set (pn_id (fst st))" using assms(1,2) by (auto simp: clean_paths_def list_all_iff)
  then show "keySource (pathLinkKey (fst st) (snd st)) = pn_id (fst st)" "keyTarget (pathLinkKey (fst st) (snd st)) = pn_id (snd st)"
    using key_ends by (simp_all add: pathLinkKey_def)
qed

lemma visits_once:
  assumes "clean_paths stages paths" and "distinct stages" and "p \<in> set paths"
  shows "length (filter (\<lambda>n. pn_id n = i) (pp_path p)) \<le> 1"
    and "length (filter (\<lambda>s. pathLinkKey (fst s) (snd s) = k) (pathSteps (pp_path p))) \<le> 1"
proof -
  have ok: "path_ok stages (pp_path p)" using assms(1,3) by (simp add: clean_paths_def list_all_iff)
  then have ids: "distinct (map pn_id (pp_path p))" using assms(2) by (rule path_ids_distinct)
  then show "length (filter (\<lambda>n. pn_id n = i) (pp_path p)) \<le> 1" by (rule distinct_filter_le1)
  have "distinct (map pn_id (butlast (pp_path p)))" using ids by (simp add: map_butlast distinct_butlast)
  then have "distinct (map (pn_id \<circ> fst) (pathSteps (pp_path p)))" by (simp only: steps_ends(1) [symmetric] map_map)
  then have "length (filter (\<lambda>s. (pn_id \<circ> fst) s = keySource k) (pathSteps (pp_path p))) \<le> 1" by (rule distinct_filter_le1)
  moreover have "length (filter (\<lambda>s. pathLinkKey (fst s) (snd s) = k) (pathSteps (pp_path p))) \<le>
      length (filter (\<lambda>s. (pn_id \<circ> fst) s = keySource k) (pathSteps (pp_path p)))"
    using step_key(1) [OF assms(1,3)] by (intro length_filter_mono) auto
  ultimately show "length (filter (\<lambda>s. pathLinkKey (fst s) (snd s) = k) (pathSteps (pp_path p))) \<le> 1" by linarith
qed

lemma node_value:
  assumes "exact_paths metric paths" and "clean_paths stages paths" and "distinct stages"
    and "(i, n) \<in> set (graphNodes env metric palette paths)"
  shows "int_of (fn_value n) = (\<Sum>e \<leftarrow> filter (\<lambda>e. pn_id (fst e) = i) (nodeEvents paths). weight metric (snd e))"
    and "whole (fn_value n)"
proof -
  have "map_of (graphNodes env metric palette paths) i = Some n" using assms(4) node_keys(2) by simp
  then have "pathTotals metric (nodeVisits paths i) = Some (nodeTotals n)"
    using node_total [of metric _ paths i] unfolding graphNodes_def by (metis option.simps(9))
  then have v: "fn_value n = num_sum (map (\<lambda>e. metricValue (pp_metrics (snd e)) metric) (filter (\<lambda>e. pn_id (fst e) = i) (nodeEvents paths)))"
    by (auto simp: pathTotals_def nodeTotals_def nodeVisits_def comp_def split: if_splits)
  show "int_of (fn_value n) = (\<Sum>e \<leftarrow> filter (\<lambda>e. pn_id (fst e) = i) (nodeEvents paths). weight metric (snd e))" "whole (fn_value n)"
    unfolding v nodeEvents_def
    by (rule exact_visits [OF assms(1) visits_once(1) [OF assms(2,3)]]; assumption)+
qed

lemma link_value:
  assumes "exact_paths metric paths" and "clean_paths stages paths" and "distinct stages"
    and "(k, l) \<in> set (graphLinks env metric palette paths)"
  shows "int_of (fl_value l) = (\<Sum>e \<leftarrow> filter (\<lambda>e. eventKey e = k) (linkEvents paths). weight metric (snd e))"
    and "whole (fl_value l)"
proof -
  have "map_of (graphLinks env metric palette paths) k = Some l" using assms(4) link_keys(2) by simp
  then have "pathTotals metric (linkVisits paths k) = Some (linkTotals l)"
    using link_total [of metric _ paths k] unfolding graphLinks_def by (metis option.simps(9))
  then have v: "fl_value l = num_sum (map (\<lambda>e. metricValue (pp_metrics (snd e)) metric) (filter (\<lambda>e. eventKey e = k) (linkEvents paths)))"
    by (auto simp: pathTotals_def linkTotals_def linkVisits_def comp_def split: if_splits)
  show "int_of (fl_value l) = (\<Sum>e \<leftarrow> filter (\<lambda>e. eventKey e = k) (linkEvents paths). weight metric (snd e))" "whole (fl_value l)"
    unfolding v linkEvents_def eventKey_def
    by (rule exact_visits [OF assms(1) visits_once(2) [OF assms(2,3)]]; assumption)+
qed

section \<open>Conservation\<close>

lemma view_sum:
  fixes h :: "'a \<Rightarrow> int"
  assumes "mset (map g xs) = mset (map g' ys)"
  shows "(\<Sum>x \<leftarrow> xs. h (g x)) = (\<Sum>y \<leftarrow> ys. h (g' y))"
proof -
  have "(\<Sum>x \<leftarrow> map g xs. h x) = (\<Sum>y \<leftarrow> map g' ys. h y)"
    using arg_cong [OF assms, of "\<lambda>m. \<Sum>x \<in># m. h x"] by (simp add: multiset.map_comp flip: sum_mset_sum_list)
  then show ?thesis by (simp add: comp_def)
qed

lemma sum_filter_if: "(\<Sum>x \<leftarrow> filter P xs. f x) = (\<Sum>x \<leftarrow> xs. if P x then f x else (0 :: int))"
  by (induction xs) auto

text \<open>Sums over the links of the finished graph, by what their key says about the ends.\<close>

lemma links_sum:
  assumes "exact_paths metric paths" and "clean_paths stages paths" and "distinct stages"
  shows "(\<Sum>l \<leftarrow> filter (\<lambda>l. R (fl_source l) (fl_target l)) (fg_links (graphOfPaths env metric palette stages options paths)). int_of (fl_value l)) =
    (\<Sum>e \<leftarrow> filter (\<lambda>e. R (pn_id (fst (fst e))) (pn_id (snd (fst e)))) (linkEvents paths). weight metric (snd e))"
proof -
  let ?g = "graphOfPaths env metric palette stages options paths" and ?ls = "graphLinks env metric palette paths"
  let ?R = "\<lambda>k. R (keySource k) (keyTarget k)"
  have ends: "keySource (eventKey e) = pn_id (fst (fst e))" "keyTarget (eventKey e) = pn_id (snd (fst e))"
    if "e \<in> set (linkEvents paths)" for e
    using that step_key [OF assms(2)] by (auto simp: linkEvents_def eventKey_def)
  have key: "R (fl_source l) (fl_target l) \<longleftrightarrow> ?R k" if kl: "(k, l) \<in> set ?ls" for k l
  proof -
    obtain e where "e \<in> set (linkEvents paths)" "eventKey e = k" "fl_source l = pn_id (fst (fst e))" "fl_target l = pn_id (snd (fst e))"
      using kl unfolding graphLinks_def by (blast elim: stored_link_event)
    with ends [of e] show ?thesis by simp
  qed
  have "(\<Sum>l \<leftarrow> fg_links ?g. if R (fl_source l) (fl_target l) then int_of (fl_value l) else 0) =
      (\<Sum>kl \<leftarrow> ?ls. if R (fl_source (snd kl)) (fl_target (snd kl)) then int_of (fl_value (snd kl)) else 0)"
    using view_sum [OF graph_links, of "\<lambda>l. (fl_source l, fl_target l, fl_value l)" "\<lambda>(s, t, v). if R s t then int_of v else 0"]
    by (simp add: comp_def)
  also have "\<dots> = (\<Sum>(k, l) \<leftarrow> ?ls. if ?R k then int_of (fl_value l) else 0)"
    using key by (intro arg_cong [where f = sum_list] map_cong) auto
  also have "\<dots> = (\<Sum>(k, l) \<leftarrow> filter (\<lambda>(k, l). ?R k) ?ls. int_of (fl_value l))"
    by (simp add: sum_filter_if case_prod_unfold)
  also have "\<dots> = (\<Sum>e \<leftarrow> filter (\<lambda>e. ?R (eventKey e)) (linkEvents paths). weight metric (snd e))"
  proof (rule sum_grouped)
    show "\<forall>e \<in> set (linkEvents paths). eventKey e \<in> set (map fst ?ls)"
      unfolding graphLinks_def path_links_fold lt.keys_total by blast
  qed (use link_keys(2) link_value(1) [OF assms] in auto)
  also have "filter (\<lambda>e. ?R (eventKey e)) (linkEvents paths) =
      filter (\<lambda>e. R (pn_id (fst (fst e))) (pn_id (snd (fst e)))) (linkEvents paths)"
    by (rule filter_cong) (simp_all add: ends)
  finally show ?thesis by (simp add: sum_filter_if)
qed

lemma nodes_sum:
  assumes "exact_paths metric paths" and "clean_paths stages paths" and "distinct stages"
  shows "(\<Sum>n \<leftarrow> filter (\<lambda>n. fn_kind n = k) (fg_nodes (graphOfPaths env metric palette stages options paths)). int_of (fn_value n)) =
    (\<Sum>e \<leftarrow> filter (\<lambda>e. pn_kind (fst e) = k) (nodeEvents paths). weight metric (snd e))"
proof -
  let ?g = "graphOfPaths env metric palette stages options paths" and ?ns = "graphNodes env metric palette paths"
  define P where "P i \<longleftrightarrow> (\<exists>name. i = kindName k @ 58 # name)" for i
  have event: "P (pn_id (fst e)) \<longleftrightarrow> pn_kind (fst e) = k" if "e \<in> set (nodeEvents paths)" for e
  proof -
    have "kinded (fst e)" using that assms(2) by (auto simp: nodeEvents_def clean_paths_def path_ok_def list_all_iff)
    then show ?thesis unfolding kinded_def P_def using kind_of_id by metis
  qed
  have key: "fn_kind n = k \<longleftrightarrow> P i" if ni: "(i, n) \<in> set ?ns" for i n
  proof -
    obtain e where "e \<in> set (nodeEvents paths)" "pn_id (fst e) = i" "fn_kind n = pn_kind (fst e)"
      using ni unfolding graphNodes_def by (blast elim: stored_node_event)
    with event [of e] show ?thesis by simp
  qed
  have "(\<Sum>n \<leftarrow> fg_nodes ?g. if fn_kind n = k then int_of (fn_value n) else 0) =
      (\<Sum>kn \<leftarrow> ?ns. if fn_kind (snd kn) = k then int_of (fn_value (snd kn)) else 0)"
    using view_sum [OF graph_nodes, of "\<lambda>n. (fn_id n, fn_kind n, fn_value n)" "\<lambda>(_, k', v). if k' = k then int_of v else 0"]
    by (simp add: comp_def)
  also have "\<dots> = (\<Sum>(i, n) \<leftarrow> ?ns. if P i then int_of (fn_value n) else 0)"
  proof (intro arg_cong [where f = sum_list] map_cong refl)
    fix x assume "x \<in> set ?ns"
    with key [of "fst x" "snd x"]
    show "(if fn_kind (snd x) = k then int_of (fn_value (snd x)) else 0) = (case x of (i, n) \<Rightarrow> if P i then int_of (fn_value n) else 0)"
      by (simp add: case_prod_unfold)
  qed
  also have "\<dots> = (\<Sum>(i, n) \<leftarrow> filter (\<lambda>(i, n). P i) ?ns. int_of (fn_value n))"
    by (simp add: sum_filter_if case_prod_unfold)
  also have "\<dots> = (\<Sum>e \<leftarrow> filter (\<lambda>e. P (pn_id (fst e))) (nodeEvents paths). weight metric (snd e))"
  proof (rule sum_grouped)
    show "\<forall>e \<in> set (nodeEvents paths). pn_id (fst e) \<in> set (map fst ?ns)"
      unfolding graphNodes_def path_nodes_fold nt.keys_total by blast
  qed (use node_keys(2) node_value(1) [OF assms] in auto)
  also have "filter (\<lambda>e. P (pn_id (fst e))) (nodeEvents paths) = filter (\<lambda>e. pn_kind (fst e) = k) (nodeEvents paths)"
    by (rule filter_cong) (simp_all add: event)
  finally show ?thesis by (simp add: sum_filter_if)
qed

lemma events_same_sum:
  assumes "\<And>p. p \<in> set paths \<Longrightarrow> length (filter Q (ev p)) = length (filter Q' (ev' p))"
  shows "(\<Sum>e \<leftarrow> filter (\<lambda>e. Q (fst e)) (concat (map (\<lambda>p. map (\<lambda>x. (x, p)) (ev p)) paths)). weight metric (snd e)) =
    (\<Sum>e \<leftarrow> filter (\<lambda>e. Q' (fst e)) (concat (map (\<lambda>p. map (\<lambda>x. (x, p)) (ev' p)) paths)). weight metric (snd e))"
  unfolding events_sum using assms by (intro arg_cong [where f = sum_list] map_cong) auto

lemma filter_ends:
  assumes "xs \<noteq> []"
  shows "\<not> P (last xs) \<Longrightarrow> filter P (butlast xs) = filter P xs" "\<not> P (hd xs) \<Longrightarrow> filter P (tl xs) = filter P xs"
proof -
  show "filter P (butlast xs) = filter P xs" if "\<not> P (last xs)"
    using assms that append_butlast_last_id [OF assms] by (metis filter.simps append_Nil2 filter_append)
  show "filter P (tl xs) = filter P xs" if "\<not> P (hd xs)" using assms that by (cases xs) auto
qed

lemma steps_count:
  "length (filter (\<lambda>s. P (fst s)) (pathSteps path)) = length (filter P (butlast path))"
  "length (filter (\<lambda>s. P (snd s)) (pathSteps path)) = length (filter P (tl path))"
  by (simp_all flip: steps_ends add: filter_map comp_def)

lemma path_ends:
  assumes "clean_paths stages paths" and "p \<in> set paths" and "stages \<noteq> []"
  shows "pp_path p \<noteq> []" "pn_kind (last (pp_path p)) = last stages" "pn_kind (hd (pp_path p)) = hd stages"
proof -
  have k: "map pn_kind (pp_path p) = stages" using assms(1,2) by (simp add: clean_paths_def path_ok_def list_all_iff)
  then show ne: "pp_path p \<noteq> []" using assms(3) by auto
  show "pn_kind (last (pp_path p)) = last stages" "pn_kind (hd (pp_path p)) = hd stages"
    using ne by (simp_all flip: k add: last_map hd_map)
qed

lemma conserved_at:
  assumes "exact_paths metric paths" and "clean_paths stages paths" and "distinct stages" and "stages \<noteq> []"
    and "n \<in> set (fg_nodes (graphOfPaths env metric palette stages options paths))"
  defines "g \<equiv> graphOfPaths env metric palette stages options paths"
  shows "fn_kind n \<noteq> last stages \<Longrightarrow> (\<Sum>l \<leftarrow> filter (\<lambda>l. fl_source l = fn_id n) (fg_links g). int_of (fl_value l)) = int_of (fn_value n)"
    and "fn_kind n \<noteq> hd stages \<Longrightarrow> (\<Sum>l \<leftarrow> filter (\<lambda>l. fl_target l = fn_id n) (fg_links g). int_of (fl_value l)) = int_of (fn_value n)"
    and "whole (fn_value n)"
proof -
  have "(fn_id n, fn_kind n, fn_value n) \<in> set (map (\<lambda>n. (fn_id n, fn_kind n, fn_value n)) (fg_nodes g))"
    using assms(5) by (auto simp: g_def)
  also have "\<dots> = set (map ((\<lambda>n. (fn_id n, fn_kind n, fn_value n)) \<circ> snd) (graphNodes env metric palette paths))"
    unfolding g_def by (rule mset_eq_setD, rule graph_nodes) simp
  finally obtain i m where m: "(i, m) \<in> set (graphNodes env metric palette paths)" "fn_id m = fn_id n" "fn_kind m = fn_kind n" "fn_value m = fn_value n"
    by auto
  obtain e where e: "e \<in> set (nodeEvents paths)" "fn_id m = i" "pn_id (fst e) = i" "fn_kind m = pn_kind (fst e)"
    using m(1) unfolding graphNodes_def by (blast elim: stored_node_event)
  have kinded: "kinded x" if "p \<in> set paths" "x \<in> set (pp_path p)" for p x
    using that assms(2) by (auto simp: clean_paths_def path_ok_def list_all_iff)
  have kind: "pn_kind x = fn_kind n" if "p \<in> set paths" "x \<in> set (pp_path p)" "pn_id x = fn_id n" for p x
  proof -
    have "kinded (fst e)" using e(1) kinded by (auto simp: nodeEvents_def)
    then show ?thesis using kinded_same [OF kinded [OF that(1,2)]] that(3) e m by metis
  qed
  have value_events: "int_of (fn_value n) = (\<Sum>e \<leftarrow> filter (\<lambda>e. pn_id (fst e) = fn_id n) (nodeEvents paths). weight metric (snd e))"
    and "whole (fn_value n)"
    using node_value [OF assms(1-3) m(1)] m e(2) by simp_all
  then show "whole (fn_value n)" by simp
  note ends = path_ends [OF assms(2) _ assms(4)]
  show "(\<Sum>l \<leftarrow> filter (\<lambda>l. fl_source l = fn_id n) (fg_links g). int_of (fl_value l)) = int_of (fn_value n)"
    if "fn_kind n \<noteq> last stages"
  proof -
    have "length (filter (\<lambda>s. pn_id (fst s) = fn_id n) (pathSteps (pp_path p))) = length (filter (\<lambda>x. pn_id x = fn_id n) (pp_path p))"
      if p: "p \<in> set paths" for p
    proof -
      have "pn_id (last (pp_path p)) \<noteq> fn_id n" using kind [OF p, of "last (pp_path p)"] ends [OF p] \<open>fn_kind n \<noteq> last stages\<close> by auto
      then show ?thesis
        using filter_ends(1) [OF ends(1) [OF p], of "\<lambda>x. pn_id x = fn_id n"] steps_count(1) [of "\<lambda>x. pn_id x = fn_id n" "pp_path p"]
        by simp
    qed
    from events_same_sum [OF this]
    show ?thesis
      using links_sum [OF assms(1-3), where R = "\<lambda>s t. s = fn_id n"] by (simp add: g_def value_events nodeEvents_def linkEvents_def)
  qed
  show "(\<Sum>l \<leftarrow> filter (\<lambda>l. fl_target l = fn_id n) (fg_links g). int_of (fl_value l)) = int_of (fn_value n)"
    if "fn_kind n \<noteq> hd stages"
  proof -
    have "length (filter (\<lambda>s. pn_id (snd s) = fn_id n) (pathSteps (pp_path p))) = length (filter (\<lambda>x. pn_id x = fn_id n) (pp_path p))"
      if p: "p \<in> set paths" for p
    proof -
      have "pn_id (hd (pp_path p)) \<noteq> fn_id n" using kind [OF p, of "hd (pp_path p)"] ends [OF p] \<open>fn_kind n \<noteq> hd stages\<close> by auto
      then show ?thesis
        using filter_ends(2) [OF ends(1) [OF p], of "\<lambda>x. pn_id x = fn_id n"] steps_count(2) [of "\<lambda>x. pn_id x = fn_id n" "pp_path p"]
        by simp
    qed
    from events_same_sum [OF this]
    show ?thesis
      using links_sum [OF assms(1-3), where R = "\<lambda>s t. t = fn_id n"] by (simp add: g_def value_events nodeEvents_def linkEvents_def)
  qed
qed

section \<open>From rows to paths\<close>

definition exact_rows :: "flow_metric \<Rightarrow> flow_row list \<Rightarrow> bool" where
  "exact_rows metric rows \<longleftrightarrow>
     list_all (\<lambda>row. whole (metricValue (rowMetrics row) metric)) rows \<and>
     (\<Sum>row \<leftarrow> rows. int_of (metricValue (rowMetrics row) metric)) < 2 ^ 53"

definition clean_rows :: "flow_kind list \<Rightarrow> token_labeler \<Rightarrow> flow_row list \<Rightarrow> bool" where
  "clean_rows stages ctx rows \<longleftrightarrow> list_all (\<lambda>row. list_all (\<lambda>n. 0 \<notin> set (pn_id n)) (flowPathForStages row stages ctx)) rows"

lemma prepare_Cons:
  "preparePaths (row # rows) stages sets mode labeler ctx =
    (case applyTopNodeLimit (flowPathForStages row stages ctx) sets mode labeler of
       None \<Rightarrow> preparePaths rows stages sets mode labeler ctx
     | Some path \<Rightarrow> \<lparr>pp_path = path, pp_metrics = rowMetrics row\<rparr> # preparePaths rows stages sets mode labeler ctx)"
  by (simp add: preparePaths_def List.map_filter_def split: option.split)

lemma prepare_Nil [simp]: "preparePaths [] stages sets mode labeler ctx = []"
  by (simp add: preparePaths_def List.map_filter_def)

lemma prepared_exact:
  assumes "exact_rows metric rows"
  shows "exact_paths metric (preparePaths rows stages sets mode labeler ctx)"
proof -
  have "list_all (\<lambda>p. whole (metricValue (pp_metrics p) metric)) (preparePaths rows stages sets mode labeler ctx) \<and>
      (\<Sum>p \<leftarrow> preparePaths rows stages sets mode labeler ctx. weight metric p) \<le> (\<Sum>row \<leftarrow> rows. int_of (metricValue (rowMetrics row) metric))"
    if "list_all (\<lambda>row. whole (metricValue (rowMetrics row) metric)) rows"
    using that
  proof (induction rows)
    case (Cons row rows)
    have "0 \<le> int_of (metricValue (rowMetrics row) metric)" using Cons.prems whole_Fin by simp
    with Cons show ?case by (auto simp: prepare_Cons weight_def split: option.split)
  qed simp
  with assms show ?thesis by (auto simp: exact_rows_def exact_paths_def)
qed

lemma prepared_clean:
  assumes "clean_rows stages ctx rows"
  shows "clean_paths stages (preparePaths rows stages sets mode labeler ctx)"
proof -
  have other: "0 \<notin> set (pn_id (otherFlowNode k labeler))" for k
    by (cases k; simp add: otherFlowNode_def OTHER_FLOW_NODE_IDS_def js_eval)
  have "list_all (\<lambda>n. 0 \<notin> set (pn_id n)) (pp_path p)" if p: "p \<in> set (preparePaths rows stages sets mode labeler ctx)" for p
    using p assms other by (auto simp: preparePaths_def List.map_filter_def clean_rows_def list_all_iff applyTopNodeLimit_def split: if_splits)
  then show ?thesis using prepared_ok by (simp add: clean_paths_def list_all_iff)
qed

lemma prepared_all:
  "sets = None \<or> mode = Aggregate \<Longrightarrow> map pp_metrics (preparePaths rows stages sets mode labeler ctx) = map rowMetrics rows"
  by (induction rows) (auto simp: prepare_Cons applyTopNodeLimit_def)

lemma stage_total:
  assumes "exact_paths metric paths" and "clean_paths stages paths" and "distinct stages" and "k \<in> set stages"
  shows "(\<Sum>n \<leftarrow> filter (\<lambda>n. fn_kind n = k) (fg_nodes (graphOfPaths env metric palette stages options paths)). int_of (fn_value n)) =
    (\<Sum>p \<leftarrow> paths. weight metric p)"
proof -
  have "length (filter (\<lambda>n. pn_kind n = k) (pp_path p)) = 1" if "p \<in> set paths" for p
  proof -
    have "map pn_kind (pp_path p) = stages" using that assms(2) by (simp add: clean_paths_def path_ok_def list_all_iff)
    moreover have "length (filter (\<lambda>x. x = k) stages) = 1"
      using assms(3,4) by (simp add: distinct_length_filter Int_absorb1)
    moreover have "length (filter (\<lambda>x. x = k) (map pn_kind (pp_path p))) = length (filter (\<lambda>n. pn_kind n = k) (pp_path p))"
      by (simp add: filter_map comp_def)
    ultimately show ?thesis by simp
  qed
  then have "(\<Sum>p \<leftarrow> paths. int (length (filter (\<lambda>n. pn_kind n = k) (pp_path p))) * weight metric p) = (\<Sum>p \<leftarrow> paths. weight metric p)"
    by (intro arg_cong [where f = sum_list] map_cong) auto
  then show ?thesis
    unfolding nodes_sum [OF assms(1-3)] nodeEvents_def by (simp only: events_sum [where Q = "\<lambda>n. pn_kind n = k" and ev = pp_path])
qed

lemma summary_metric: "metricValue (buildSummary rows) metric = num_sum (map (\<lambda>row. metricValue (rowMetrics row) metric) rows)"
proof -
  have "metricValue (foldl (\<lambda>s row. addMetrics s (rowMetrics row)) m rows) metric =
      foldl num_add (metricValue m metric) (map (\<lambda>row. metricValue (rowMetrics row) metric) rows)" for m
    by (induction rows arbitrary: m) (cases metric; simp add: addMetrics_def)+
  then show ?thesis by (cases metric) (simp_all add: buildSummary_def num_sum_def noMetrics_def)
qed

definition sample_row :: flow_row where
  "sample_row =
     \<lparr>user_id = Some (Fin 7), username = Some (lit ''ada''), node_name = None, use_group = Some (lit ''vip''), token_id = None,
      token_name = Some (lit ''ci''), channel_id = None, channel_name = None, model_name = Some (lit ''m''),
      uncached_input_tokens = Some (Fin 3), uncached_output_tokens = None, cache_read_tokens = None, cache_write_tokens = None,
      row_count = Some (Fin 1), row_quota = Some (Fin 5)\<rparr>"

definition plain_env :: flow_env where
  "plain_env = \<lparr>dataScheme = [], localeCompare = (\<lambda>_ _. 0), formatNumber = (\<lambda>_. [])\<rparr>"

definition plain_options :: flow_options where
  "plain_options =
     \<lparr>fo_role = None, fo_selectedUsers = None, fo_selectedNodes = None, fo_activeNode = None, fo_activeLink = None,
      fo_colorPalette = None, fo_visibleStages = None, fo_topNodeLimit = Some (Fin 1), fo_overflowMode = None,
      fo_maskSensitive = False, fo_deletedTokenLabel = None, fo_otherNodeLabel = None\<rparr>"

lemma sample_stages: "resolveVisibleStages UserR None = [TokenK, GroupK, ModelK]"
  by (simp add: resolveVisibleStages_def)

lemma sample_exact: "exact_rows QuotaM [sample_row, sample_row]"
  by (simp add: exact_rows_def rowMetrics_def sample_row_def numberValue_def whole_def int_of_def)

lemma sample_total:
  "(\<Sum>p \<leftarrow> graphPaths plain_env [sample_row, sample_row] QuotaM (resolveVisibleStages UserR None) None plain_options. weight QuotaM p) = 10"
proof -
  have "map pp_metrics (graphPaths plain_env [sample_row, sample_row] QuotaM (resolveVisibleStages UserR None) None plain_options) =
      map rowMetrics [sample_row, sample_row]"
    unfolding graphPaths_def by (rule prepared_all) (simp add: plain_options_def)
  then show ?thesis
    by (auto simp: weight_def rowMetrics_def sample_row_def numberValue_def int_of_def map_eq_Cons_conv)
qed

lemma sample_clean: "clean_rows (resolveVisibleStages UserR None) None [sample_row, sample_row]"
  by code_simp

text \<open>C36. Nothing is lost between the stages: with whole numbers and a total below \<open>2\<^sup>53\<close>, a node that is not in the
  last column sends out exactly its value and one that is not in the first column receives exactly its value,
  whichever nodes are merged, hidden or masked.\<close>

theorem flow_conserved:
  assumes "exact_rows metric rows" and "clean_rows (resolveVisibleStages r visible) ctx rows"
    and "n \<in> set (fg_nodes (buildFlowGraph env rows metric r palette visible ctx options))"
  shows "(fn_kind n \<noteq> last (resolveVisibleStages r visible) \<longrightarrow>
      (\<Sum>l \<leftarrow> filter (\<lambda>l. fl_source l = fn_id n) (fg_links (buildFlowGraph env rows metric r palette visible ctx options)). int_of (fl_value l)) = int_of (fn_value n)) \<and>
    (fn_kind n \<noteq> hd (resolveVisibleStages r visible) \<longrightarrow>
      (\<Sum>l \<leftarrow> filter (\<lambda>l. fl_target l = fn_id n) (fg_links (buildFlowGraph env rows metric r palette visible ctx options)). int_of (fl_value l)) = int_of (fn_value n)) \<and>
    whole (fn_value n)"
proof -
  let ?stages = "resolveVisibleStages r visible"
  have "?stages \<noteq> []" using visible_stages(2) [of r visible] by auto
  note at_node = conserved_at [OF prepared_exact [OF assms(1)] prepared_clean [OF assms(2)] visible_stages(1) this
      assms(3) [unfolded buildFlowGraph_def Let_def graphPaths_def]]
  show ?thesis unfolding buildFlowGraph_def Let_def graphPaths_def by (intro conjI impI at_node)
qed

theorem flow_conserved_witness:
  "\<exists>n. fn_kind n = GroupK \<and>
    n \<in> set (fg_nodes (buildFlowGraph plain_env [sample_row, sample_row] QuotaM UserR None None None plain_options)) \<and>
    (\<Sum>l \<leftarrow> filter (\<lambda>l. fl_source l = fn_id n)
      (fg_links (buildFlowGraph plain_env [sample_row, sample_row] QuotaM UserR None None None plain_options)). int_of (fl_value l)) = int_of (fn_value n)"
proof -
  let ?g = "buildFlowGraph plain_env [sample_row, sample_row] QuotaM UserR None None None plain_options"
  let ?paths = "graphPaths plain_env [sample_row, sample_row] QuotaM (resolveVisibleStages UserR None) None plain_options"
  have "(\<Sum>p \<leftarrow> ?paths. weight QuotaM p) = 10" by (rule sample_total)
  moreover have "(\<Sum>n \<leftarrow> filter (\<lambda>n. fn_kind n = GroupK) (fg_nodes ?g). int_of (fn_value n)) = (\<Sum>p \<leftarrow> ?paths. weight QuotaM p)"
    unfolding buildFlowGraph_def Let_def graphPaths_def
    by (intro stage_total prepared_exact prepared_clean visible_stages sample_exact sample_clean) (simp add: sample_stages)
  ultimately have "filter (\<lambda>n. fn_kind n = GroupK) (fg_nodes ?g) \<noteq> []" by auto
  then obtain n where n: "n \<in> set (fg_nodes ?g)" "fn_kind n = GroupK" by (auto simp: filter_empty_conv)
  with flow_conserved [OF sample_exact sample_clean n(1)] show ?thesis by (auto simp: sample_stages)
qed

text \<open>C37. Every column carries the whole flow: unless paths are hidden, the values of the nodes of each visible
  stage add up to the metric of the summary above the chart.\<close>

theorem columns_sum_to_summary:
  assumes "exact_rows metric rows" and "clean_rows (resolveVisibleStages r visible) ctx rows"
    and "fo_overflowMode options \<noteq> Some Hide" and "k \<in> set (resolveVisibleStages r visible)"
  shows "metricValue (buildSummary rows) metric =
    Fin (of_int (\<Sum>n \<leftarrow> filter (\<lambda>n. fn_kind n = k) (fg_nodes (buildFlowGraph env rows metric r palette visible ctx options)). int_of (fn_value n)))"
proof -
  let ?stages = "resolveVisibleStages r visible"
  let ?paths = "graphPaths env rows metric ?stages ctx options"
  have mode: "(case fo_overflowMode options of Some m \<Rightarrow> m | None \<Rightarrow> Aggregate) = Aggregate"
    using assms(3) by (cases "fo_overflowMode options") (auto intro: flow_overflow.exhaust)
  have "map pp_metrics ?paths = map rowMetrics rows" unfolding graphPaths_def mode by (intro prepared_all) simp
  then have "(\<Sum>m \<leftarrow> map pp_metrics ?paths. int_of (metricValue m metric)) = (\<Sum>m \<leftarrow> map rowMetrics rows. int_of (metricValue m metric))"
    by simp
  then have "(\<Sum>p \<leftarrow> ?paths. weight metric p) = (\<Sum>row \<leftarrow> rows. int_of (metricValue (rowMetrics row) metric))"
    by (simp add: weight_def comp_def)
  moreover have "(\<Sum>n \<leftarrow> filter (\<lambda>n. fn_kind n = k) (fg_nodes (buildFlowGraph env rows metric r palette visible ctx options)). int_of (fn_value n)) =
      (\<Sum>p \<leftarrow> ?paths. weight metric p)"
    unfolding buildFlowGraph_def Let_def graphPaths_def
    by (intro stage_total prepared_exact prepared_clean visible_stages assms)
  moreover have "metricValue (buildSummary rows) metric = Fin (of_int (\<Sum>row \<leftarrow> rows. int_of (metricValue (rowMetrics row) metric)))"
    using assms(1) exact_sum [of "map (\<lambda>row. metricValue (rowMetrics row) metric) rows"]
    by (simp add: summary_metric exact_rows_def list_all_iff comp_def)
  ultimately show ?thesis by simp
qed

theorem columns_sum_to_summary_witness:
  "metricValue (buildSummary [sample_row, sample_row]) QuotaM =
    Fin (of_int (\<Sum>n \<leftarrow> filter (\<lambda>n. fn_kind n = ModelK)
      (fg_nodes (buildFlowGraph plain_env [sample_row, sample_row] QuotaM UserR None None None plain_options)). int_of (fn_value n)))"
  by (rule columns_sum_to_summary [OF sample_exact sample_clean]) (simp_all add: plain_options_def sample_stages)

section \<open>Shares\<close>

lemma steps_from_root:
  assumes "clean_paths stages paths" and "distinct stages" and "2 \<le> length stages" and "p \<in> set paths"
  shows "length (filter (\<lambda>s. pn_id (fst s) \<in> set (rootIds paths)) (pathSteps (pp_path p))) = 1"
proof -
  have ok: "path_ok stages (pp_path q)" if "q \<in> set paths" for q using that assms(1) by (simp add: clean_paths_def list_all_iff)
  have "stages \<noteq> []" using assms(3) by auto
  note ends = path_ends [OF assms(1) _ this]
  have "length (pp_path p) = length stages" using ok [OF assms(4)] unfolding path_ok_def by (metis length_map)
  then obtain a b rest where p: "pp_path p = a # b # rest" using assms(3) by (cases "pp_path p" rule: pathSteps.cases) auto
  have nonempty: "x \<in> set (pp_path q) \<Longrightarrow> q \<in> set paths \<Longrightarrow> pn_id x \<noteq> []" for x q
    using ok [of q] by (auto simp: path_ok_def list_all_iff kinded_def)
  have "pn_id a \<in> set (rootIds paths)"
    using assms(4) p nonempty [of a p] by (auto simp: rootIds_def intro!: image_eqI [where x = p])
  moreover have "pn_id x \<notin> set (rootIds paths)" if x: "x \<in> set (b # rest)" for x
  proof
    assume "pn_id x \<in> set (rootIds paths)"
    then obtain q where q: "q \<in> set paths" "pn_id x = pn_id (hd (pp_path q))" by (auto simp: rootIds_def)
    have "kinded x" "kinded (hd (pp_path q))"
      using ok [OF assms(4)] ok [OF q(1)] x p ends(1) [OF q(1)] by (auto simp: path_ok_def list_all_iff)
    then have "pn_kind x = hd stages" using kinded_same q(2) ends(3) [OF q(1)] by metis
    moreover have "stages = pn_kind a # map pn_kind (b # rest)" using ok [OF assms(4)] p by (simp add: path_ok_def)
    ultimately show False using assms(2) x imageI [of x "set (b # rest)" pn_kind] by auto
  qed
  then have "filter (\<lambda>x. pn_id x \<in> set (rootIds paths)) (butlast (b # rest)) = []"
    by (auto simp: filter_empty_conv dest: in_set_butlastD)
  ultimately show ?thesis using steps_count(1) [of "\<lambda>x. pn_id x \<in> set (rootIds paths)" "pp_path p"] p by simp
qed

definition shareTotal :: "flow_metric \<Rightarrow> prepared_path list \<Rightarrow> int" where
  "shareTotal metric paths = (\<Sum>p \<leftarrow> paths. weight metric p)"

lemma graph_link_raw:
  assumes "l \<in> set (fg_links (graphOfPaths env metric palette stages options paths))"
  obtains k m where "(k, m) \<in> set (graphLinks env metric palette paths)" "fl_value m = fl_value l"
proof -
  have "(fl_source l, fl_target l, fl_value l) \<in> set (map (\<lambda>l. (fl_source l, fl_target l, fl_value l)) (fg_links (graphOfPaths env metric palette stages options paths)))"
    using assms by auto
  also have "\<dots> = set (map ((\<lambda>l. (fl_source l, fl_target l, fl_value l)) \<circ> snd) (graphLinks env metric palette paths))"
    by (rule mset_eq_setD, rule graph_links) simp
  finally show ?thesis using that by auto
qed

lemma share_total:
  assumes "exact_paths metric paths" and "clean_paths stages paths" and "distinct stages" and "2 \<le> length stages"
  shows "num_sum (map fl_value (filter (\<lambda>l. fl_source l \<in> set (rootIds paths)) (rawLinks env metric palette stages options paths))) =
    Fin (of_int (shareTotal metric paths))"
proof -
  let ?g = "graphOfPaths env metric palette stages options paths"
  let ?root = "\<lambda>l. fl_source l \<in> set (rootIds paths)"
  have value_list: "map snd (filter (\<lambda>sv. fst sv \<in> set (rootIds paths)) (map (\<lambda>l. (fl_source l, fl_value l)) xs)) = map fl_value (filter ?root xs)" for xs
    by (induction xs) auto
  have pairs: "map (\<lambda>l. (fl_source l, fl_value l)) (fg_links ?g) = map (\<lambda>l. (fl_source l, fl_value l)) (rawLinks env metric palette stages options paths)"
    by (rule graph_links_raw) simp
  have same: "map fl_value (filter ?root (rawLinks env metric palette stages options paths)) = map fl_value (filter ?root (fg_links ?g))"
    by (simp only: value_list [symmetric] pairs)
  have "(\<Sum>l \<leftarrow> filter ?root (fg_links ?g). int_of (fl_value l)) =
      (\<Sum>e \<leftarrow> filter (\<lambda>e. pn_id (fst (fst e)) \<in> set (rootIds paths)) (linkEvents paths). weight metric (snd e))"
    by (rule links_sum [OF assms(1-3), where R = "\<lambda>s t. s \<in> set (rootIds paths)"])
  also have "\<dots> = (\<Sum>p \<leftarrow> paths. int (length (filter (\<lambda>s. pn_id (fst s) \<in> set (rootIds paths)) (pathSteps (pp_path p)))) * weight metric p)"
    unfolding linkEvents_def by (rule events_sum)
  also have "\<dots> = shareTotal metric paths"
    unfolding shareTotal_def using steps_from_root [OF assms(2-4)] by (intro arg_cong [where f = sum_list] map_cong) auto
  finally have sum: "(\<Sum>l \<leftarrow> filter ?root (fg_links ?g). int_of (fl_value l)) = shareTotal metric paths" .
  have "whole (fl_value l)" if l: "l \<in> set (fg_links ?g)" for l
  proof -
    obtain k m where m: "(k, m) \<in> set (graphLinks env metric palette paths)" "fl_value m = fl_value l"
      using graph_link_raw [OF l] .
    from link_value(2) [OF assms(1-3) m(1)] m(2) show ?thesis by simp
  qed
  then have "list_all whole (map fl_value (filter ?root (fg_links ?g)))" by (simp add: list_all_iff)
  then show ?thesis
    unfolding same using exact_sum [of "map fl_value (filter ?root (fg_links ?g))"] sum assms(1)
    by (simp add: comp_def shareTotal_def exact_paths_def)
qed

lemma link_below_total:
  assumes "exact_paths metric paths" and "clean_paths stages paths" and "distinct stages"
    and "l \<in> set (fg_links (graphOfPaths env metric palette stages options paths))"
  shows "fl_value l = Fin (of_int (int_of (fl_value l)))" "0 \<le> int_of (fl_value l)" "int_of (fl_value l) \<le> shareTotal metric paths"
proof -
  obtain k m where m: "(k, m) \<in> set (graphLinks env metric palette paths)" "fl_value m = fl_value l"
    using assms(4) by (rule graph_link_raw)
  show "fl_value l = Fin (of_int (int_of (fl_value l)))" "0 \<le> int_of (fl_value l)"
    using whole_Fin link_value(2) [OF assms(1-3) m(1)] m(2) by metis+
  have "int_of (fl_value m) = (\<Sum>e \<leftarrow> filter (\<lambda>e. eventKey e = k) (linkEvents paths). weight metric (snd e))"
    by (rule link_value(1) [OF assms(1-3) m(1)])
  also have "\<dots> \<le> shareTotal metric paths"
    unfolding linkEvents_def eventKey_def shareTotal_def by (rule events_sum_le [OF assms(1) visits_once(2) [OF assms(2,3)]]; assumption)
  finally show "int_of (fl_value l) \<le> shareTotal metric paths" using m(2) by simp
qed

text \<open>The share a link shows is its value over the value of all paths in the chart, rounded, and lies between
  nothing and everything.\<close>

theorem link_shares_bounded:
  fixes env rows metric r palette visible ctx options
  defines "stages \<equiv> resolveVisibleStages r visible"
  defines "T \<equiv> shareTotal metric (graphPaths env rows metric stages ctx options)"
  assumes "exact_rows metric rows" and "clean_rows stages ctx rows"
    and "l \<in> set (fg_links (buildFlowGraph env rows metric r palette visible ctx options))"
  shows "fl_share l = (if T = 0 then Fin 0 else js_round (of_int (int_of (fl_value l)) / of_int T)) \<and>
    (\<exists>q. fl_share l = Fin q \<and> 0 \<le> q \<and> q \<le> 1)"
proof -
  let ?paths = "graphPaths env rows metric stages ctx options"
  let ?g = "graphOfPaths env metric palette stages options ?paths"
  have g: "buildFlowGraph env rows metric r palette visible ctx options = ?g" by (simp add: buildFlowGraph_def stages_def Let_def)
  have paths: "exact_paths metric ?paths" "clean_paths stages ?paths"
    unfolding graphPaths_def using prepared_exact prepared_clean assms(3,4) by blast+
  have st: "distinct stages" "2 \<le> length stages" unfolding stages_def by (rule visible_stages)+
  note l = link_below_total [OF paths st(1) assms(5) [unfolded g], folded T_def]
  have "(fl_value l, fl_share l) \<in> set (map (\<lambda>l. (fl_value l, fl_share l)) (fg_links ?g))" using assms(5) g by auto
  also have "map (\<lambda>l. (fl_value l, fl_share l)) (fg_links ?g) =
      map (\<lambda>l. (fl_value l, fl_share l)) (shareLinks (rootIds ?paths) (rawLinks env metric palette stages options ?paths))"
    by (rule graph_links_shared) (simp add: displayLink_def split_beta)
  finally have share: "fl_share l = (if num_gt0 (Fin (of_int T)) then num_div (fl_value l) (Fin (of_int T)) else Fin 0)"
    by (auto simp: shareLinks_def Let_def share_total [OF paths st] T_def)
  have "0 \<le> T" using l by linarith
  then have exact: "fl_share l = (if T = 0 then Fin 0 else js_round (of_int (int_of (fl_value l)) / of_int T))"
    using share l(1) by (metis less_le num_div.simps(1) num_gt0.simps(1) of_int_0_less_iff of_int_eq_0_iff)
  moreover have "of_int (int_of (fl_value l)) / (of_int T :: rat) \<le> 1" if "T \<noteq> 0"
    using that \<open>0 \<le> T\<close> l(3) by (simp add: divide_le_eq)
  moreover have "(0 :: rat) \<le> of_int (int_of (fl_value l)) / of_int T" using l(2) \<open>0 \<le> T\<close> by simp
  ultimately show ?thesis using js_round_unit by (cases "T = 0") auto
qed

theorem link_shares_bounded_witness:
  "\<exists>l q. l \<in> set (fg_links (buildFlowGraph plain_env [sample_row, sample_row] QuotaM UserR None None None plain_options)) \<and>
    fl_share l = Fin q \<and> 0 \<le> q \<and> q \<le> 1"
proof -
  let ?stages = "resolveVisibleStages UserR None"
  let ?paths = "graphPaths plain_env [sample_row, sample_row] QuotaM ?stages None plain_options"
  let ?g = "buildFlowGraph plain_env [sample_row, sample_row] QuotaM UserR None None None plain_options"
  have paths: "exact_paths QuotaM ?paths" "clean_paths ?stages ?paths"
    unfolding graphPaths_def using prepared_exact [OF sample_exact] prepared_clean [OF sample_clean] by blast+
  have "rawLinks plain_env QuotaM None ?stages plain_options ?paths \<noteq> []"
    using share_total [OF paths visible_stages, of plain_env None plain_options] sample_total
    by (auto simp: shareTotal_def num_sum_def)
  moreover have "map linkStableKey (fg_links ?g) = map linkStableKey (rawLinks plain_env QuotaM None ?stages plain_options ?paths)"
    unfolding buildFlowGraph_def Let_def by (rule graph_links_raw) simp
  ultimately obtain l where l: "l \<in> set (fg_links ?g)" by (cases "fg_links ?g") auto
  with link_shares_bounded [OF sample_exact sample_clean l] show ?thesis by blast
qed

end
