(* ===== verification/FlowView.thy ===== *)
theory FlowView
  imports FlowConserved
begin

text \<open>
  What the flow chart shows: the limit on the nodes of a stage, the filters and the values they offer, masked
  labels and highlighted paths.
\<close>

section \<open>The largest nodes\<close>

lemma stage_rank_keys: "map fst (addStageRank v n totals) = map fst totals"
  by (auto simp: addStageRank_def keys_update map_of_eq_None_iff split: option.split)

lemma top_set_keys:
  assumes "buildTopNodeSets env rows metric stages (Some k) ctx = Some sets"
  shows "map fst sets = stages" "\<forall>(s, ids) \<in> set sets. length ids \<le> k"
proof -
  have inner: "map fst (fold (addStageRank v) path totals) = map fst totals" for v path totals
    by (induction path arbitrary: totals) (simp_all add: stage_rank_keys)
  have "map fst (fold (\<lambda>row. fold (addStageRank (metricValue (rowMetrics row) metric)) (flowPathForStages row stages ctx)) rows totals) = map fst totals" for totals
    by (induction rows arbitrary: totals) (simp_all add: inner)
  then show "map fst sets = stages" "\<forall>(s, ids) \<in> set sets. length ids \<le> k"
    using assms by (auto simp: buildTopNodeSets_def Let_def comp_def case_prod_unfold)
qed

lemma limited_path_nodes:
  assumes "applyTopNodeLimit path (Some sets) mode labeler = Some q" and "n \<in> set q"
  shows "isTopFlowNode n (Some sets) \<or> mode = Aggregate \<and> pn_id n = OTHER_FLOW_NODE_IDS (pn_kind n)"
  using assms by (cases mode) (auto simp: applyTopNodeLimit_def list_ex_iff otherFlowNode_def split: if_splits)

lemma limited_nodes:
  assumes "buildTopNodeSets env rows metric stages (Some k) ctx = Some sets"
    and "p \<in> set (preparePaths rows stages (Some sets) mode labeler ctx)" and "n \<in> set (pp_path p)"
  shows "isTopFlowNode n (Some sets) \<or> mode = Aggregate \<and> pn_id n = OTHER_FLOW_NODE_IDS (pn_kind n)"
proof -
  obtain row where "applyTopNodeLimit (flowPathForStages row stages ctx) (Some sets) mode labeler = Some (pp_path p)"
    using assms(2) by (auto simp: preparePaths_def List.map_filter_def)
  from limited_path_nodes [OF this assms(3)] show ?thesis .
qed

lemma node_from_path:
  assumes "n \<in> set (fg_nodes (graphOfPaths env metric palette stages options paths))"
  obtains p x where "p \<in> set paths" "x \<in> set (pp_path p)" "pn_id x = fn_id n" "pn_kind x = fn_kind n"
proof -
  have "(fn_id n, fn_kind n, fn_value n) \<in> set (map (\<lambda>n. (fn_id n, fn_kind n, fn_value n)) (fg_nodes (graphOfPaths env metric palette stages options paths)))"
    using assms by auto
  also have "\<dots> = set (map ((\<lambda>n. (fn_id n, fn_kind n, fn_value n)) \<circ> snd) (graphNodes env metric palette paths))"
    by (rule mset_eq_setD, rule graph_nodes) simp
  finally obtain i m where m: "(i, m) \<in> set (graphNodes env metric palette paths)" "fn_id m = fn_id n" "fn_kind m = fn_kind n" by auto
  obtain e where "e \<in> set (nodeEvents paths)" "fn_id m = i" "pn_id (fst e) = i" "fn_kind m = pn_kind (fst e)"
    using m(1) unfolding graphNodes_def by (blast elim: stored_node_event)
  with m(2,3) that show ?thesis by (auto simp: nodeEvents_def)
qed

text \<open>C38. With a limit of \<open>k\<close> nodes a column shows at most \<open>k\<close> nodes when the paths through the others are hidden, and at
  most one more, the merged rest, when they are aggregated.\<close>

theorem top_nodes_limited:
  assumes "normalizeTopNodeLimit (fo_topNodeLimit options) = Some k" and "s \<in> set (resolveVisibleStages r visible)"
  shows "length (filter (\<lambda>n. fn_kind n = s) (fg_nodes (buildFlowGraph env rows metric r palette visible ctx options))) \<le>
    (if fo_overflowMode options = Some Hide then k else Suc k)"
proof -
  let ?stages = "resolveVisibleStages r visible"
  let ?paths = "graphPaths env rows metric ?stages ctx options"
  let ?g = "graphOfPaths env metric palette ?stages options ?paths"
  obtain sets where sets: "buildTopNodeSets env rows metric ?stages (Some k) ctx = Some sets" by (simp add: buildTopNodeSets_def Let_def)
  note keys = top_set_keys [OF sets]
  have "s \<in> set (map fst sets)" using assms(2) keys(1) by simp
  then obtain ids where ids: "map_of sets s = Some ids" by (cases "map_of sets s") (auto simp: map_of_eq_None_iff)
  then have len: "length ids \<le> k" using keys(2) by (auto dest: map_of_SomeD)
  define mode where "mode = (case fo_overflowMode options of Some m \<Rightarrow> m | None \<Rightarrow> Aggregate)"
  define S where "S = set ids \<union> (if mode = Aggregate then {OTHER_FLOW_NODE_IDS s} else {})"
  have "fn_id n \<in> S" if n: "n \<in> set (fg_nodes ?g)" "fn_kind n = s" for n
  proof -
    obtain p x where x: "p \<in> set ?paths" "x \<in> set (pp_path p)" "pn_id x = fn_id n" "pn_kind x = s"
      using node_from_path [OF n(1)] n(2) by blast
    have "isTopFlowNode x (Some sets) \<or> mode = Aggregate \<and> pn_id x = OTHER_FLOW_NODE_IDS (pn_kind x)"
      using limited_nodes [OF sets] x(1,2) by (simp add: graphPaths_def assms(1) sets mode_def)
    then show ?thesis using x(3,4) ids by (auto simp: S_def isTopFlowNode_def)
  qed
  then have sub: "set (map fn_id (filter (\<lambda>n. fn_kind n = s) (fg_nodes ?g))) \<subseteq> S" by auto
  have "distinct (map fn_id (filter (\<lambda>n. fn_kind n = s) (fg_nodes ?g)))"
    using node_map_raw(2) [of env metric palette ?stages options ?paths] by (rule distinct_map_filter)
  from distinct_card [OF this] have "length (filter (\<lambda>n. fn_kind n = s) (fg_nodes ?g)) = card (set (map fn_id (filter (\<lambda>n. fn_kind n = s) (fg_nodes ?g))))"
    by (simp only: length_map)
  also have "\<dots> \<le> card S" using sub by (intro card_mono) (simp_all add: S_def)
  also have "\<dots> \<le> length ids + (if mode = Aggregate then 1 else 0)"
    unfolding S_def by (rule order_trans [OF card_Un_le]) (simp add: card_length)
  finally have "length (filter (\<lambda>n. fn_kind n = s) (fg_nodes ?g)) \<le> k + (if mode = Aggregate then 1 else 0)" using len by linarith
  moreover have "mode = Aggregate \<longleftrightarrow> fo_overflowMode options \<noteq> Some Hide"
    using flow_overflow.exhaust by (auto simp: mode_def split: option.split)
  ultimately show ?thesis unfolding buildFlowGraph_def Let_def by (simp split: if_splits)
qed

theorem top_nodes_limited_witness:
  "length (filter (\<lambda>n. fn_kind n = GroupK) (fg_nodes (buildFlowGraph plain_env [sample_row, sample_row] QuotaM UserR None None None plain_options))) \<le> 2"
proof -
  have "normalizeTopNodeLimit (fo_topNodeLimit plain_options) = Some 1" by (simp add: normalizeTopNodeLimit_def plain_options_def)
  moreover have "GroupK \<in> set (resolveVisibleStages UserR None)" by (simp add: sample_stages)
  ultimately show ?thesis
    using top_nodes_limited [of plain_options 1 GroupK UserR None plain_env "[sample_row, sample_row]" QuotaM None None]
    by (simp add: plain_options_def)
qed

section \<open>Filters\<close>

definition chosen :: "node_filter list option \<Rightarrow> node_filter list" where
  "chosen selectedNodes = (case selectedNodes of None \<Rightarrow> [] | Some fs \<Rightarrow> fs)"

text \<open>The meaning of a selection: for every visible stage something was selected for, the row's node is among it.\<close>

definition selectedBy :: "flow_kind list \<Rightarrow> token_labeler \<Rightarrow> node_filter list \<Rightarrow> flow_row \<Rightarrow> bool" where
  "selectedBy stages ctx fs row \<longleftrightarrow>
     list_all (\<lambda>kind. list_ex (\<lambda>f. fst f = kind) fs \<longrightarrow> (kind, pn_id (NODE_BUILDERS kind row ctx)) \<in> set fs) stages"

interpretation ft: tally fst "\<lambda>_. []" "\<lambda>f :: node_filter. addToSet (snd f)" "\<lambda>f. bumpAt (fst f) [] (addToSet (snd f))"
  by (rule bumpAt_tally)

interpretation pt: tally pn_kind "\<lambda>_. []" "\<lambda>n :: path_node. addToSet (pn_id n)" "\<lambda>n. bumpAt (pn_kind n) [] (addToSet (pn_id n))"
  by (rule bumpAt_tally)

lemma set_addToSets: "set (fold (\<lambda>e. addToSet (f e)) es v) = set v \<union> f ` set es"
  by (induction es arbitrary: v) (auto simp: addToSet_def)

lemma selected_filters:
  "normalizeSelectedNodeFilters sel stages =
    fold (\<lambda>f. bumpAt (fst f) [] (addToSet (snd f))) (filter (\<lambda>f. fst f \<in> set stages) (chosen sel)) []"
proof -
  have "fold (\<lambda>(kind, i) filters. if kind \<notin> set stages then filters else bumpAt kind [] (addToSet i) filters) fs m =
      fold (\<lambda>f. bumpAt (fst f) [] (addToSet (snd f))) (filter (\<lambda>f. fst f \<in> set stages) fs) m" for fs m
    by (induction fs arbitrary: m) auto
  then show ?thesis by (simp add: normalizeSelectedNodeFilters_def chosen_def)
qed

lemma filter_lookup:
  assumes "map_of (normalizeSelectedNodeFilters sel stages) kind = Some ids"
  shows "kind \<in> set stages" "set ids = {i. (kind, i) \<in> set (chosen sel)}" "set ids \<noteq> {}"
proof -
  let ?fs = "filter (\<lambda>f. fst f = kind) (filter (\<lambda>f. fst f \<in> set stages) (chosen sel))"
  have found: "?fs \<noteq> []" and ids: "ids = fold (\<lambda>f. addToSet (snd f)) ?fs []"
    using assms unfolding selected_filters ft.lookup_Some by simp_all
  show kind: "kind \<in> set stages" using found by (auto simp: filter_empty_conv)
  then have "set ?fs = {f \<in> set (chosen sel). fst f = kind}" by auto
  moreover have "snd ` {f \<in> set (chosen sel). fst f = kind} = {i. (kind, i) \<in> set (chosen sel)}" by force
  ultimately show "set ids = {i. (kind, i) \<in> set (chosen sel)}" unfolding ids set_addToSets by simp
  show "set ids \<noteq> {}"
    using found unfolding ids set_addToSets by (simp only: list.set Un_empty_left image_is_empty set_empty not_False_eq_True)
qed

lemma filter_present:
  assumes "kind \<in> set stages" and "(kind, i) \<in> set (chosen sel)"
  obtains ids where "map_of (normalizeSelectedNodeFilters sel stages) kind = Some ids"
proof -
  have "filter (\<lambda>f. fst f = kind) (filter (\<lambda>f. fst f \<in> set stages) (chosen sel)) \<noteq> []"
    using assms by (force simp: filter_empty_conv)
  then show ?thesis using that unfolding selected_filters ft.lookup_Some by blast
qed

lemma path_lookup:
  fixes path :: "path_node list"
  shows "map_of (fold (\<lambda>n. bumpAt (pn_kind n) [] (addToSet (pn_id n))) path []) kind = None \<longleftrightarrow> (\<forall>n \<in> set path. pn_kind n \<noteq> kind)"
  "map_of (fold (\<lambda>n. bumpAt (pn_kind n) [] (addToSet (pn_id n))) path []) kind = Some ids \<Longrightarrow>
    set ids = pn_id ` {n \<in> set path. pn_kind n = kind}"
proof -
  show "map_of (fold (\<lambda>n. bumpAt (pn_kind n) [] (addToSet (pn_id n))) path []) kind = None \<longleftrightarrow> (\<forall>n \<in> set path. pn_kind n \<noteq> kind)"
    unfolding pt.lookup_total pt.total_def by (auto simp: filter_empty_conv split: list.split dest!: filter_ConsD)
  assume "map_of (fold (\<lambda>n. bumpAt (pn_kind n) [] (addToSet (pn_id n))) path []) kind = Some ids"
  then show "set ids = pn_id ` {n \<in> set path. pn_kind n = kind}" unfolding pt.lookup_Some by (auto simp: set_addToSets)
qed

lemma row_node_of_kind:
  "{n \<in> set (flowPathForStages row stages ctx). pn_kind n = kind} = (if kind \<in> set stages then {NODE_BUILDERS kind row ctx} else {})"
  by (auto simp: flowPathForStages_def)

lemma distinct_filters: "distinct (map fst (normalizeSelectedNodeFilters sel stages))"
  unfolding selected_filters by (rule ft.distinct_keys)

lemma row_matches:
  "pathMatchesNodeFilters (flowPathForStages row stages ctx) (normalizeSelectedNodeFilters sel stages) \<longleftrightarrow>
    selectedBy stages ctx (chosen sel) row"
proof -
  let ?filters = "normalizeSelectedNodeFilters sel stages"
  let ?byKind = "fold (\<lambda>n. bumpAt (pn_kind n) [] (addToSet (pn_id n))) (flowPathForStages row stages ctx) []"
  let ?ok = "\<lambda>kind ids. case map_of ?byKind kind of None \<Rightarrow> False | Some pathIds \<Rightarrow> list_ex (\<lambda>i. i \<in> set pathIds) ids"
  have one: "?ok kind ids \<longleftrightarrow> (kind, pn_id (NODE_BUILDERS kind row ctx)) \<in> set (chosen sel)"
    if "map_of ?filters kind = Some ids" for kind ids
  proof (cases "map_of ?byKind kind")
    case None
    then show ?thesis using path_lookup(1) row_node_of_kind [of row stages ctx kind] filter_lookup(1) [OF that] by auto
  next
    case (Some pathIds)
    then have "set pathIds = {pn_id (NODE_BUILDERS kind row ctx)}"
      using path_lookup(2) [OF Some] row_node_of_kind [of row stages ctx kind] filter_lookup(1) [OF that] by simp
    then show ?thesis using Some filter_lookup(2) [OF that] by (auto simp: list_ex_iff)
  qed
  have "pathMatchesNodeFilters (flowPathForStages row stages ctx) ?filters \<longleftrightarrow> (\<forall>(kind, ids) \<in> set ?filters. ?ok kind ids)"
    by (simp add: pathMatchesNodeFilters_def Let_def list_all_iff)
  also have "\<dots> \<longleftrightarrow> (\<forall>kind ids. map_of ?filters kind = Some ids \<longrightarrow> ?ok kind ids)"
    by (rule ball_entries [OF distinct_filters])
  also have "\<dots> \<longleftrightarrow> (\<forall>kind ids. map_of ?filters kind = Some ids \<longrightarrow> (kind, pn_id (NODE_BUILDERS kind row ctx)) \<in> set (chosen sel))"
    using one by blast
  also have "\<dots> \<longleftrightarrow> selectedBy stages ctx (chosen sel) row"
  proof
    assume all: "\<forall>kind ids. map_of ?filters kind = Some ids \<longrightarrow> (kind, pn_id (NODE_BUILDERS kind row ctx)) \<in> set (chosen sel)"
    show "selectedBy stages ctx (chosen sel) row"
      unfolding selectedBy_def list_all_iff list_ex_iff
    proof (intro ballI impI)
      fix kind assume "kind \<in> set stages" "\<exists>f \<in> set (chosen sel). fst f = kind"
      then obtain i where "(kind, i) \<in> set (chosen sel)" by auto
      with \<open>kind \<in> set stages\<close> obtain ids where "map_of ?filters kind = Some ids" by (rule filter_present)
      with all show "(kind, pn_id (NODE_BUILDERS kind row ctx)) \<in> set (chosen sel)" by blast
    qed
  next
    assume sel: "selectedBy stages ctx (chosen sel) row"
    show "\<forall>kind ids. map_of ?filters kind = Some ids \<longrightarrow> (kind, pn_id (NODE_BUILDERS kind row ctx)) \<in> set (chosen sel)"
    proof (intro allI impI)
      fix kind ids assume *: "map_of ?filters kind = Some ids"
      then obtain i where "(kind, i) \<in> set (chosen sel)" using filter_lookup(2,3) [OF *] by auto
      then have "list_ex (\<lambda>f. fst f = kind) (chosen sel)" by (force simp: list_ex_iff)
      with sel filter_lookup(1) [OF *] show "(kind, pn_id (NODE_BUILDERS kind row ctx)) \<in> set (chosen sel)"
        by (simp add: selectedBy_def list_all_iff)
    qed
  qed
  finally show ?thesis .
qed

lemma filter_spec: "filterRowsByNodes rows sel stages ctx = filter (selectedBy stages ctx (chosen sel)) rows"
proof (cases "normalizeSelectedNodeFilters sel stages = []")
  case True
  then have "selectedBy stages ctx (chosen sel) row" for row using row_matches [of row stages ctx sel] by (simp add: pathMatchesNodeFilters_def)
  then show ?thesis using True by (simp add: filterRowsByNodes_def)
next
  case False
  then show ?thesis by (simp add: filterRowsByNodes_def Let_def row_matches)
qed

text \<open>The node filters mean what they say: a row stays exactly when, for every visible stage something is selected
  for, the node of the row is among the selected ones; selections for hidden stages do not count.\<close>

theorem node_filter_meaning:
  "filterRowsByNodes rows selectedNodes stages ctx = filter (selectedBy stages ctx (chosen selectedNodes)) rows"
  by (rule filter_spec)

interpretation ot: tally "\<lambda>row. nodeFilterKey (stage, pn_id (NODE_BUILDERS stage row ctx))" "\<lambda>row. (NODE_BUILDERS stage row ctx, Fin 0)"
  "\<lambda>row. \<lambda>(n, v). (n, num_add v (metricValue (rowMetrics row) metric))" "addOptionTotal metric stage ctx"
  for stage ctx metric
  unfolding addOptionTotal_def Let_def builder_kind by (rule bumpAt_tally)

lemma filter_key_inj: "nodeFilterKey (k, i) = nodeFilterKey (k, j) \<longleftrightarrow> i = j"
  by (simp add: nodeFilterKey_def)

lemma option_total:
  assumes "(key, n, v) \<in> set (fold (addOptionTotal metric stage ctx) rows [])"
  shows "pn_kind n = stage"
    and "v = num_sum (map (\<lambda>row. metricValue (rowMetrics row) metric) (filter (\<lambda>row. pn_id (NODE_BUILDERS stage row ctx) = pn_id n) rows))"
    and "filter (\<lambda>row. pn_id (NODE_BUILDERS stage row ctx) = pn_id n) rows \<noteq> []"
proof -
  let ?rs = "filter (\<lambda>row. nodeFilterKey (stage, pn_id (NODE_BUILDERS stage row ctx)) = key) rows"
  have bumps: "fold (\<lambda>row. \<lambda>(n, v). (n, num_add v (metricValue (rowMetrics row) metric))) rs (m, w) =
      (m, foldl num_add w (map (\<lambda>row. metricValue (rowMetrics row) metric) rs))" for rs m w
    by (induction rs arbitrary: w) simp_all
  have "map_of (fold (addOptionTotal metric stage ctx) rows []) key = Some (n, v)" using assms ot.distinct_keys by simp
  then have found: "?rs \<noteq> []" and n: "n = NODE_BUILDERS stage (hd ?rs) ctx"
      and v: "v = foldl num_add (Fin 0) (map (\<lambda>row. metricValue (rowMetrics row) metric) ?rs)"
    unfolding ot.lookup_Some bumps by simp_all
  then show "pn_kind n = stage" by simp
  have "hd ?rs \<in> set ?rs" using found by (rule hd_in_set)
  then have "key = nodeFilterKey (stage, pn_id n)" using n by simp
  then have rs: "?rs = filter (\<lambda>row. pn_id (NODE_BUILDERS stage row ctx) = pn_id n) rows" by (simp add: filter_key_inj)
  from v found show "v = num_sum (map (\<lambda>row. metricValue (rowMetrics row) metric) (filter (\<lambda>row. pn_id (NODE_BUILDERS stage row ctx) = pn_id n) rows))"
      "filter (\<lambda>row. pn_id (NODE_BUILDERS stage row ctx) = pn_id n) rows \<noteq> []"
    unfolding rs num_sum_def .
qed

lemma chosen_except: "chosen (selectedNodeFiltersExceptKind sel kind) = filter (\<lambda>f. fst f \<noteq> kind) (chosen sel)"
  by (auto simp: chosen_def selectedNodeFiltersExceptKind_def Let_def)

text \<open>Replacing the selection of one stage by one of its nodes.\<close>

definition pickOption :: "node_filter list option \<Rightarrow> flow_kind \<Rightarrow> jstring \<Rightarrow> node_filter list option" where
  "pickOption sel kind i = Some (filter (\<lambda>f. fst f \<noteq> kind) (chosen sel) @ [(kind, i)])"

lemma picked_rows:
  assumes "kind \<in> set stages"
  shows "filterRowsByNodes rows (pickOption sel kind i) stages ctx =
    filter (\<lambda>row. pn_id (NODE_BUILDERS kind row ctx) = i) (filterRowsByNodes rows (selectedNodeFiltersExceptKind sel kind) stages ctx)"
proof -
  have "selectedBy stages ctx (chosen (pickOption sel kind i)) row \<longleftrightarrow>
      selectedBy stages ctx (filter (\<lambda>f. fst f \<noteq> kind) (chosen sel)) row \<and> pn_id (NODE_BUILDERS kind row ctx) = i" for row
    using assms by (auto simp: selectedBy_def list_all_iff list_ex_iff pickOption_def chosen_def [of "Some _"])
  then show ?thesis unfolding filter_spec chosen_except by (auto intro: filter_cong)
qed

text \<open>C39. A filter option shows what choosing it leaves: with the selection of its stage replaced by the option, the
  rows that stay are not empty and their metric, added up in order, is the value shown next to the option.\<close>

theorem option_values_exact:
  assumes "opt \<in> set (buildNodeFilterOptions env rows metric r visible palette ctx sel)"
  shows "filterRowsByNodes rows (pickOption sel (no_kind opt) (no_value opt)) (resolveVisibleStages r visible) ctx \<noteq> [] \<and>
    no_valueRaw opt = num_sum (map (\<lambda>row. metricValue (rowMetrics row) metric)
      (filterRowsByNodes rows (pickOption sel (no_kind opt) (no_value opt)) (resolveVisibleStages r visible) ctx))"
proof -
  let ?stages = "resolveVisibleStages r visible"
  obtain color stage where stage: "stage \<in> set ?stages" "opt \<in> set (stageOptions env rows metric ?stages color ctx sel stage)"
    using assms by (auto simp: buildNodeFilterOptions_def Let_def)
  let ?rows = "filterRowsByNodes rows (selectedNodeFiltersExceptKind sel stage) ?stages ctx"
  obtain key n v where e: "(key, n, v) \<in> set (fold (addOptionTotal metric stage ctx) ?rows [])"
    "no_kind opt = pn_kind n" "no_value opt = pn_id n" "no_valueRaw opt = v"
    using stage(2) by (auto simp: stageOptions_def Let_def)
  show ?thesis
    using option_total [OF e(1)] e(2-4) picked_rows [OF stage(1), of rows sel "pn_id n" ctx] by simp
qed

theorem option_values_exact_witness:
  "\<exists>opt. opt \<in> set (buildNodeFilterOptions plain_env [sample_row, sample_row] QuotaM UserR None None None None) \<and>
    filterRowsByNodes [sample_row, sample_row] (pickOption None (no_kind opt) (no_value opt)) (resolveVisibleStages UserR None) None \<noteq> []"
proof -
  let ?os = "buildNodeFilterOptions plain_env [sample_row, sample_row] QuotaM UserR None None None None"
  have "fold (addOptionTotal QuotaM TokenK None) [sample_row, sample_row] [] \<noteq> []"
    using ot.keys_total [where stage = TokenK and ctx = None and metric = QuotaM and es = "[sample_row, sample_row]"] by auto
  then have "?os \<noteq> []"
    by (auto simp: buildNodeFilterOptions_def Let_def sample_stages stageOptions_def filter_spec chosen_def
        selectedNodeFiltersExceptKind_def selectedBy_def simp flip: length_greater_0_conv)
  then obtain opt where "opt \<in> set ?os" by (cases ?os) auto
  with option_values_exact [OF this] show ?thesis by blast
qed

end
