(* ===== verification/FlowMask.thy ===== *)
theory FlowMask
  imports FlowView
begin

text \<open>
  Masked labels and highlighted paths of the flow chart: neither changes anything but the labels or the flags
  it is meant to change.
\<close>

section \<open>Naturality\<close>








section \<open>Masking\<close>








definition hiddenLabel :: "jstring \<Rightarrow> bool" where
  "hiddenLabel s \<longleftrightarrow> s = [] \<or> s = FLOW_MASK_TEXT"

lemma hidden_mask [simp]: "hiddenLabel (maskFlowLabel s)"
  by (simp add: hiddenLabel_def maskFlowLabel_def)








definition open_options :: flow_options where
  "open_options = plain_options\<lparr>fo_topNodeLimit := None\<rparr>"

lemma unlimited_paths:
  assumes "fo_topNodeLimit options = None"
  shows "graphPaths env rows metric stages ctx options =
    map (\<lambda>row. \<lparr>pp_path = flowPathForStages row stages ctx, pp_metrics = rowMetrics row\<rparr>) rows"
  by (simp add: graphPaths_def assms normalizeTopNodeLimit_def buildTopNodeSets_def preparePaths_def applyTopNodeLimit_def
      List.map_filter_def)




section \<open>Highlighting\<close>

text \<open>A selection highlights whole paths: when some path runs through the active node, or over the active link if one
  is given, exactly the nodes and the links of such paths are highlighted and all others are dimmed.\<close>

theorem highlight_follows_paths:
  fixes env rows metric r palette visible ctx options
  defines "stages \<equiv> resolveVisibleStages r visible"
  defines "match p \<equiv> highlightMatches (fo_activeNode options) (fo_activeLink options) (pp_path p)"
  defines "paths \<equiv> filter match (graphPaths env rows metric stages ctx options)"
  defines "g \<equiv> buildFlowGraph env rows metric r palette visible ctx options"
  assumes "fo_activeLink options \<noteq> None \<or> (case fo_activeNode options of Some f \<Rightarrow> fst f \<in> set stages | None \<Rightarrow> False)"
    and "paths \<noteq> []"
  shows "list_all (\<lambda>n. fn_highlighted n = Some (fn_id n \<in> pn_id ` set (concat (map pp_path paths))) \<and>
      fn_dimmed n = Some (fn_id n \<notin> pn_id ` set (concat (map pp_path paths)))) (fg_nodes g) \<and>
    list_all (\<lambda>l. fl_highlighted l = Some (linkStableKey l \<in> eventKey ` set (linkEvents paths)) \<and>
      fl_dimmed l = Some (linkStableKey l \<notin> eventKey ` set (linkEvents paths))) (fg_links g)"
proof -
  let ?all = "graphPaths env rows metric stages ctx options"
  have g: "g = graphOfPaths env metric palette stages options ?all" by (simp add: g_def buildFlowGraph_def Let_def stages_def)
  let ?sets = "buildFlowHighlightSets ?all (fo_activeNode options) (fo_activeLink options) stages"
  let ?nodes = "js_uniq (map pn_id (concat (map pp_path paths)))"
  let ?links = "js_uniq (map (\<lambda>(s, t). pathLinkKey s t) (concat (map pathSteps (map pp_path paths))))"
  have picked: "filter (highlightMatches (fo_activeNode options) (fo_activeLink options)) (map pp_path ?all) = map pp_path paths"
    by (simp add: paths_def match_def [abs_def] filter_map comp_def)
  have "pp_path p \<noteq> []" if "p \<in> set ?all" for p
    using that prepared_ok [of p] visible_stages(2) [of r visible] unfolding graphPaths_def stages_def path_ok_def by force
  then have "concat (map pp_path paths) \<noteq> []" using assms(6) by (cases paths) (auto simp: paths_def filter_eq_Cons_iff)
  then have "?nodes \<noteq> []" by (metis list.map_disc_iff set_empty set_js_uniq)
  then have sets: "?sets = Some (?nodes, ?links)"
    using assms(5) unfolding buildFlowHighlightSets_def Let_def picked by auto
  have keys: "set ?links = eventKey ` set (linkEvents paths)" by (force simp: linkEvents_def eventKey_def)
  have "fn_highlighted n = Some (fn_id n \<in> set ?nodes) \<and> fn_dimmed n = Some (fn_id n \<notin> set ?nodes)" if "n \<in> set (fg_nodes g)" for n
    using that unfolding g graph_shape(1) sets by (auto simp: highlightNode_def)
  moreover have "fl_highlighted l = Some (linkStableKey l \<in> set ?links) \<and> fl_dimmed l = Some (linkStableKey l \<notin> set ?links)"
    if "l \<in> set (fg_links g)" for l
  proof -
    let ?flags = "\<lambda>l. (linkStableKey l, fl_highlighted l, fl_dimmed l)"
    have "?flags l \<in> set (map ?flags (fg_links g))" using that by auto
    also have "map ?flags (fg_links g) = map ?flags (shareLinks (rootIds ?all) (rawLinks env metric palette stages options ?all))"
      unfolding g by (rule graph_links_shared) (simp add: displayLink_def linkStableKey_def split_beta)
    also have "\<dots> = map ?flags (rawLinks env metric palette stages options ?all)" by (simp add: shareLinks_def Let_def linkStableKey_def)
    finally show ?thesis unfolding rawLinks_def sets by (auto simp: highlightLink_def linkStableKey_def)
  qed
  moreover have ids: "set ?nodes = pn_id ` set (concat (map pp_path paths))" by (simp only: set_js_uniq set_map)
  ultimately show ?thesis unfolding list_all_iff ids [symmetric] keys [symmetric] by (intro conjI ballI) simp_all
qed

definition picked_options :: flow_options where
  "picked_options = open_options\<lparr>fo_activeNode := Some (GroupK, lit ''group:vip'')\<rparr>"

theorem highlight_follows_paths_witness:
  "list_all (\<lambda>n. fn_highlighted n \<noteq> None) (fg_nodes (buildFlowGraph plain_env [sample_row] QuotaM UserR None None None picked_options))"
proof -
  have options: "fo_activeNode picked_options = Some (GroupK, lit ''group:vip'')" "fo_activeLink picked_options = None"
      "fo_topNodeLimit picked_options = None"
    by (simp_all add: picked_options_def open_options_def plain_options_def)
  have "list_ex (\<lambda>n. pn_kind n = GroupK \<and> pn_id n = lit ''group:vip'') (flowPathForStages sample_row (resolveVisibleStages UserR None) None)"
    by code_simp
  then have "filter (\<lambda>p. highlightMatches (fo_activeNode picked_options) (fo_activeLink picked_options) (pp_path p))
      (graphPaths plain_env [sample_row] QuotaM (resolveVisibleStages UserR None) None picked_options) \<noteq> []"
    by (simp add: unlimited_paths options highlightMatches_def pathContainsFlowNode_def)
  from highlight_follows_paths [OF _ this] show ?thesis by (auto simp: options sample_stages list_all_iff)
qed

end
