(* ===== verification/Spec2Isabelle.thy ===== *)
theory Spec2Isabelle
  imports StatusCodeRules RefreshProtocol HttpClient Permissions AdvancedRoutes PlaygroundPage RuleGroups TaskMatrix FlowMask
begin

text \<open>
  Verification of the web console of the gateway (\<open>src/web/src\<close>).

  The console is a TypeScript single page application in front of the gateway server. This library
  models the parts of it that compute or keep state: the login shared by all tabs, the HTTP client
  on top of it, the playground (a chat page with streaming answers and a stored history), and the
  editors and displays that transform data (status code rules, advanced custom routes, permissions,
  billing request rules, task prices, the flow chart of the dashboard). The model is a shallow embedding: a
  function of the source is a HOL function under the same name, a module or component state is a
  record passed through its operations, a thrown error is the left side of a sum or an option, and
  asynchronous code is a machine whose steps are the stretches of code between two awaits.

  \<^bold>\<open>Foundations.\<close> \<open>JSPrelude\<close>: strings as UTF-16 code units, JSON values, comparison of doubles,
  Maps as association lists, and the shared locales \<open>normaliser\<close>, \<open>checked_normaliser\<close>,
  \<open>generation_guard\<close> and \<open>dictionary\<close>. \<open>ExprText\<close>: rounding to the nearest double, printing and
  reading numbers and quoted strings, splitting a text outside parentheses. \<open>JSArith\<close>: rounded
  arithmetic, exactness of sums of whole numbers below \<open>2\<^sup>5\<^sup>3\<close>, the stable \<open>Array.sort\<close>, and the
  locale \<open>tally\<close> for Maps that add up values by key. \<open>NumberText\<close>: \<open>Number(String(x))\<close> is \<open>x\<close> for
  every double that is not negative, since the shortest digits are searched for among those that read back.

  \<^bold>\<open>Login.\<close> \<open>AuthStore\<close> models \<open>stores/auth-store.ts\<close>, the validators of \<open>lib/auth-session.ts\<close>,
  \<open>lib/auth-session-sync.ts\<close> and \<open>lib/session-hint.ts\<close>. \<open>AuthSession\<close> models the rest of
  \<open>auth-session.ts\<close> and the reactions of \<open>routes/__root.tsx\<close> and \<open>routes/_authenticated/route.tsx\<close>:
  the module state \<open>auth_module\<close>, its operations, and the refresh as the machine \<open>runner\<close>
  that other operations interleave with. \<open>RefreshProtocol\<close> proves that a superseded
  refresh is inert, that a refresh needs at most 8 requests and 24 steps and returns given that many
  (the number of race retries and the single mismatch retry bound both), that the stored login is
  never partial, that one refresh is in flight at a time, that a logout reaches the other tabs, and
  that a rejected browser lock escapes. \<open>HttpClient\<close> models \<open>lib/http-client.ts\<close> and
  \<open>lib/server-error-message.ts\<close> on top of it: a request is retried once at most, and a GET is
  shared only with the same request of the same session. \<open>Permissions\<close> models \<open>lib/roles.ts\<close> and
  \<open>lib/admin-permissions.ts\<close>.

  \<^bold>\<open>Editors.\<close> \<open>StatusCodeRules\<close> models \<open>lib/http-status-code-rules.ts\<close>: the ranges are sorted,
  disjoint and cover what the tokens name. \<open>AdvancedCustom\<close> and \<open>AdvancedRoutes\<close> model
  \<open>features/channels/lib/advanced-custom.ts\<close>: the validator accepts exactly the tables of a
  declarative specification, printing and parsing round-trip, templates are valid, an edit touches
  its own route only. \<open>RequestRules\<close> models the request rules of \<open>features/pricing/lib/billing-expr.ts\<close>;
  \<open>RuleRoundtrip\<close> and \<open>RuleGroups\<close> prove that built rules are read back and separated from the
  base expression, and which rules are not. \<open>TaskExpr\<close> models \<open>features/pricing/lib/task-expr.ts\<close>,
  the reader of task tiers in \<open>billing-expr.ts\<close> and \<open>task-matrix-display.ts\<close>: a price per unit of
  usage, by tiers with conditions on enumerated fields. \<open>TaskScan\<close> gives the scanning loops of the reader
  a meaning on segments that are balanced outside quotes, \<open>TaskRoundtrip\<close> reads single terms, calls,
  conditions and chains back from their printed text, and \<open>TaskPrices\<close> shows that a configuration is
  restored from its stored expression and that the usage examples are charged by it. \<open>TaskMatrix\<close>
  shows the same of the matrix with a row per combination, and that each usage is charged by the row
  of its combination. Names in a schema are assumed not to contain an opening parenthesis, not to be
  members of every object, and not to be indices.

  \<^bold>\<open>Playground\<close> (\<open>features/playground\<close>). \<open>PlaygroundMessages\<close> and \<open>Conversation\<close>: messages, their
  versions, think tags, streamed chunks. \<open>PlaygroundStorage\<close>: the stored history and its
  limits. \<open>StreamRequest\<close>: payloads, events, and the controller of one stream. \<open>ChatHandler\<close>: the
  hook \<open>useChatHandler\<close>, whose React updaters wait in a queue until a render. \<open>PlaygroundPage\<close>:
  the page over all of them. The theorems: late events of a replaced answer change nothing, a
  completed answer is whole, the callbacks of a request end once, only the last message
  waits, a history within the limits is loaded as saved, and leaving the page loses nothing.

  \<^bold>\<open>Flow chart.\<close> \<open>Flow\<close> models \<open>features/dashboard/lib/flow.ts\<close> up to the links handed to the chart,
  with the types of \<open>features/dashboard/types.ts\<close> and \<open>getDashboardChartColors\<close> of \<open>lib/charts.ts\<close>.
  \<open>FlowTotals\<close> shows that the graph refines its list of paths: every node and link carries the
  metrics of the paths through it. \<open>FlowConserved\<close> derives conservation at inner nodes, columns
  that add up to the summary, and shares in the unit interval. \<open>FlowView\<close> treats the limit on nodes
  and the filters (\<open>node_filter_meaning\<close> gives the declarative reading), \<open>FlowMask\<close> masking and
  highlighting.

  \<^bold>\<open>How the parts meet.\<close> The HTTP client runs on the \<open>auth_module\<close> of the login and awaits its
  refresh outcome; the page composes chat handler and storage, and the chat handler composes
  messages and stream controller. The locales carry what several parts share: \<open>generation_guard\<close>
  for the login epoch, the stream controller and the chat handler, \<open>normaliser\<close> for rules,
  permissions, routes and task prices, \<open>tally\<close> for the totals of the chart.

  \<^bold>\<open>Bounds.\<close> Loops are structural recursion or come with a measure. Fuel occurs once, in \<open>runScript\<close>,
  which runs a refresh alone against a list of responses: 24 steps and 8 responses are proved to be
  enough from every state. Theorems on sums of doubles assume whole numbers whose total stays below
  \<open>2\<^sup>5\<^sup>3\<close>, the range in which doubles add exactly.

  \<^bold>\<open>Arguments of the model.\<close> Clock, random ids, \<open>JSON.parse\<close> and \<open>JSON.stringify\<close>, the \<open>URL\<close>
  constructor, zod schemas, \<open>localeCompare\<close>, number formats and colour schemes are parameters; where
  a theorem relies on one of them, its hypotheses say so and its witness instantiates it.

  \<^bold>\<open>Not modelled.\<close> The Go server, its plugins and the desktop shell: other programs, met only as
  response values. React rendering, routes, translations and style tables: their meaning is what the
  browser draws. Of \<open>flow.ts\<close>, the chart option object and its callbacks on untyped chart values. Of
  the playground, loading and saving the configuration, and the model options. Forms, tables and server calls of the other features:
  mostly calls into libraries. The tiers of token prices in \<open>billing-expr.ts\<close>, which are found by a
  regular expression composed at run time, and the comparison of upstream ratios in the system settings.
\<close>

end
